(* ===== verification/Prelude.thy ===== *)
theory Prelude
  imports Main
begin

text \<open>
  Shared vocabulary of the development: time, decimal rendering, tables with SQL's
  \<^verbatim>\<open>UPDATE ... WHERE\<close> and \<^verbatim>\<open>SELECT ... LIMIT\<close>, and the outcome of a call to a remote
  service. The lemmas here are the generic facts the component theories share; the
  collections \<open>go_defs\<close>, \<open>sql_defs\<close> and \<open>table_simps\<close> are filled by the
  components, so that \<open>simp add: sql_defs\<close> carries their proofs.
\<close>

named_theorems go_defs \<open>definitions that translate pure Go functions\<close>
named_theorems sql_defs \<open>definitions that translate single SQL statements\<close>
named_theorems table_simps \<open>rewriting of table reads after table writes\<close>

section \<open>Time\<close>

text \<open>
  A Go \<^verbatim>\<open>time.Time\<close> and a Postgres \<^verbatim>\<open>timestamptz\<close> are integers counting nanoseconds since
  the Unix epoch; a \<^verbatim>\<open>time.Duration\<close> is an integer number of nanoseconds. The zero
  value of \<^verbatim>\<open>time.Time\<close> (January 1, year 1) is \<open>zero_time\<close>.
\<close>

type_synonym time = int
type_synonym duration = int

text \<open>Go's \<^verbatim>\<open>int\<close> and \<^verbatim>\<open>int64\<close> wrap around.\<close>

definition wrap64 :: "int \<Rightarrow> int" where
  "wrap64 x = (x + 2 ^ 63) mod 2 ^ 64 - 2 ^ 63"

definition zero_time :: time where
  "zero_time = - 62135596800000000000"

abbreviation second :: duration where
  "second \<equiv> 1000000000"

abbreviation millisecond :: duration where
  "millisecond \<equiv> 1000000"

definition IsZero :: "time \<Rightarrow> bool" where
  [go_defs]: "IsZero t = (t = zero_time)"

text \<open>\<^verbatim>\<open>Time.Sub\<close> saturates at the ends of the 64-bit range.\<close>

definition time_Sub :: "time \<Rightarrow> time \<Rightarrow> duration" where
  "time_Sub t u = max (- (2 ^ 63)) (min (2 ^ 63 - 1) (t - u))"

definition UnixMilli :: "time \<Rightarrow> int" where
  [go_defs]: "UnixMilli t = t div millisecond"

section \<open>Decimal rendering\<close>

text \<open>The text of Go's \<^verbatim>\<open>%d\<close> for a number.\<close>

definition digit_char :: "nat \<Rightarrow> char" where
  "digit_char d = char_of (48 + d)"

fun dec_of_nat :: "nat \<Rightarrow> string" where
  "dec_of_nat n =
     (if n < 10 then [digit_char n] else dec_of_nat (n div 10) @ [digit_char (n mod 10)])"

declare dec_of_nat.simps [simp del]

definition dec_of_int :: "int \<Rightarrow> string" where
  "dec_of_int i = (if i < 0 then CHR ''-'' # dec_of_nat (nat (- i)) else dec_of_nat (nat i))"

lemma dec_of_nat_nonempty [simp]: "dec_of_nat n \<noteq> []"
  by (subst dec_of_nat.simps) simp

lemma dec_of_nat_length: "n < 10 ^ Suc k \<Longrightarrow> length (dec_of_nat n) \<le> Suc k"
proof (induction k arbitrary: n)
  case 0
  then show ?case by (subst dec_of_nat.simps) simp
next
  case (Suc k)
  show ?case
  proof (cases "n < 10")
    case True
    then show ?thesis by (subst dec_of_nat.simps) simp
  next
    case False
    have "n div 10 < 10 ^ Suc k"
      using Suc.prems by (simp add: less_mult_imp_div_less mult.commute)
    then have "length (dec_of_nat (n div 10)) \<le> Suc k"
      by (rule Suc.IH)
    with False show ?thesis by (subst dec_of_nat.simps) simp
  qed
qed

text \<open>The layout \<^verbatim>\<open>time.RFC3339\<close> of an instant in UTC, by the proleptic Gregorian calendar.\<close>

definition pad :: "nat \<Rightarrow> int \<Rightarrow> string" where
  "pad n i = (let s = dec_of_int i in replicate (n - length s) (CHR ''0'') @ s)"

definition civil_date :: "int \<Rightarrow> int \<times> int \<times> int" where
  "civil_date days =
    (let z = days + 719468; era = z div 146097; doe = z mod 146097;
         yoe = (doe - doe div 1460 + doe div 36524 - doe div 146096) div 365;
         doy = doe - (365 * yoe + yoe div 4 - yoe div 100);
         mp = (5 * doy + 2) div 153; d = doy - (153 * mp + 2) div 5 + 1;
         m = (if mp < 10 then mp + 3 else mp - 9)
     in (yoe + era * 400 + (if m \<le> 2 then 1 else 0), m, d))"

definition RFC3339 :: "time \<Rightarrow> string" where
  "RFC3339 t =
    (let secs = t div second; (y, m, d) = civil_date (secs div 86400); r = secs mod 86400 in
     pad 4 y @ ''-'' @ pad 2 m @ ''-'' @ pad 2 d @ ''T'' @ pad 2 (r div 3600) @ '':''
       @ pad 2 (r mod 3600 div 60) @ '':'' @ pad 2 (r mod 60) @ ''Z'')"

lemma digit_char_inj: "a < 10 \<Longrightarrow> b < 10 \<Longrightarrow> digit_char a = digit_char b \<Longrightarrow> a = b"
proof -
  assume a: "a < 10" "b < 10" and eq: "digit_char a = digit_char b"
  from eq have "(of_char (digit_char a) :: nat) = of_char (digit_char b)" by simp
  with a show ?thesis by (simp add: digit_char_def)
qed

lemma dec_of_nat_inj [simp]: "dec_of_nat m = dec_of_nat n \<longleftrightarrow> m = n"
proof
  show "dec_of_nat m = dec_of_nat n \<Longrightarrow> m = n"
  proof (induction m arbitrary: n rule: dec_of_nat.induct)
    case (1 m)
    let ?body = "\<lambda>k. if k < 10 then [digit_char k] else dec_of_nat (k div 10) @ [digit_char (k mod 10)]"
    have eq: "?body m = ?body n"
      using "1.prems" dec_of_nat.simps [of m] dec_of_nat.simps [of n] by simp
    show ?case
    proof (cases "m < 10 \<or> n < 10")
      case True
      with eq show ?thesis by (auto simp: digit_char_inj split: if_splits dest: sym)
    next
      case False
      with eq have "dec_of_nat (m div 10) = dec_of_nat (n div 10)" and d: "m mod 10 = n mod 10"
        by (auto simp: digit_char_inj)
      with "1.IH" False have "m div 10 = n div 10" by simp
      with d show ?thesis by (metis div_mult_mod_eq)
    qed
  qed
qed simp

section \<open>Outcomes of a remote call\<close>

text \<open>
  A call to Postgres or Redis either succeeds (\<open>Good\<close>), or returns an error with no
  effect (\<open>Drop\<close>: refused, timed out before it ran), or returns an error although the
  service applied it (\<open>Late\<close>: the confirmation was lost). A process that dies between
  two calls is a process whose remaining calls are all \<open>Drop\<close>.
\<close>

datatype 'e fault = Good | Drop 'e | Late 'e

fun remote :: "'e fault \<Rightarrow> ('s \<Rightarrow> 'a \<times> 's) \<Rightarrow> 's \<Rightarrow> ('e + 'a) \<times> 's" where
  "remote Good f s = (Inr (fst (f s)), snd (f s))"
| "remote (Drop e) f s = (Inl e, s)"
| "remote (Late e) f s = (Inl e, snd (f s))"

lemma map_sum_eq_Inr: "map_sum f g x = Inr y \<longleftrightarrow> (\<exists>a. x = Inr a \<and> y = g a)"
  by (cases x) auto

lemma remote_state: "snd (remote ft f s) = s \<or> snd (remote ft f s) = snd (f s)"
  by (cases ft) auto

lemma remote_Inr: "remote ft f s = (Inr a, s') \<Longrightarrow> f s = (a, s')"
  by (cases ft) (auto simp: prod_eq_iff)

lemma remote_Inl_cases:
  assumes "remote ft f s = (Inl e, s')"
  obtains "ft = Drop e" "s' = s" | "ft = Late e" "s' = snd (f s)"
  using assms by (cases ft) auto

text \<open>A property of states kept by the operation is kept by the call, whatever its outcome.\<close>

lemma remote_preserves:
  assumes "P s" and "P (snd (f s))"
  shows "P (snd (remote ft f s))"
  using assms by (cases ft) auto

section \<open>Tables\<close>

text \<open>
  A table is the list of its rows in the order a scan returns them. SQL leaves that order
  open, so every statement about a table is a statement about every order.
\<close>

definition update_where :: "('r \<Rightarrow> bool) \<Rightarrow> ('r \<Rightarrow> 'r) \<Rightarrow> 'r list \<Rightarrow> 'r list" where
  "update_where p f rows = map (\<lambda>r. if p r then f r else r) rows"

definition rows_affected :: "('r \<Rightarrow> bool) \<Rightarrow> 'r list \<Rightarrow> nat" where
  "rows_affected p rows = length (filter p rows)"

definition select_limit :: "('r \<Rightarrow> bool) \<Rightarrow> nat \<Rightarrow> 'r list \<Rightarrow> 'r list" where
  "select_limit p n rows = take n (filter p rows)"

lemma length_update_where [simp]: "length (update_where p f rows) = length rows"
  by (simp add: update_where_def)

lemma map_update_where [table_simps]:
  "(\<And>r. p r \<Longrightarrow> k (f r) = k r) \<Longrightarrow> map k (update_where p f rows) = map k rows"
  by (simp add: update_where_def)

lemma set_update_where:
  "set (update_where p f rows) = {r \<in> set rows. \<not> p r} \<union> f ` {r \<in> set rows. p r}"
  by (auto simp: update_where_def)

lemma update_where_none [table_simps]:
  "rows_affected p rows = 0 \<Longrightarrow> update_where p f rows = rows"
  by (auto simp: rows_affected_def update_where_def filter_empty_conv intro: map_idI)

lemma list_all_update_where:
  "list_all P rows \<Longrightarrow> (\<And>r. P r \<Longrightarrow> p r \<Longrightarrow> P (f r)) \<Longrightarrow> list_all P (update_where p f rows)"
  by (auto simp: update_where_def list_all_iff)

lemma select_limit_sound: "r \<in> set (select_limit p n rows) \<Longrightarrow> r \<in> set rows \<and> p r"
  by (auto simp: select_limit_def dest: in_set_takeD)

lemma select_limit_length: "length (select_limit p n rows) \<le> n"
  by (simp add: select_limit_def)

lemma select_limit_complete:
  "rows_affected p rows \<le> n \<Longrightarrow> set (select_limit p n rows) = {r \<in> set rows. p r}"
  by (auto simp: select_limit_def rows_affected_def)

text \<open>Look-up of the row with a given key.\<close>

definition find_row :: "('r \<Rightarrow> 'k) \<Rightarrow> 'k \<Rightarrow> 'r list \<Rightarrow> 'r option" where
  "find_row k x rows = find (\<lambda>r. k r = x) rows"

lemma find_row_Nil [simp]: "find_row k x [] = None"
  by (simp add: find_row_def)

lemma find_row_Cons [simp]:
  "find_row k x (r # rows) = (if k r = x then Some r else find_row k x rows)"
  by (simp add: find_row_def)

lemma find_row_Some: "find_row k x rows = Some r \<Longrightarrow> r \<in> set rows \<and> k r = x"
  by (induction rows) (auto split: if_splits)

lemma find_row_None: "find_row k x rows = None \<longleftrightarrow> x \<notin> k ` set rows"
  by (induction rows) auto

lemma find_row_append [simp]:
  "find_row k x (xs @ ys) = (case find_row k x xs of None \<Rightarrow> find_row k x ys | Some r \<Rightarrow> Some r)"
  by (induction xs) auto

lemma find_row_in_set:
  "distinct (map k rows) \<Longrightarrow> r \<in> set rows \<Longrightarrow> find_row k (k r) rows = Some r"
  by (induction rows) (auto simp: rev_image_eqI)

lemma find_row_update_where [table_simps]:
  assumes "\<And>r. p r \<Longrightarrow> k (f r) = k r"
  shows "find_row k x (update_where p f rows) =
    map_option (\<lambda>r. if p r then f r else r) (find_row k x rows)"
  using assms by (induction rows) (auto simp: update_where_def)

text \<open>
  The shape of every conditional \<^verbatim>\<open>UPDATE\<close> by primary key: at most one row is touched,
  and the count of affected rows says whether it was.
\<close>

lemma rows_affected_key:
  assumes "distinct (map k rows)"
  shows "rows_affected (\<lambda>r. k r = x \<and> q r) rows =
    (case find_row k x rows of None \<Rightarrow> 0 | Some r \<Rightarrow> if q r then 1 else 0)"
  using assms
proof (induction rows)
  case Nil
  then show ?case by (simp add: rows_affected_def)
next
  case (Cons r rows)
  show ?case
  proof (cases "k r = x")
    case True
    with Cons.prems have "filter (\<lambda>r. k r = x \<and> q r) rows = []"
      by (auto simp: filter_empty_conv dest: sym)
    with True show ?thesis by (simp add: rows_affected_def)
  next
    case False
    with Cons show ?thesis by (simp add: rows_affected_def)
  qed
qed

lemma rows_affected_key_le1:
  "distinct (map k rows) \<Longrightarrow> rows_affected (\<lambda>r. k r = x \<and> q r) rows \<le> 1"
  by (simp add: rows_affected_key split: option.split)

end
