(* ===== verification/Errors.thy ===== *)
theory Errors
  imports Prelude
begin

text \<open>
  The error taxonomy of \<^verbatim>\<open>internal/job/errors.go\<close>: Go's error chains, the marks
  \<open>NonRetryable\<close> and \<open>Interrupted\<close>, the classification of a finished attempt and the
  bounded rendering of an error for storage.
\<close>

section \<open>Go error values\<close>

text \<open>
  An error is a tree with one child at most, as \<^verbatim>\<open>errors.New\<close>, \<^verbatim>\<open>fmt.Errorf\<close> and the
  program's own wrapper types build it. A sentinel is a package-level variable and is
  identified by its name; \<open>Errorf\<close> is a fresh error without a cause; \<open>ErrorfW p e\<close> is
  \<^verbatim>\<open>fmt.Errorf\<close> of a text \<open>p\<close> followed by \<^verbatim>\<open>%w\<close>. \<open>PanicError\<close> is the wrapper type
  \<^verbatim>\<open>panicError\<close> of \<^verbatim>\<open>internal/worker/runner.go\<close>.
\<close>

datatype go_error =
    Sentinel string string
  | Errorf string
  | ErrorfW string go_error
  | NonRetryableError go_error
  | InterruptedError go_error
  | PanicError go_error

type_synonym error = "go_error option"
type_synonym 'a res = "go_error + 'a"

primrec Error :: "go_error \<Rightarrow> string" where
  "Error (Sentinel _ msg) = msg"
| "Error (Errorf msg) = msg"
| "Error (ErrorfW p e) = p @ Error e"
| "Error (NonRetryableError e) = Error e"
| "Error (InterruptedError e) = Error e"
| "Error (PanicError e) = Error e"

text \<open>The chain that \<^verbatim>\<open>errors.Is\<close> and \<^verbatim>\<open>errors.As\<close> walk through \<^verbatim>\<open>Unwrap\<close>.\<close>

primrec chain :: "go_error \<Rightarrow> go_error list" where
  "chain (Sentinel n msg) = [Sentinel n msg]"
| "chain (Errorf msg) = [Errorf msg]"
| "chain (ErrorfW p e) = ErrorfW p e # chain e"
| "chain (NonRetryableError e) = NonRetryableError e # chain e"
| "chain (InterruptedError e) = InterruptedError e # chain e"
| "chain (PanicError e) = PanicError e # chain e"

definition errors_Is :: "error \<Rightarrow> go_error \<Rightarrow> bool" where
  [go_defs]: "errors_Is err target = (case err of None \<Rightarrow> False | Some e \<Rightarrow> target \<in> set (chain e))"

definition errors_As :: "error \<Rightarrow> (go_error \<Rightarrow> bool) \<Rightarrow> bool" where
  [go_defs]: "errors_As err is_type =
    (case err of None \<Rightarrow> False | Some e \<Rightarrow> list_ex is_type (chain e))"

fun is_NonRetryableError :: "go_error \<Rightarrow> bool" where
  "is_NonRetryableError (NonRetryableError _) = True"
| "is_NonRetryableError _ = False"

fun is_InterruptedError :: "go_error \<Rightarrow> bool" where
  "is_InterruptedError (InterruptedError _) = True"
| "is_InterruptedError _ = False"

fun is_PanicError :: "go_error \<Rightarrow> bool" where
  "is_PanicError (PanicError _) = True"
| "is_PanicError _ = False"

definition Canceled :: go_error where
  "Canceled = Sentinel ''context.Canceled'' ''context canceled''"

definition DeadlineExceeded :: go_error where
  "DeadlineExceeded = Sentinel ''context.DeadlineExceeded'' ''context deadline exceeded''"

section \<open>The marks\<close>

definition NonRetryable :: "error \<Rightarrow> error" where
  [go_defs]: "NonRetryable err = map_option NonRetryableError err"

definition IsNonRetryable :: "error \<Rightarrow> bool" where
  [go_defs]: "IsNonRetryable err = errors_As err is_NonRetryableError"

definition Interrupted :: "error \<Rightarrow> error" where
  [go_defs]: "Interrupted err = map_option InterruptedError err"

definition IsInterrupted :: "error \<Rightarrow> bool" where
  [go_defs]: "IsInterrupted err = errors_As err is_InterruptedError"

definition ErrCancelRequested :: go_error where
  "ErrCancelRequested = Sentinel ''job.ErrCancelRequested'' ''job: cancellation requested''"

definition ErrNoHandler :: error where
  "ErrNoHandler =
     NonRetryable (Some (Sentinel ''job.errNoHandler'' ''job: no handler registered for this job type''))"

section \<open>Outcomes\<close>

datatype outcome =
    OutcomeCompleted
  | OutcomeFailed
  | OutcomeRetryable
  | OutcomeCancelled
  | OutcomeInterrupted
  | OutcomeLeaseExpired
  | OutcomePanicked

definition ClassifyError :: "error \<Rightarrow> error \<Rightarrow> outcome" where
  "ClassifyError err cause =
    (if err = None then OutcomeCompleted
     else if errors_Is cause ErrCancelRequested \<or> errors_Is err ErrCancelRequested then OutcomeCancelled
     else if IsInterrupted err \<or> IsInterrupted cause then OutcomeInterrupted
     else if IsNonRetryable err then OutcomeFailed
     else if errors_Is err DeadlineExceeded then OutcomeRetryable
     else OutcomeRetryable)"

definition max_error_bytes :: nat where
  "max_error_bytes = 2048"

definition AttemptError :: "error \<Rightarrow> string" where
  "AttemptError err =
    (case err of
       None \<Rightarrow> ''''
     | Some e \<Rightarrow>
         (let s = Error e in
          if length s > max_error_bytes
          then take max_error_bytes s @ '' [truncated '' @ dec_of_nat (length s - max_error_bytes) @ '' bytes]''
          else s))"

section \<open>Lemmas\<close>

lemma chain_self [simp]: "e \<in> set (chain e)"
  by (cases e) auto

lemma chain_trans: "x \<in> set (chain y) \<Longrightarrow> y \<in> set (chain z) \<Longrightarrow> x \<in> set (chain z)"
  by (induction z) auto

text \<open>A mark survives any further wrapping: \<open>y\<close> is reached from \<open>z\<close> by unwrapping.\<close>

lemma errors_As_wrap:
  "errors_As (Some y) p \<Longrightarrow> y \<in> set (chain z) \<Longrightarrow> errors_As (Some z) p"
  by (auto simp: errors_As_def list_ex_iff intro: chain_trans)

lemma errors_Is_wrap:
  "errors_Is (Some y) t \<Longrightarrow> y \<in> set (chain z) \<Longrightarrow> errors_Is (Some z) t"
  by (auto simp: errors_Is_def intro: chain_trans)

lemma IsNonRetryable_NonRetryable [simp]: "IsNonRetryable (NonRetryable err) \<longleftrightarrow> err \<noteq> None"
  by (cases err) (simp_all add: go_defs)

lemma IsInterrupted_Interrupted [simp]: "IsInterrupted (Interrupted err) \<longleftrightarrow> err \<noteq> None"
  by (cases err) (simp_all add: go_defs)

lemma IsNonRetryable_ErrNoHandler [simp]: "IsNonRetryable ErrNoHandler"
  by (simp add: ErrNoHandler_def)

text \<open>Handlers add context with layers of \<^verbatim>\<open>fmt.Errorf("...: %w", err)\<close>.\<close>

definition wrap_errors :: "string list \<Rightarrow> go_error \<Rightarrow> go_error" where
  "wrap_errors layers e = foldr ErrorfW layers e"

lemma wrap_errors_simps [simp]:
  "wrap_errors [] e = e"
  "wrap_errors (p # ps) e = ErrorfW p (wrap_errors ps e)"
  by (simp_all add: wrap_errors_def)

lemma chain_wrap_errors: "e \<in> set (chain (wrap_errors ps e))"
  by (induction ps) auto

lemma list_ex_chain_wrap:
  "(\<And>p x. \<not> q (ErrorfW p x)) \<Longrightarrow> list_ex q (chain (wrap_errors ps e)) = list_ex q (chain e)"
  by (induction ps) auto

lemma sentinel_chain_wrap:
  "Sentinel n m \<in> set (chain (wrap_errors ps e)) \<longleftrightarrow> Sentinel n m \<in> set (chain e)"
  by (induction ps) auto

text \<open>The classification reads only the marks of the chain, so wrapping never changes it.\<close>

lemma ClassifyError_wrap:
  "ClassifyError (Some (wrap_errors ps e)) cause = ClassifyError (Some e) cause"
  by (simp add: ClassifyError_def go_defs list_ex_chain_wrap sentinel_chain_wrap
      ErrCancelRequested_def DeadlineExceeded_def)

lemma ClassifyError_completed [simp]: "ClassifyError err cause = OutcomeCompleted \<longleftrightarrow> err = None"
  by (simp add: ClassifyError_def)

lemma ClassifyError_range:
  "ClassifyError err cause \<noteq> OutcomeLeaseExpired" "ClassifyError err cause \<noteq> OutcomePanicked"
  by (simp_all add: ClassifyError_def)

text \<open>
  The rendering stored with every attempt is bounded: at most the limit plus a suffix
  that names how many bytes were cut.
\<close>

lemma AttemptError_short: "length (Error e) \<le> max_error_bytes \<Longrightarrow> AttemptError (Some e) = Error e"
  by (simp add: AttemptError_def)

lemma AttemptError_prefix:
  "take max_error_bytes (AttemptError (Some e)) = take max_error_bytes (Error e)"
  by (simp add: AttemptError_def Let_def)

lemma AttemptError_bound:
  assumes "length (Error e) < 10 ^ 12"
  shows "length (AttemptError (Some e)) \<le> 2079"
proof -
  have "length (dec_of_nat (length (Error e) - max_error_bytes)) \<le> Suc 11"
    by (rule dec_of_nat_length) (use assms in simp)
  then show ?thesis
    by (simp add: AttemptError_def Let_def max_error_bytes_def)
qed

end
