(* ===== verification/Job.thy ===== *)
theory Job
  imports Errors
begin

text \<open>
  The domain of \<^verbatim>\<open>internal/job\<close>: statuses, priorities, the job record and its validating
  constructor (\<^verbatim>\<open>job.go\<close>), the queue envelope, and the lifecycle state machine
  (\<^verbatim>\<open>statemachine.go\<close>).
\<close>

section \<open>Statuses and priorities\<close>

datatype status =
    StatusPending
  | StatusRunning
  | StatusCompleted
  | StatusFailed
  | StatusRetrying
  | StatusDeadLetter
  | StatusCancelled

text \<open>The strings behind the constants, which the database and the API carry.\<close>

primrec status_text :: "status \<Rightarrow> string" where
  "status_text StatusPending = ''PENDING''"
| "status_text StatusRunning = ''RUNNING''"
| "status_text StatusCompleted = ''COMPLETED''"
| "status_text StatusFailed = ''FAILED''"
| "status_text StatusRetrying = ''RETRYING''"
| "status_text StatusDeadLetter = ''DEAD_LETTER''"
| "status_text StatusCancelled = ''CANCELLED''"

definition Statuses :: "status list" where
  "Statuses = [StatusPending, StatusRunning, StatusCompleted, StatusFailed,
     StatusRetrying, StatusDeadLetter, StatusCancelled]"

definition Status_Valid :: "string \<Rightarrow> bool" where
  "Status_Valid s = list_ex (\<lambda>v. s = status_text v) Statuses"

definition Terminal :: "status \<Rightarrow> bool" where
  [go_defs]: "Terminal s =
    (s = StatusCompleted \<or> s = StatusFailed \<or> s = StatusDeadLetter \<or> s = StatusCancelled)"

type_synonym priority = string

definition PriorityHigh :: priority where "PriorityHigh = ''high''"
definition PriorityDefault :: priority where "PriorityDefault = ''default''"
definition PriorityLow :: priority where "PriorityLow = ''low''"

definition PriorityOrder :: "priority list" where
  "PriorityOrder = [PriorityHigh, PriorityDefault, PriorityLow]"

definition Priority_Valid :: "priority \<Rightarrow> bool" where
  "Priority_Valid p = (p = PriorityHigh \<or> p = PriorityDefault \<or> p = PriorityLow)"

lemma distinct_PriorityOrder [simp]: "distinct PriorityOrder"
  by (simp add: PriorityOrder_def PriorityHigh_def PriorityDefault_def PriorityLow_def)

lemma set_PriorityOrder: "p \<in> set PriorityOrder \<longleftrightarrow> Priority_Valid p"
  by (auto simp: PriorityOrder_def Priority_Valid_def)

section \<open>Limits and names\<close>

definition MaxPayloadBytes :: nat where "MaxPayloadBytes = 1048576"
definition MaxAttemptsCeiling :: int where "MaxAttemptsCeiling = 25"
definition DefaultMaxAttempts :: int where "DefaultMaxAttempts = 5"
definition DefaultQueue :: string where "DefaultQueue = ''default''"

text \<open>The character classes and the length bound of the regular expression \<^verbatim>\<open>nameRe\<close>.\<close>

definition is_alnum :: "char \<Rightarrow> bool" where
  "is_alnum c =
     (let n = of_char c :: nat in
      (97 \<le> n \<and> n \<le> 122) \<or> (65 \<le> n \<and> n \<le> 90) \<or> (48 \<le> n \<and> n \<le> 57))"

definition is_name_char :: "char \<Rightarrow> bool" where
  "is_name_char c = (is_alnum c \<or> c = CHR ''_'' \<or> c = CHR ''.'' \<or> c = CHR ''-'')"

definition ValidName :: "string \<Rightarrow> bool" where
  "ValidName s =
     (case s of [] \<Rightarrow> False | c # cs \<Rightarrow> is_alnum c \<and> list_all is_name_char cs \<and> length cs \<le> 99)"

lemma ValidName_length: "ValidName s \<Longrightarrow> 1 \<le> length s \<and> length s \<le> 100"
  by (auto simp: ValidName_def split: list.splits)

lemma ValidName_nonempty: "ValidName s \<Longrightarrow> s \<noteq> []"
  by (auto simp: ValidName_def)

lemma ValidName_no_colon: "ValidName s \<Longrightarrow> CHR '':'' \<notin> set s"
  by (auto simp: ValidName_def is_name_char_def is_alnum_def list_all_iff split: list.splits)

section \<open>The job record\<close>

record job =
  j_ID :: string
  j_Type :: string
  j_Queue :: string
  j_Status :: status
  j_Priority :: priority
  j_Payload :: string
  j_Result :: string
  j_Error :: string
  j_IdempotencyKey :: string
  j_AttemptCount :: int
  j_MaxAttempts :: int
  j_LeaseEpoch :: int
  j_LeaseExpiresAt :: "time option"
  j_WorkerID :: string
  j_CreatedAt :: time
  j_ScheduledAt :: time
  j_StartedAt :: "time option"
  j_CompletedAt :: "time option"

record options =
  o_Queue :: string
  o_Priority :: priority
  o_MaxAttempts :: int
  o_IdempotencyKey :: string
  o_ScheduledAt :: time

datatype new_error =
    InvalidType string
  | PayloadTooLarge nat
  | PayloadNotJSON
  | InvalidQueue string
  | InvalidPriority string
  | MaxAttemptsOutOfRange int
  | IdempotencyKeyTooLong

text \<open>
  \<^verbatim>\<open>New\<close>: \<open>json_valid\<close> is \<^verbatim>\<open>json.Valid\<close> and \<open>uuid\<close> the identifier that
  \<^verbatim>\<open>uuid.NewString\<close> returned.
\<close>

definition New ::
  "(string \<Rightarrow> bool) \<Rightarrow> string \<Rightarrow> string \<Rightarrow> string \<Rightarrow> options \<Rightarrow> time \<Rightarrow> new_error + job"
where
  "New json_valid uuid jobType payload opts now =
    (if \<not> ValidName jobType then Inl (InvalidType jobType)
     else if length payload > MaxPayloadBytes then Inl (PayloadTooLarge (length payload))
     else if length payload > 0 \<and> \<not> json_valid payload then Inl PayloadNotJSON
     else
       let q = (if o_Queue opts = [] then DefaultQueue else o_Queue opts) in
       if \<not> ValidName q then Inl (InvalidQueue q)
       else
         let p = (if o_Priority opts = [] then PriorityDefault else o_Priority opts) in
         if \<not> Priority_Valid p then Inl (InvalidPriority p)
         else
           let ma = (if o_MaxAttempts opts = 0 then DefaultMaxAttempts else o_MaxAttempts opts) in
           if ma < 1 \<or> ma > MaxAttemptsCeiling then Inl (MaxAttemptsOutOfRange ma)
           else if length (o_IdempotencyKey opts) > 256 then Inl IdempotencyKeyTooLong
           else
             let sched = (if IsZero (o_ScheduledAt opts) then now else o_ScheduledAt opts) in
             Inr \<lparr> j_ID = uuid, j_Type = jobType, j_Queue = q, j_Status = StatusPending,
               j_Priority = p, j_Payload = payload, j_Result = [], j_Error = [],
               j_IdempotencyKey = o_IdempotencyKey opts, j_AttemptCount = 0, j_MaxAttempts = ma,
               j_LeaseEpoch = 0, j_LeaseExpiresAt = None, j_WorkerID = [], j_CreatedAt = now,
               j_ScheduledAt = sched, j_StartedAt = None, j_CompletedAt = None \<rparr>)"

section \<open>The envelope\<close>

record envelope =
  e_ID :: string
  e_Type :: string
  e_Queue :: string
  e_Priority :: priority
  e_Attempt :: int
  e_Payload :: string
  e_EnqueuedAt :: time

definition NewEnvelope :: "job \<Rightarrow> time \<Rightarrow> envelope" where
  "NewEnvelope j now =
    \<lparr> e_ID = j_ID j, e_Type = j_Type j, e_Queue = j_Queue j, e_Priority = j_Priority j,
      e_Attempt = 1, e_Payload = j_Payload j, e_EnqueuedAt = now \<rparr>"

text \<open>
  The JSON text of an envelope: \<open>marshal\<close> and \<open>unmarshal\<close> stand for \<^verbatim>\<open>json.Marshal\<close>
  and \<^verbatim>\<open>json.Unmarshal\<close> at the type \<^verbatim>\<open>Envelope\<close>.
\<close>

record codec =
  marshal :: "envelope \<Rightarrow> string res"
  unmarshal :: "string \<Rightarrow> envelope res"

definition Encode :: "codec \<Rightarrow> envelope \<Rightarrow> string res" where
  "Encode C e =
    (case marshal C e of
       Inl err \<Rightarrow> Inl (ErrorfW ''job: encoding envelope: '' err)
     | Inr b \<Rightarrow> Inr b)"

definition DecodeEnvelope :: "codec \<Rightarrow> string \<Rightarrow> envelope res" where
  "DecodeEnvelope C s =
    (case unmarshal C s of
       Inl err \<Rightarrow> Inl (ErrorfW ''job: decoding envelope: '' err)
     | Inr e \<Rightarrow>
         if e_ID e = [] \<or> e_Type e = []
         then Inl (Errorf ''job: envelope missing id or type'') else Inr e)"

section \<open>The state machine\<close>

primrec transitions :: "status \<Rightarrow> status list" where
  "transitions StatusPending = [StatusRunning, StatusCancelled]"
| "transitions StatusRunning =
     [StatusCompleted, StatusRetrying, StatusFailed, StatusDeadLetter, StatusCancelled]"
| "transitions StatusRetrying = [StatusPending, StatusRunning, StatusCancelled]"
| "transitions StatusDeadLetter = [StatusPending]"
| "transitions StatusCompleted = []"
| "transitions StatusFailed = []"
| "transitions StatusCancelled = []"

definition CanTransition :: "status \<Rightarrow> status \<Rightarrow> bool" where
  [go_defs]: "CanTransition from to = (to \<in> set (transitions from))"

datatype transition_error =
    UnknownStatus string
  | InvalidTransitionError string string

text \<open>\<^verbatim>\<open>Transition\<close> takes arbitrary strings; the table has no entry for an unknown one.\<close>

definition CanTransition_text :: "string \<Rightarrow> string \<Rightarrow> bool" where
  "CanTransition_text from to =
    list_ex (\<lambda>a. from = status_text a \<and> list_ex (\<lambda>b. to = status_text b) (transitions a)) Statuses"

definition Transition :: "string \<Rightarrow> string \<Rightarrow> transition_error option" where
  "Transition from to =
    (if \<not> Status_Valid from then Some (UnknownStatus from)
     else if \<not> Status_Valid to then Some (UnknownStatus to)
     else if \<not> CanTransition_text from to then Some (InvalidTransitionError from to)
     else None)"

section \<open>Lemmas\<close>

lemma Statuses_all: "set Statuses = UNIV"
proof
  show "UNIV \<subseteq> set Statuses"
  proof
    fix s :: status
    show "s \<in> set Statuses" by (cases s) (simp_all add: Statuses_def)
  qed
qed simp

lemma status_text_inj [simp]: "status_text a = status_text b \<longleftrightarrow> a = b"
  by (cases a; cases b) simp_all

lemma Status_Valid_iff: "Status_Valid s \<longleftrightarrow> (\<exists>v. s = status_text v)"
  by (simp add: Status_Valid_def list_ex_iff Statuses_all)

lemma CanTransition_text_iff:
  "CanTransition_text from to \<longleftrightarrow>
     (\<exists>a b. from = status_text a \<and> to = status_text b \<and> CanTransition a b)"
  by (auto simp: CanTransition_text_def list_ex_iff Statuses_all CanTransition_def)

lemma Terminal_cases:
  "Terminal s \<longleftrightarrow> s \<in> {StatusCompleted, StatusFailed, StatusDeadLetter, StatusCancelled}"
  by (simp add: Terminal_def)

lemma New_Inr:
  assumes "New json_valid uuid jobType payload opts now = Inr j"
  shows "ValidName (j_Type j)" "ValidName (j_Queue j)" "Priority_Valid (j_Priority j)"
    "1 \<le> j_MaxAttempts j" "j_MaxAttempts j \<le> MaxAttemptsCeiling" "j_Status j = StatusPending"
    "j_AttemptCount j = 0" "length (j_IdempotencyKey j) \<le> 256" "j_ID j = uuid"
    "length (j_Payload j) \<le> MaxPayloadBytes"
  using assms by (auto simp: New_def Let_def split: if_splits)

text \<open>The reflexive transitive closure of the table, for statements about lifecycles.\<close>

inductive lifecycle :: "status \<Rightarrow> status \<Rightarrow> bool" where
  lifecycle_refl: "lifecycle s s"
| lifecycle_step: "lifecycle s t \<Longrightarrow> CanTransition t u \<Longrightarrow> lifecycle s u"

lemma lifecycle_trans: "lifecycle t u \<Longrightarrow> lifecycle s t \<Longrightarrow> lifecycle s u"
  by (induction rule: lifecycle.induct) (auto intro: lifecycle.intros)

lemma lifecycle_1: "CanTransition s t \<Longrightarrow> lifecycle s t"
  by (blast intro: lifecycle.intros)

lemma lifecycle_final:
  "lifecycle s t \<Longrightarrow> s \<in> {StatusCompleted, StatusFailed, StatusCancelled} \<Longrightarrow> t = s"
  by (induction rule: lifecycle.induct) (auto simp: CanTransition_def)

lemma lifecycle_running_cancelled: "lifecycle StatusRunning StatusCancelled"
  by (rule lifecycle_1) (simp add: CanTransition_def)

text \<open>
  The table is a lifecycle: a status has no way out exactly when it is COMPLETED, FAILED
  or CANCELLED; the only exit of DEAD\_LETTER is the operator's requeue to PENDING; nothing
  returns to PENDING but RETRYING and DEAD\_LETTER; and the string-level \<^verbatim>\<open>Transition\<close>
  accepts exactly the edges of the table, refusing every unknown status first.
\<close>

lemma state_machine_shape:
  "(\<forall>s. (\<forall>t. \<not> CanTransition s t) \<longleftrightarrow> Terminal s \<and> s \<noteq> StatusDeadLetter)
   \<and> (\<forall>t. CanTransition StatusDeadLetter t \<longleftrightarrow> t = StatusPending)
   \<and> (\<forall>s. CanTransition s StatusPending \<longleftrightarrow> s = StatusRetrying \<or> s = StatusDeadLetter)
   \<and> (\<forall>from to. Transition from to = None \<longleftrightarrow>
        (\<exists>a b. from = status_text a \<and> to = status_text b \<and> CanTransition a b))"
proof (intro conjI allI)
  fix s t :: status and "from" "to"
  show "(\<forall>t. \<not> CanTransition s t) \<longleftrightarrow> Terminal s \<and> s \<noteq> StatusDeadLetter"
    by (cases s) (auto simp: CanTransition_def Terminal_def)
  show "CanTransition StatusDeadLetter t \<longleftrightarrow> t = StatusPending"
    by (simp add: CanTransition_def)
  show "CanTransition s StatusPending \<longleftrightarrow> s = StatusRetrying \<or> s = StatusDeadLetter"
    by (cases s) (simp_all add: CanTransition_def)
  show "Transition from to = None \<longleftrightarrow>
        (\<exists>a b. from = status_text a \<and> to = status_text b \<and> CanTransition a b)"
    by (auto simp: Transition_def Status_Valid_iff CanTransition_text_iff)
qed

end
