(* ===== verification/Store.thy ===== *)
theory Store
  imports Job
begin

text \<open>
  The Postgres layer, \<^verbatim>\<open>internal/store/store.go\<close>, over the schema of
  \<^verbatim>\<open>internal/store/migrations\<close>. Each SQL statement of the source is a function on the
  tables; the Go method around it adds the error of a failed call (an argument of type
  \<^typ>\<open>go_error fault\<close>, one per statement sent) and the interpretation of the number of
  affected rows. \<open>db_now\<close> is the database's own clock, \<^verbatim>\<open>now()\<close>.
\<close>

section \<open>Tables\<close>

record job_row =
  r_id :: string
  r_type :: string
  r_queue :: string
  r_status :: status
  r_priority :: priority
  r_payload :: string
  r_result :: "string option"
  r_error :: "string option"
  r_idempotency_key :: "string option"
  r_attempt_count :: int
  r_max_attempts :: int
  r_lease_epoch :: int
  r_lease_expires_at :: "time option"
  r_worker_id :: "string option"
  r_enqueued_stream_id :: "string option"
  r_created_at :: time
  r_scheduled_at :: time
  r_started_at :: "time option"
  r_completed_at :: "time option"
  r_updated_at :: time

record attempt_row =
  t_job_id :: string
  t_attempt :: int
  t_worker_id :: "string option"
  t_started_at :: time
  t_finished_at :: "time option"
  t_outcome :: outcome
  t_error :: "string option"

datatype detail_value = DText string | DTime time | DStatus status

text \<open>The JSON document of an event; the SQL null is \<open>None\<close> in the row below.\<close>

datatype detail = DNull | DObject "(string \<times> detail_value) list"

record event_row =
  v_job_id :: string
  v_at :: time
  v_event :: string
  v_detail :: "detail option"

record worker_row =
  w_id :: string
  w_hostname :: "string option"
  w_pid :: "int option"
  w_concurrency :: int
  w_target_concurrency :: int
  w_active_jobs :: int
  w_processed :: int
  w_state :: string
  w_started_at :: time
  w_last_heartbeat_at :: time

record db =
  jobs :: "job_row list"
  job_attempts :: "attempt_row list"
  job_events :: "event_row list"
  workers :: "worker_row list"
  db_now :: time

type_synonym 'a stmt = "db \<Rightarrow> 'a \<times> db"

definition job_at :: "db \<Rightarrow> string \<Rightarrow> job_row option" where
  "job_at d i = find_row r_id i (jobs d)"

section \<open>Sending a statement\<close>

text \<open>Every method returns its statement's error behind a prefix of its own.\<close>

definition exec_stmt :: "go_error fault \<Rightarrow> string \<Rightarrow> 'a stmt \<Rightarrow> db \<Rightarrow> 'a res \<times> db" where
  "exec_stmt ft prefix f d =
    (case remote ft f d of
       (Inl e, d') \<Rightarrow> (Inl (ErrorfW prefix e), d')
     | (Inr a, d') \<Rightarrow> (Inr a, d'))"

definition update_jobs :: "(job_row \<Rightarrow> bool) \<Rightarrow> (job_row \<Rightarrow> job_row) \<Rightarrow> nat stmt" where
  "update_jobs p f d = (rows_affected p (jobs d), d\<lparr>jobs := update_where p f (jobs d)\<rparr>)"

text \<open>\<^verbatim>\<open>UPDATE ... RETURNING\<close> read by \<^verbatim>\<open>QueryRow\<close>: the first updated row, if any.\<close>

definition update_jobs_returning ::
  "(job_row \<Rightarrow> bool) \<Rightarrow> (job_row \<Rightarrow> job_row) \<Rightarrow> (job_row \<Rightarrow> 'a) \<Rightarrow> 'a option stmt"
where
  "update_jobs_returning p f out d =
    (case filter p (jobs d) of [] \<Rightarrow> None | r # _ \<Rightarrow> Some (out r),
     d\<lparr>jobs := update_where p f (jobs d)\<rparr>)"

section \<open>Events\<close>

text \<open>
  \<^verbatim>\<open>addEvent\<close> drops every error. The foreign key on \<^verbatim>\<open>jobs(id)\<close> refuses an event of an
  unknown job.
\<close>

definition insert_event :: "string \<Rightarrow> string \<Rightarrow> detail option \<Rightarrow> unit stmt" where
  "insert_event i event detail d =
    ((), if job_at d i = None then d
         else d\<lparr>job_events := job_events d @
           [\<lparr>v_job_id = i, v_at = db_now d, v_event = event, v_detail = detail\<rparr>]\<rparr>)"

definition addEvent :: "go_error fault \<Rightarrow> string \<Rightarrow> string \<Rightarrow> detail option \<Rightarrow> db \<Rightarrow> db" where
  "addEvent ft i event detail d = snd (remote ft (insert_event i event detail) d)"

section \<open>Reads\<close>

definition scanJob :: "job_row \<Rightarrow> job" where
  "scanJob r =
    \<lparr> j_ID = r_id r, j_Type = r_type r, j_Queue = r_queue r, j_Status = r_status r,
      j_Priority = r_priority r,
      j_Payload = (if r_payload r \<noteq> ''null'' then r_payload r else []),
      j_Result = (case r_result r of
          None \<Rightarrow> [] | Some x \<Rightarrow> if length x > 0 \<and> x \<noteq> ''null'' then x else []),
      j_Error = (case r_error r of None \<Rightarrow> [] | Some x \<Rightarrow> x),
      j_IdempotencyKey = (case r_idempotency_key r of None \<Rightarrow> [] | Some x \<Rightarrow> x),
      j_AttemptCount = r_attempt_count r, j_MaxAttempts = r_max_attempts r,
      j_LeaseEpoch = r_lease_epoch r, j_LeaseExpiresAt = r_lease_expires_at r,
      j_WorkerID = (case r_worker_id r of None \<Rightarrow> [] | Some x \<Rightarrow> x),
      j_CreatedAt = r_created_at r, j_ScheduledAt = r_scheduled_at r,
      j_StartedAt = r_started_at r, j_CompletedAt = r_completed_at r \<rparr>"

definition ErrNotFound :: go_error where
  "ErrNotFound = Sentinel ''store.ErrNotFound'' ''store: job not found''"

text \<open>A read has no effect, so the fault only decides whether it answers.\<close>

definition getJobBy :: "go_error fault \<Rightarrow> (job_row \<Rightarrow> bool) \<Rightarrow> db \<Rightarrow> job res" where
  "getJobBy ft p d =
    (case fst (remote ft (\<lambda>d. (find p (jobs d), d)) d) of
       Inl e \<Rightarrow> Inl e
     | Inr None \<Rightarrow> Inl ErrNotFound
     | Inr (Some r) \<Rightarrow> Inr (scanJob r))"

definition GetJob :: "go_error fault \<Rightarrow> string \<Rightarrow> db \<Rightarrow> job res" where
  "GetJob ft i d = getJobBy ft (\<lambda>r. r_id r = i) d"

section \<open>Submission\<close>

datatype insert_result = Inserted | NoRows | SqlError go_error

text \<open>
  The \<^verbatim>\<open>INSERT ... ON CONFLICT (type, idempotency_key) DO NOTHING\<close>. \<open>jsonb\<close> is Postgres's
  input conversion of the type \<^verbatim>\<open>jsonb\<close>: the stored text, or \<open>None\<close> when it refuses it.
\<close>

definition new_row :: "job \<Rightarrow> string \<Rightarrow> time \<Rightarrow> job_row" where
  "new_row j payload now =
    \<lparr> r_id = j_ID j, r_type = j_Type j, r_queue = j_Queue j, r_status = j_Status j,
      r_priority = j_Priority j, r_payload = payload, r_result = None, r_error = None,
      r_idempotency_key = (if j_IdempotencyKey j = [] then None else Some (j_IdempotencyKey j)),
      r_attempt_count = 0, r_max_attempts = j_MaxAttempts j, r_lease_epoch = 0,
      r_lease_expires_at = None, r_worker_id = None, r_enqueued_stream_id = None,
      r_created_at = j_CreatedAt j, r_scheduled_at = j_ScheduledAt j,
      r_started_at = None, r_completed_at = None, r_updated_at = now \<rparr>"

definition key_conflict :: "job \<Rightarrow> job_row \<Rightarrow> bool" where
  "key_conflict j r =
    (j_IdempotencyKey j \<noteq> [] \<and> r_type r = j_Type j \<and> r_idempotency_key r = Some (j_IdempotencyKey j))"

definition insert_job :: "(string \<Rightarrow> string option) \<Rightarrow> job \<Rightarrow> string \<Rightarrow> insert_result stmt" where
  "insert_job jsonb j payload d =
    (case jsonb payload of
       None \<Rightarrow> (SqlError (Errorf ''invalid input syntax for type json''), d)
     | Some stored \<Rightarrow>
         if \<not> Priority_Valid (j_Priority j)
         then (SqlError (Errorf ''violates check constraint jobs_priority_check''), d)
         else if list_ex (key_conflict j) (jobs d) then (NoRows, d)
         else if job_at d (j_ID j) \<noteq> None
         then (SqlError (Errorf ''violates unique constraint jobs_pkey''), d)
         else (Inserted, d\<lparr>jobs := jobs d @ [new_row j stored (db_now d)]\<rparr>))"

text \<open>
  \<^verbatim>\<open>CreateJob\<close>: the result is the job and whether it was created. \<open>ft\<close> is the outcome of
  the insert, \<open>ft2\<close> that of the second statement, the event or the look-up.
\<close>

definition CreateJob ::
  "(string \<Rightarrow> string option) \<Rightarrow> go_error fault \<Rightarrow> go_error fault \<Rightarrow> job \<Rightarrow> db \<Rightarrow> (job \<times> bool) res \<times> db"
where
  "CreateJob jsonb ft ft2 j d =
    (let payload = (if length (j_Payload j) > 0 then j_Payload j else ''null'') in
     case remote ft (insert_job jsonb j payload) d of
       (Inr Inserted, d') \<Rightarrow>
         (Inr (j, True), addEvent ft2 (j_ID j) ''submitted''
            (Some (DObject [(''queue'', DText (j_Queue j)), (''priority'', DText (j_Priority j))])) d')
     | (Inr NoRows, d') \<Rightarrow>
         (if j_IdempotencyKey j \<noteq> []
          then (case getJobBy ft2 (\<lambda>r. r_type r = j_Type j
                  \<and> r_idempotency_key r = Some (j_IdempotencyKey j)) d' of
                  Inl e \<Rightarrow> (Inl (ErrorfW ''store: idempotent lookup after conflict: '' e), d')
                | Inr existing \<Rightarrow> (Inr (existing, False), d'))
          else (Inl (Errorf ''store: creating job: no rows in result set''), d'))
     | (Inr (SqlError e), d') \<Rightarrow> (Inl (ErrorfW ''store: creating job: '' e), d')
     | (Inl e, d') \<Rightarrow> (Inl (ErrorfW ''store: creating job: '' e), d'))"

definition SetEnqueued :: "go_error fault \<Rightarrow> string \<Rightarrow> string \<Rightarrow> db \<Rightarrow> unit res \<times> db" where
  "SetEnqueued ft i streamID d =
    exec_stmt ft ''store: marking enqueued: ''
      (\<lambda>d. ((), snd (update_jobs (\<lambda>r. r_id r = i \<and> r_enqueued_stream_id r = None)
         (\<lambda>r. r\<lparr>r_enqueued_stream_id := Some streamID, r_updated_at := db_now d\<rparr>) d))) d"

section \<open>Dispatch\<close>

record claim =
  c_Epoch :: int
  c_Attempt :: int
  c_MaxAttempts :: int
  c_StartedAt :: time

definition claim_where :: "string \<Rightarrow> job_row \<Rightarrow> bool" where
  [sql_defs]: "claim_where i r =
    (r_id r = i \<and> (r_status r = StatusPending \<or> r_status r = StatusRetrying))"

definition claim_set :: "string \<Rightarrow> duration \<Rightarrow> time \<Rightarrow> job_row \<Rightarrow> job_row" where
  [sql_defs]: "claim_set worker ttl now r =
    r\<lparr> r_status := StatusRunning, r_worker_id := Some worker,
       r_lease_epoch := r_lease_epoch r + 1, r_lease_expires_at := Some (now + ttl),
       r_started_at := (case r_started_at r of None \<Rightarrow> Some now | Some t \<Rightarrow> Some t),
       r_attempt_count := r_attempt_count r + 1, r_updated_at := now \<rparr>"

definition ClaimJob ::
  "go_error fault \<Rightarrow> string \<Rightarrow> string \<Rightarrow> duration \<Rightarrow> db \<Rightarrow> claim option res \<times> db"
where
  "ClaimJob ft i worker ttl d =
    exec_stmt ft ''store: claiming job: ''
      (\<lambda>d. update_jobs_returning (claim_where i) (claim_set worker ttl (db_now d))
        (\<lambda>r. let r' = claim_set worker ttl (db_now d) r in
          \<lparr> c_Epoch = r_lease_epoch r', c_Attempt = r_attempt_count r',
            c_MaxAttempts = r_max_attempts r', c_StartedAt = db_now d \<rparr>) d) d"

text \<open>The fence that every write of an owner carries.\<close>

definition fenced :: "string \<Rightarrow> int \<Rightarrow> job_row \<Rightarrow> bool" where
  "fenced i epoch r = (r_id r = i \<and> r_lease_epoch r = epoch \<and> r_status r = StatusRunning)"

definition exec_fenced ::
  "go_error fault \<Rightarrow> string \<Rightarrow> string \<Rightarrow> int \<Rightarrow> (time \<Rightarrow> job_row \<Rightarrow> job_row) \<Rightarrow> db \<Rightarrow> bool res \<times> db"
where
  "exec_fenced ft prefix i epoch f d =
    exec_stmt ft prefix
      (\<lambda>d. let (n, d') = update_jobs (fenced i epoch) (f (db_now d)) d in (n = 1, d')) d"

definition extend_set :: "duration \<Rightarrow> time \<Rightarrow> job_row \<Rightarrow> job_row" where
  [sql_defs]: "extend_set ttl now r = r\<lparr>r_lease_expires_at := Some (now + ttl), r_updated_at := now\<rparr>"

definition ExtendLease ::
  "go_error fault \<Rightarrow> string \<Rightarrow> int \<Rightarrow> duration \<Rightarrow> db \<Rightarrow> bool res \<times> db"
where
  "ExtendLease ft i epoch ttl d =
    exec_fenced ft ''store: extending lease: '' i epoch (extend_set ttl) d"

section \<open>Terminal writes\<close>

definition complete_set :: "string \<Rightarrow> time \<Rightarrow> job_row \<Rightarrow> job_row" where
  [sql_defs]: "complete_set res now r =
    r\<lparr> r_status := StatusCompleted, r_result := Some res, r_error := None,
       r_completed_at := Some now, r_lease_expires_at := None, r_updated_at := now \<rparr>"

definition fail_set :: "string \<Rightarrow> time \<Rightarrow> job_row \<Rightarrow> job_row" where
  [sql_defs]: "fail_set msg now r =
    r\<lparr> r_status := StatusFailed, r_error := Some msg,
       r_completed_at := Some now, r_lease_expires_at := None, r_updated_at := now \<rparr>"

definition dead_set :: "string \<Rightarrow> time \<Rightarrow> job_row \<Rightarrow> job_row" where
  [sql_defs]: "dead_set msg now r =
    r\<lparr> r_status := StatusDeadLetter, r_error := Some msg,
       r_completed_at := Some now, r_lease_expires_at := None, r_updated_at := now \<rparr>"

definition cancel_running_set :: "time \<Rightarrow> job_row \<Rightarrow> job_row" where
  [sql_defs]: "cancel_running_set now r =
    r\<lparr> r_status := StatusCancelled, r_completed_at := Some now,
       r_lease_expires_at := None, r_updated_at := now \<rparr>"

definition retry_set :: "string \<Rightarrow> time \<Rightarrow> time \<Rightarrow> job_row \<Rightarrow> job_row" where
  [sql_defs]: "retry_set msg nextAt now r =
    r\<lparr> r_status := StatusRetrying, r_error := Some msg, r_scheduled_at := nextAt,
       r_lease_expires_at := None, r_worker_id := None, r_updated_at := now \<rparr>"

definition result_text :: "string \<Rightarrow> string" where
  "result_text result = (if length result > 0 then result else ''null'')"

definition CompleteJob ::
  "(string \<Rightarrow> string option) \<Rightarrow> go_error fault \<Rightarrow> string \<Rightarrow> int \<Rightarrow> string \<Rightarrow> db \<Rightarrow> bool res \<times> db"
where
  "CompleteJob jsonb ft i epoch result d =
    (case jsonb (result_text result) of
       None \<Rightarrow> (Inl (ErrorfW ''store: completing job: '' (Errorf ''invalid input syntax for type json'')), d)
     | Some stored \<Rightarrow> exec_fenced ft ''store: completing job: '' i epoch (complete_set stored) d)"

definition FailJob ::
  "go_error fault \<Rightarrow> string \<Rightarrow> int \<Rightarrow> string \<Rightarrow> db \<Rightarrow> bool res \<times> db"
where
  "FailJob ft i epoch errMsg d = exec_fenced ft ''store: failing job: '' i epoch (fail_set errMsg) d"

text \<open>The writes that also leave an event; the event's own outcome is \<open>fe\<close>.\<close>

definition event_if_applied ::
  "go_error fault \<Rightarrow> string \<Rightarrow> string \<Rightarrow> detail option \<Rightarrow> bool res \<times> db \<Rightarrow> bool res \<times> db"
where
  "event_if_applied fe i event detail rd =
    (case rd of
       (Inr True, d) \<Rightarrow> (Inr True, addEvent fe i event detail d)
     | (x, d) \<Rightarrow> (x, d))"

definition DeadLetterJob ::
  "go_error fault \<Rightarrow> go_error fault \<Rightarrow> string \<Rightarrow> int \<Rightarrow> string \<Rightarrow> db \<Rightarrow> bool res \<times> db"
where
  "DeadLetterJob ft fe i epoch errMsg d =
    event_if_applied fe i ''dead_lettered'' (Some (DObject [(''error'', DText errMsg)]))
      (exec_fenced ft ''store: dead-lettering job: '' i epoch (dead_set errMsg) d)"

definition CancelRunning ::
  "go_error fault \<Rightarrow> go_error fault \<Rightarrow> string \<Rightarrow> int \<Rightarrow> db \<Rightarrow> bool res \<times> db"
where
  "CancelRunning ft fe i epoch d =
    event_if_applied fe i ''cancelled'' None
      (exec_fenced ft ''store: cancelling running job: '' i epoch cancel_running_set d)"

definition store_ScheduleRetry ::
  "go_error fault \<Rightarrow> go_error fault \<Rightarrow> string \<Rightarrow> int \<Rightarrow> string \<Rightarrow> time \<Rightarrow> db \<Rightarrow> bool res \<times> db"
where
  "store_ScheduleRetry ft fe i epoch errMsg nextAt d =
    event_if_applied fe i ''retry_scheduled'' (Some (DObject [(''nextAt'', DTime nextAt), (''error'', DText errMsg)]))
      (exec_fenced ft ''store: scheduling retry: '' i epoch (retry_set errMsg nextAt) d)"

section \<open>Attempt records\<close>

record attempt =
  a_JobID :: string
  a_Attempt :: int
  a_WorkerID :: string
  a_StartedAt :: time
  a_FinishedAt :: time
  a_Outcome :: outcome
  a_Error :: string

definition nullif_empty :: "string \<Rightarrow> string option" where
  "nullif_empty s = (if s = [] then None else Some s)"

definition attempt_key :: "attempt_row \<Rightarrow> string \<times> int" where
  "attempt_key t = (t_job_id t, t_attempt t)"

definition insert_attempt :: "attempt_row \<Rightarrow> attempt_row list \<Rightarrow> attempt_row list" where
  "insert_attempt t ts = (if attempt_key t \<in> attempt_key ` set ts then ts else ts @ [t])"

definition RecordAttempt :: "go_error fault \<Rightarrow> attempt \<Rightarrow> db \<Rightarrow> unit res \<times> db" where
  "RecordAttempt ft a d =
    (if job_at d (a_JobID a) = None
     then (Inl (ErrorfW ''store: recording attempt: '' (Errorf ''violates foreign key constraint'')), d)
     else exec_stmt ft ''store: recording attempt: ''
       (\<lambda>d. ((), d\<lparr>job_attempts := insert_attempt
          \<lparr> t_job_id = a_JobID a, t_attempt = a_Attempt a, t_worker_id = nullif_empty (a_WorkerID a),
            t_started_at = a_StartedAt a, t_finished_at = Some (a_FinishedAt a),
            t_outcome = a_Outcome a, t_error = nullif_empty (a_Error a) \<rparr> (job_attempts d)\<rparr>)) d)"

definition scan_attempt :: "attempt_row \<Rightarrow> attempt" where
  "scan_attempt t =
    \<lparr> a_JobID = t_job_id t, a_Attempt = t_attempt t,
      a_WorkerID = (case t_worker_id t of None \<Rightarrow> [] | Some x \<Rightarrow> x),
      a_StartedAt = t_started_at t,
      a_FinishedAt = (case t_finished_at t of None \<Rightarrow> t_started_at t | Some x \<Rightarrow> x),
      a_Outcome = t_outcome t, a_Error = (case t_error t of None \<Rightarrow> [] | Some x \<Rightarrow> x) \<rparr>"

definition ListAttempts :: "go_error fault \<Rightarrow> string \<Rightarrow> db \<Rightarrow> attempt list res" where
  "ListAttempts ft i d =
    fst (exec_stmt ft ''store: listing attempts: ''
      (\<lambda>d. (map scan_attempt (sort_key t_attempt (filter (\<lambda>t. t_job_id t = i) (job_attempts d))), d)) d)"

section \<open>Cancellation\<close>

definition cancel_set :: "time \<Rightarrow> job_row \<Rightarrow> job_row" where
  [sql_defs]: "cancel_set now r =
    r\<lparr> r_status := StatusCancelled, r_completed_at := Some now,
       r_lease_epoch := r_lease_epoch r + 1, r_updated_at := now \<rparr>"

definition CancelJob :: "go_error fault \<Rightarrow> go_error fault \<Rightarrow> string \<Rightarrow> db \<Rightarrow> bool res \<times> db" where
  "CancelJob ft fe i d =
    event_if_applied fe i ''cancelled'' None
      (exec_stmt ft ''store: cancelling job: ''
        (\<lambda>d. let (n, d') = update_jobs (claim_where i) (cancel_set (db_now d)) d in (n = 1, d')) d)"

section \<open>Recovery\<close>

record reap_result =
  rr_NewStatus :: status
  rr_Attempt :: int
  rr_MaxAttempts :: int
  rr_PrevWorker :: string

definition lease_expired_msg :: string where
  "lease_expired_msg = ''lease expired: worker presumed dead''"

definition expired_running :: "time \<Rightarrow> duration \<Rightarrow> job_row \<Rightarrow> bool" where
  "expired_running now grace r =
    (r_status r = StatusRunning \<and>
     (case r_lease_expires_at r of None \<Rightarrow> False | Some t \<Rightarrow> t < now - grace))"

definition reap_set :: "duration \<Rightarrow> time \<Rightarrow> job_row \<Rightarrow> job_row" where
  [sql_defs]: "reap_set retryDelay now r =
    (let exhausted = (r_attempt_count r \<ge> r_max_attempts r) in
     r\<lparr> r_lease_epoch := r_lease_epoch r + 1,
        r_status := (if exhausted then StatusDeadLetter else StatusRetrying),
        r_error := Some lease_expired_msg,
        r_scheduled_at := (if exhausted then r_scheduled_at r else now + retryDelay),
        r_completed_at := (if exhausted then Some now else r_completed_at r),
        r_lease_expires_at := None, r_worker_id := None, r_updated_at := now \<rparr>)"

text \<open>\<^verbatim>\<open>ReapJob\<close>: \<open>None\<close> is \<^verbatim>\<open>Reaped = false\<close>, no expired RUNNING row of that id.\<close>

definition ReapJob ::
  "go_error fault \<Rightarrow> go_error fault \<Rightarrow> string \<Rightarrow> duration \<Rightarrow> duration \<Rightarrow> db \<Rightarrow> reap_result option res \<times> db"
where
  "ReapJob ft fe i retryDelay grace d =
    (case exec_stmt ft ''store: reaping job: ''
       (\<lambda>d. update_jobs_returning (\<lambda>r. r_id r = i \<and> expired_running (db_now d) grace r)
         (reap_set retryDelay (db_now d))
         (\<lambda>r. let r' = reap_set retryDelay (db_now d) r in
           \<lparr> rr_NewStatus = r_status r', rr_Attempt = r_attempt_count r',
             rr_MaxAttempts = r_max_attempts r',
             rr_PrevWorker = (case r_worker_id r of None \<Rightarrow> [] | Some w \<Rightarrow> w) \<rparr>) d) d of
       (Inr (Some res), d') \<Rightarrow>
         (Inr (Some res), addEvent fe i ''lease_expired''
            (Some (DObject [(''prevWorker'', DText (rr_PrevWorker res)), (''newStatus'', DStatus (rr_NewStatus res))])) d')
     | (x, d') \<Rightarrow> (x, d'))"

record requeueable =
  q_ID :: string
  q_Type :: string
  q_Queue :: string
  q_Priority :: priority
  q_Payload :: string
  q_Attempt :: int

definition scanRequeueable :: "job_row \<Rightarrow> requeueable" where
  "scanRequeueable r =
    \<lparr> q_ID = r_id r, q_Type = r_type r, q_Queue = r_queue r, q_Priority = r_priority r,
      q_Payload = (if r_payload r \<noteq> ''null'' then r_payload r else []),
      q_Attempt = r_attempt_count r \<rparr>"

definition list_requeueables ::
  "go_error fault \<Rightarrow> string \<Rightarrow> (time \<Rightarrow> job_row \<Rightarrow> bool) \<Rightarrow> nat \<Rightarrow> db \<Rightarrow> requeueable list res"
where
  "list_requeueables ft prefix p limit d =
    fst (exec_stmt ft prefix (\<lambda>d. (map scanRequeueable (select_limit (p (db_now d)) limit (jobs d)), d)) d)"

definition ListExpiredRunning :: "go_error fault \<Rightarrow> duration \<Rightarrow> nat \<Rightarrow> db \<Rightarrow> requeueable list res" where
  "ListExpiredRunning ft grace limit d =
    list_requeueables ft ''store: listing expired running: ''
      (\<lambda>now r. expired_running now grace r) limit d"

definition unenqueued_due :: "duration \<Rightarrow> time \<Rightarrow> job_row \<Rightarrow> bool" where
  "unenqueued_due olderThan now r =
    (r_status r = StatusPending \<and> r_enqueued_stream_id r = None
     \<and> r_scheduled_at r \<le> now \<and> r_created_at r < now - olderThan)"

definition stuck_retrying :: "duration \<Rightarrow> time \<Rightarrow> job_row \<Rightarrow> bool" where
  "stuck_retrying olderThan now r = (r_status r = StatusRetrying \<and> r_scheduled_at r < now - olderThan)"

definition ListUnenqueued :: "go_error fault \<Rightarrow> duration \<Rightarrow> nat \<Rightarrow> db \<Rightarrow> requeueable list res" where
  "ListUnenqueued ft olderThan limit d =
    list_requeueables ft ''store: listing unenqueued: ''
      (unenqueued_due olderThan) limit d"

definition ListStuckRetrying :: "go_error fault \<Rightarrow> duration \<Rightarrow> nat \<Rightarrow> db \<Rightarrow> requeueable list res" where
  "ListStuckRetrying ft olderThan limit d =
    list_requeueables ft ''store: listing stuck retrying: ''
      (stuck_retrying olderThan) limit d"

definition promoted_set :: "time \<Rightarrow> job_row \<Rightarrow> job_row" where
  [sql_defs]: "promoted_set now r = r\<lparr>r_status := StatusPending, r_updated_at := now\<rparr>"

definition MarkPromoted :: "go_error fault \<Rightarrow> string list \<Rightarrow> db \<Rightarrow> nat res \<times> db" where
  "MarkPromoted ft ids d =
    (if ids = [] then (Inr 0, d)
     else exec_stmt ft ''store: marking promoted: ''
       (\<lambda>d. update_jobs (\<lambda>r. r_id r \<in> set ids \<and> r_status r = StatusRetrying)
          (promoted_set (db_now d)) d) d)"

section \<open>Dead letters\<close>

definition newest_first :: "job_row \<Rightarrow> job_row \<Rightarrow> bool" where
  "newest_first a b =
    (case (r_completed_at a, r_completed_at b) of
       (Some x, Some y) \<Rightarrow> x \<ge> y | (Some _, None) \<Rightarrow> True | (None, Some _) \<Rightarrow> False | (None, None) \<Rightarrow> True)"

fun insert_by :: "('a \<Rightarrow> 'a \<Rightarrow> bool) \<Rightarrow> 'a \<Rightarrow> 'a list \<Rightarrow> 'a list" where
  "insert_by le x [] = [x]"
| "insert_by le x (y # ys) = (if le x y then x # y # ys else y # insert_by le x ys)"

definition order_by :: "('a \<Rightarrow> 'a \<Rightarrow> bool) \<Rightarrow> 'a list \<Rightarrow> 'a list" where
  "order_by le xs = foldr (insert_by le) xs []"

definition ListDeadLetters :: "go_error fault \<Rightarrow> nat \<Rightarrow> nat \<Rightarrow> db \<Rightarrow> job list res" where
  "ListDeadLetters ft limit offset d =
    fst (exec_stmt ft ''store: listing dead letters: ''
      (\<lambda>d. (map scanJob (take limit (drop offset
         (order_by newest_first (filter (\<lambda>r. r_status r = StatusDeadLetter) (jobs d))))), d)) d)"

definition requeue_set :: "time \<Rightarrow> job_row \<Rightarrow> job_row" where
  [sql_defs]: "requeue_set now r =
    r\<lparr> r_status := StatusPending, r_error := None, r_result := None, r_attempt_count := 0,
       r_lease_epoch := r_lease_epoch r + 1, r_scheduled_at := now, r_completed_at := None,
       r_started_at := None, r_enqueued_stream_id := None, r_updated_at := now \<rparr>"

definition RequeueDeadLetter ::
  "go_error fault \<Rightarrow> go_error fault \<Rightarrow> string \<Rightarrow> db \<Rightarrow> requeueable option res \<times> db"
where
  "RequeueDeadLetter ft fe i d =
    (case exec_stmt ft ''store: requeueing dead letter: ''
       (\<lambda>d. update_jobs_returning (\<lambda>r. r_id r = i \<and> r_status r = StatusDeadLetter)
         (requeue_set (db_now d)) (\<lambda>r. scanRequeueable (requeue_set (db_now d) r)) d) d of
       (Inr (Some q), d') \<Rightarrow> (Inr (Some q), addEvent fe i ''requeued'' None d')
     | (x, d') \<Rightarrow> (x, d'))"

section \<open>Workers\<close>

record worker_info =
  i_ID :: string
  i_Hostname :: string
  i_PID :: int
  i_Concurrency :: int
  i_TargetConcurrency :: int
  i_ActiveJobs :: int
  i_Processed :: int
  i_State :: string

definition upsert_worker :: "worker_info \<Rightarrow> unit stmt" where
  "upsert_worker w d =
    ((), if find_row w_id (i_ID w) (workers d) = None
         then d\<lparr>workers := workers d @
           [\<lparr> w_id = i_ID w, w_hostname = Some (i_Hostname w), w_pid = Some (i_PID w),
              w_concurrency = i_Concurrency w, w_target_concurrency = i_TargetConcurrency w,
              w_active_jobs = i_ActiveJobs w, w_processed = i_Processed w, w_state = i_State w,
              w_started_at = db_now d, w_last_heartbeat_at = db_now d \<rparr>]\<rparr>
         else d\<lparr>workers := update_where (\<lambda>x. w_id x = i_ID w)
           (\<lambda>x. x\<lparr> w_concurrency := i_Concurrency w, w_target_concurrency := i_TargetConcurrency w,
              w_active_jobs := i_ActiveJobs w, w_processed := i_Processed w, w_state := i_State w,
              w_last_heartbeat_at := db_now d \<rparr>) (workers d)\<rparr>)"

definition UpsertWorker :: "go_error fault \<Rightarrow> worker_info \<Rightarrow> db \<Rightarrow> unit res \<times> db" where
  "UpsertWorker ft w d =
    (if i_State w \<notin> {''active'', ''draining'', ''gone''}
     then (Inl (ErrorfW ''store: upserting worker: '' (Errorf ''violates check constraint workers_state_check'')), d)
     else exec_stmt ft ''store: upserting worker: '' (upsert_worker w) d)"

definition ListWorkers :: "go_error fault \<Rightarrow> db \<Rightarrow> worker_row list res" where
  "ListWorkers ft d =
    fst (exec_stmt ft ''store: listing workers: '' (\<lambda>d. (sort_key w_started_at (workers d), d)) d)"

definition MarkDeadWorkers :: "go_error fault \<Rightarrow> duration \<Rightarrow> db \<Rightarrow> nat res \<times> db" where
  "MarkDeadWorkers ft cutoff d =
    exec_stmt ft ''store: marking dead workers: ''
      (\<lambda>d. let p = (\<lambda>x. w_last_heartbeat_at x < db_now d - cutoff \<and> w_state x \<noteq> ''gone'') in
        (rows_affected p (workers d),
         d\<lparr>workers := update_where p (\<lambda>x. x\<lparr>w_state := ''gone''\<rparr>) (workers d)\<rparr>)) d"

end
