(* ===== verification/Batch.thy ===== *)
theory Batch
  imports Store
begin

text \<open>
  Recording finished attempts, \<^verbatim>\<open>internal/store/batch.go\<close>: the immediate recorder
  (\<open>SyncRecorder\<close>) and the batcher that coalesces records into one transaction.
\<close>

section \<open>Operations\<close>

datatype opKind = opComplete | opFail | opRetry | opDead | opCancel

primrec opKind_index :: "opKind \<Rightarrow> nat" where
  "opKind_index opComplete = 0"
| "opKind_index opFail = 1"
| "opKind_index opRetry = 2"
| "opKind_index opDead = 3"
| "opKind_index opCancel = 4"

record op =
  b_kind :: opKind
  b_id :: string
  b_epoch :: int
  b_result :: string
  b_errMsg :: string
  b_nextAt :: time
  b_att :: attempt

text \<open>
  The calls of the interface \<^verbatim>\<open>Recorder\<close> as the operations the batcher builds of them; a
  field a call does not set has its zero value.
\<close>

definition op_Complete :: "string \<Rightarrow> int \<Rightarrow> string \<Rightarrow> attempt \<Rightarrow> op" where
  "op_Complete i epoch result att =
    \<lparr> b_kind = opComplete, b_id = i, b_epoch = epoch, b_result = result_text result, b_errMsg = [],
      b_nextAt = zero_time, b_att = att \<rparr>"

definition op_Fail :: "string \<Rightarrow> int \<Rightarrow> string \<Rightarrow> attempt \<Rightarrow> op" where
  "op_Fail i epoch errMsg att =
    \<lparr> b_kind = opFail, b_id = i, b_epoch = epoch, b_result = [], b_errMsg = errMsg,
      b_nextAt = zero_time, b_att = att \<rparr>"

definition op_Retry :: "string \<Rightarrow> int \<Rightarrow> string \<Rightarrow> time \<Rightarrow> attempt \<Rightarrow> op" where
  "op_Retry i epoch errMsg nextAt att =
    \<lparr> b_kind = opRetry, b_id = i, b_epoch = epoch, b_result = [], b_errMsg = errMsg,
      b_nextAt = nextAt, b_att = att \<rparr>"

definition op_DeadLetter :: "string \<Rightarrow> int \<Rightarrow> string \<Rightarrow> attempt \<Rightarrow> op" where
  "op_DeadLetter i epoch errMsg att =
    \<lparr> b_kind = opDead, b_id = i, b_epoch = epoch, b_result = [], b_errMsg = errMsg,
      b_nextAt = zero_time, b_att = att \<rparr>"

definition op_Cancelled :: "string \<Rightarrow> int \<Rightarrow> attempt \<Rightarrow> op" where
  "op_Cancelled i epoch att =
    \<lparr> b_kind = opCancel, b_id = i, b_epoch = epoch, b_result = [], b_errMsg = [],
      b_nextAt = zero_time, b_att = att \<rparr>"

section \<open>The immediate recorder\<close>

text \<open>The outcomes of the statements of one call: the update, its event, the attempt row.\<close>

record sync_faults =
  f_write :: "go_error fault"
  f_event :: "go_error fault"
  f_attempt :: "go_error fault"

text \<open>
  The five methods differ in the store call only. An error of \<^verbatim>\<open>RecordAttempt\<close> is logged
  and dropped; an error of the write returns before it.
\<close>

definition sync_write ::
  "(string \<Rightarrow> string option) \<Rightarrow> sync_faults \<Rightarrow> op \<Rightarrow> db \<Rightarrow> bool res \<times> db"
where
  "sync_write jsonb F p d =
    (case b_kind p of
       opComplete \<Rightarrow> CompleteJob jsonb (f_write F) (b_id p) (b_epoch p) (b_result p) d
     | opFail \<Rightarrow> FailJob (f_write F) (b_id p) (b_epoch p) (b_errMsg p) d
     | opRetry \<Rightarrow> store_ScheduleRetry (f_write F) (f_event F) (b_id p) (b_epoch p) (b_errMsg p) (b_nextAt p) d
     | opDead \<Rightarrow> DeadLetterJob (f_write F) (f_event F) (b_id p) (b_epoch p) (b_errMsg p) d
     | opCancel \<Rightarrow> CancelRunning (f_write F) (f_event F) (b_id p) (b_epoch p) d)"

definition SyncRecorder ::
  "(string \<Rightarrow> string option) \<Rightarrow> sync_faults \<Rightarrow> op \<Rightarrow> db \<Rightarrow> bool res \<times> db"
where
  "SyncRecorder jsonb F p d =
    (case sync_write jsonb F p d of
       (Inl e, d') \<Rightarrow> (Inl e, d')
     | (Inr ok, d') \<Rightarrow> (Inr ok, snd (RecordAttempt (f_attempt F) (b_att p) d')))"

section \<open>One transaction\<close>

text \<open>
  \<open>flushOnce\<close> runs its statements in one transaction, so an error of any statement before the
  commit leaves the database as it was. The outcomes: the error of \<^verbatim>\<open>Begin\<close>, of the
  multi-row completion, of the statement of operation \<open>n\<close>, of the attempt and event inserts,
  and what became of the commit.
\<close>

record tx_faults =
  x_begin :: error
  x_complete :: error
  x_op :: "nat \<Rightarrow> error"
  x_attempts :: error
  x_events :: error
  x_commit :: "go_error fault"

definition complete_of :: "op list \<Rightarrow> job_row \<Rightarrow> op option" where
  "complete_of ops r = find (\<lambda>p. b_kind p = opComplete \<and> fenced (b_id p) (b_epoch p) r) ops"

text \<open>
  The multi-row \<^verbatim>\<open>UPDATE ... FROM unnest(...)\<close>: a row joined by several operations takes one of
  them (here the first; the SQL leaves the choice open), and the cast to \<^verbatim>\<open>jsonb\<close> is made for
  joined rows only. It returns the identifiers of the updated rows.
\<close>

definition batch_complete_set :: "(string \<Rightarrow> string option) \<Rightarrow> op list \<Rightarrow> time \<Rightarrow> job_row \<Rightarrow> job_row" where
  "batch_complete_set jsonb ops now r =
    (case complete_of ops r of
       None \<Rightarrow> r
     | Some p \<Rightarrow> (case jsonb (b_result p) of None \<Rightarrow> r | Some stored \<Rightarrow> complete_set stored now r))"

definition batch_complete ::
  "(string \<Rightarrow> string option) \<Rightarrow> error \<Rightarrow> op list \<Rightarrow> db \<Rightarrow> string list res \<times> db"
where
  "batch_complete jsonb err ops d =
    (if \<not> list_ex (\<lambda>p. b_kind p = opComplete) ops then (Inr [], d)
     else case err of
       Some e \<Rightarrow> (Inl (ErrorfW ''batch complete: '' e), d)
     | None \<Rightarrow>
         if list_ex (\<lambda>r. case complete_of ops r of None \<Rightarrow> False | Some p \<Rightarrow> jsonb (b_result p) = None) (jobs d)
         then (Inl (ErrorfW ''batch complete: '' (Errorf ''invalid input syntax for type json'')), d)
         else (Inr (map r_id (filter (\<lambda>r. complete_of ops r \<noteq> None) (jobs d))),
               d\<lparr>jobs := update_where (\<lambda>r. complete_of ops r \<noteq> None)
                  (batch_complete_set jsonb ops (db_now d)) (jobs d)\<rparr>))"

definition op_set :: "op \<Rightarrow> time \<Rightarrow> job_row \<Rightarrow> job_row" where
  "op_set p =
    (case b_kind p of
       opComplete \<Rightarrow> (\<lambda>_ r. r)
     | opFail \<Rightarrow> fail_set (b_errMsg p)
     | opRetry \<Rightarrow> retry_set (b_errMsg p) (b_nextAt p)
     | opDead \<Rightarrow> dead_set (b_errMsg p)
     | opCancel \<Rightarrow> cancel_running_set)"

text \<open>The loop over the other kinds; \<open>n\<close> is the index of the operation.\<close>

fun batch_ops ::
  "(nat \<Rightarrow> error) \<Rightarrow> string list \<Rightarrow> nat \<Rightarrow> op list \<Rightarrow> db \<Rightarrow> bool list res \<times> db"
where
  "batch_ops errs okIDs n [] d = (Inr [], d)"
| "batch_ops errs okIDs n (p # ps) d =
    (if b_kind p = opComplete
     then (case batch_ops errs okIDs (Suc n) ps d of
             (Inl e, d') \<Rightarrow> (Inl e, d')
           | (Inr bs, d') \<Rightarrow> (Inr ((b_id p \<in> set okIDs) # bs), d'))
     else (case errs n of
             Some e \<Rightarrow> (Inl (ErrorfW (''batch op '' @ dec_of_nat (opKind_index (b_kind p)) @ '': '') e), d)
           | None \<Rightarrow>
               (let (k, d1) = update_jobs (fenced (b_id p) (b_epoch p)) (op_set p (db_now d)) d in
                case batch_ops errs okIDs (Suc n) ps d1 of
                  (Inl e, d') \<Rightarrow> (Inl e, d')
                | (Inr bs, d') \<Rightarrow> (Inr ((k = 1) # bs), d'))))"

definition to_int32 :: "int \<Rightarrow> int" where
  "to_int32 x = (x + 2 ^ 31) mod 2 ^ 32 - 2 ^ 31"

definition batch_attempt_row :: "op \<Rightarrow> attempt_row" where
  "batch_attempt_row p =
    \<lparr> t_job_id = a_JobID (b_att p), t_attempt = to_int32 (a_Attempt (b_att p)),
      t_worker_id = Some (a_WorkerID (b_att p)), t_started_at = a_StartedAt (b_att p),
      t_finished_at = Some (a_FinishedAt (b_att p)), t_outcome = a_Outcome (b_att p),
      t_error = Some (a_Error (b_att p)) \<rparr>"

definition batch_attempts :: "error \<Rightarrow> op list \<Rightarrow> db \<Rightarrow> unit res \<times> db" where
  "batch_attempts err ops d =
    (case err of
       Some e \<Rightarrow> (Inl (ErrorfW ''batch attempts: '' e), d)
     | None \<Rightarrow>
         if list_ex (\<lambda>p. job_at d (a_JobID (b_att p)) = None) ops
         then (Inl (ErrorfW ''batch attempts: '' (Errorf ''violates foreign key constraint'')), d)
         else (Inr (), d\<lparr>job_attempts := fold (\<lambda>p. insert_attempt (batch_attempt_row p)) ops (job_attempts d)\<rparr>))"

definition op_event :: "op \<Rightarrow> (string \<times> detail) option" where
  "op_event p =
    (case b_kind p of
       opRetry \<Rightarrow> Some (''retry_scheduled'',
         DObject [(''nextAt'', DTime (b_nextAt p)), (''error'', DText (b_errMsg p))])
     | opDead \<Rightarrow> Some (''dead_lettered'', DObject [(''error'', DText (b_errMsg p))])
     | opCancel \<Rightarrow> Some (''cancelled'', DNull)
     | opComplete \<Rightarrow> None
     | opFail \<Rightarrow> None)"

definition batch_event_rows :: "time \<Rightarrow> (op \<times> bool) list \<Rightarrow> event_row list" where
  "batch_event_rows now xs =
    List.map_filter (\<lambda>(p, applied).
      if \<not> applied then None
      else map_option (\<lambda>(ev, dt). \<lparr> v_job_id = b_id p, v_at = now, v_event = ev, v_detail = Some dt \<rparr>)
             (op_event p)) xs"

definition batch_events :: "error \<Rightarrow> (op \<times> bool) list \<Rightarrow> db \<Rightarrow> unit res \<times> db" where
  "batch_events err xs d =
    (let rows = batch_event_rows (db_now d) xs in
     if rows = [] then (Inr (), d)
     else case err of
       Some e \<Rightarrow> (Inl (ErrorfW ''batch events: '' e), d)
     | None \<Rightarrow> (Inr (), d\<lparr>job_events := job_events d @ rows\<rparr>))"

text \<open>The result lists \<^verbatim>\<open>applied\<close> for each operation, in their order.\<close>

definition flushOnce ::
  "(string \<Rightarrow> string option) \<Rightarrow> tx_faults \<Rightarrow> op list \<Rightarrow> db \<Rightarrow> bool list res \<times> db"
where
  "flushOnce jsonb F ops d =
    (case x_begin F of
       Some e \<Rightarrow> (Inl (ErrorfW ''begin: '' e), d)
     | None \<Rightarrow>
    (case batch_complete jsonb (x_complete F) ops d of
       (Inl e, _) \<Rightarrow> (Inl e, d)
     | (Inr okIDs, d1) \<Rightarrow>
    (case batch_ops (x_op F) okIDs 0 ops d1 of
       (Inl e, _) \<Rightarrow> (Inl e, d)
     | (Inr applied, d2) \<Rightarrow>
    (case batch_attempts (x_attempts F) ops d2 of
       (Inl e, _) \<Rightarrow> (Inl e, d)
     | (Inr _, d3) \<Rightarrow>
    (case batch_events (x_events F) (zip ops applied) d3 of
       (Inl e, _) \<Rightarrow> (Inl e, d)
     | (Inr _, d4) \<Rightarrow>
    (case x_commit F of
       Good \<Rightarrow> (Inr applied, d4)
     | Drop e \<Rightarrow> (Inl (ErrorfW ''commit: '' e), d)
     | Late e \<Rightarrow> (Inl (ErrorfW ''commit: '' e), d4)))))))"

text \<open>\<open>flush\<close> retries once; \<open>between\<close> is what others did to the database during its pause.\<close>

definition flush ::
  "(string \<Rightarrow> string option) \<Rightarrow> tx_faults \<Rightarrow> tx_faults \<Rightarrow> (db \<Rightarrow> db) \<Rightarrow> op list \<Rightarrow> db \<Rightarrow> bool res list \<times> db"
where
  "flush jsonb F F' between ops d =
    (case flushOnce jsonb F ops d of
       (Inr applied, d') \<Rightarrow> (map Inr applied, d')
     | (Inl _, d') \<Rightarrow>
         (case flushOnce jsonb F' ops (between d') of
            (Inr applied, d'') \<Rightarrow> (map Inr applied, d'')
          | (Inl e, d'') \<Rightarrow> (map (\<lambda>_. Inl e) ops, d'')))"

section \<open>The loop\<close>

text \<open>
  The goroutine of \<^verbatim>\<open>loop\<close> with its channels. \<open>l_cap\<close> is the capacity of the channel \<open>l_in\<close>, \<open>l_pending\<close> the
  slice being filled, \<open>l_flushed\<close> the batches handed to \<open>flush\<close> so far (each resolves all of its
  operations), \<open>l_stopped\<close> whether \<^verbatim>\<open>stop\<close> is closed, \<open>l_draining\<close> whether the loop is in its last part, and
  \<open>l_exited\<close> whether it returned.
\<close>

record batcher =
  l_maxSize :: int
  l_interval :: duration
  l_cap :: nat
  l_in :: "op list"
  l_pending :: "op list"
  l_flushed :: "op list list"
  l_stopped :: bool
  l_draining :: bool
  l_exited :: bool

text \<open>
  \<^verbatim>\<open>make(chan op, n)\<close>: \<open>None\<close> is its panic, for a negative size and for one beyond what the runtime can
  address, \<open>chan_max\<close>. The product wraps.
\<close>

definition make_chan :: "int \<Rightarrow> int \<Rightarrow> nat option" where
  "make_chan chan_max n = (if n < 0 \<or> n > chan_max then None else Some (nat n))"

definition NewBatcher :: "int \<Rightarrow> int \<Rightarrow> duration \<Rightarrow> batcher option" where
  "NewBatcher chan_max maxSize interval =
    map_option (\<lambda>c. \<lparr> l_maxSize = maxSize, l_interval = interval, l_cap = c, l_in = [], l_pending = [], l_flushed = [],
        l_stopped = False, l_draining = False, l_exited = False \<rparr>)
      (make_chan chan_max (wrap64 (maxSize * 2)))"

text \<open>The first lines of \<^verbatim>\<open>loop\<close>: a ticker needs a positive interval and a slice a capacity that is not negative.\<close>

definition loop_starts :: "batcher \<Rightarrow> bool" where
  "loop_starts b = (0 < l_interval b \<and> 0 \<le> l_maxSize b)"

definition loop_flush :: "batcher \<Rightarrow> batcher" where
  "loop_flush b =
    (if l_pending b = [] then b
     else b\<lparr>l_flushed := l_flushed b @ [l_pending b], l_pending := []\<rparr>)"

text \<open>An operation taken from the channel: in the main \<^verbatim>\<open>select\<close> a full slice is flushed, in the last part it is not.\<close>

definition loop_receive :: "op \<Rightarrow> batcher \<Rightarrow> batcher" where
  "loop_receive p b =
    (let b' = b\<lparr>l_pending := l_pending b @ [p]\<rparr> in
     if \<not> l_draining b \<and> int (length (l_pending b')) \<ge> l_maxSize b then loop_flush b' else b')"

definition loop_exit :: "batcher \<Rightarrow> batcher" where
  "loop_exit b = (loop_flush b)\<lparr>l_exited := True\<rparr>"

text \<open>
  One step of the batcher and its callers: a send of \<open>submit\<close> into a free place of the buffer (chosen freely
  against \<^verbatim>\<open>stop\<close> when both are ready, and possible when nobody receives any more), a send that meets the
  receiver of a channel without buffer, a receive, a tick, the closing of \<^verbatim>\<open>stop\<close>, the turn to the last
  part, and the return from it, which is only taken when the channel is empty.
\<close>

inductive bstep :: "batcher \<Rightarrow> op list \<Rightarrow> batcher \<Rightarrow> bool" where
  b_send: "length (l_in b) < l_cap b \<Longrightarrow> bstep b [p] (b\<lparr>l_in := l_in b @ [p]\<rparr>)"
| b_meet: "l_cap b = 0 \<Longrightarrow> l_in b = [] \<Longrightarrow> \<not> l_exited b \<Longrightarrow> bstep b [p] (loop_receive p b)"
| b_receive: "\<not> l_exited b \<Longrightarrow> l_in b = p # ps \<Longrightarrow> bstep b [] (loop_receive p (b\<lparr>l_in := ps\<rparr>))"
| b_tick: "\<not> l_exited b \<Longrightarrow> \<not> l_draining b \<Longrightarrow> bstep b [] (loop_flush b)"
| b_stop: "bstep b [] (b\<lparr>l_stopped := True\<rparr>)"
| b_drain: "\<not> l_exited b \<Longrightarrow> l_stopped b \<Longrightarrow> bstep b [] (b\<lparr>l_draining := True\<rparr>)"
| b_exit: "\<not> l_exited b \<Longrightarrow> l_draining b \<Longrightarrow> l_in b = [] \<Longrightarrow> bstep b [] (loop_exit b)"

text \<open>A run of steps with the operations that were sent, in order.\<close>

inductive bruns :: "batcher \<Rightarrow> op list \<Rightarrow> batcher \<Rightarrow> bool" where
  bruns_refl: "bruns b [] b"
| bruns_step: "bruns b sent b' \<Longrightarrow> bstep b' new b'' \<Longrightarrow> bruns b (sent @ new) b''"

end
