(* ===== verification/Store_Props.thy ===== *)
theory Store_Props
  imports Batch
begin

text \<open>
  What the Postgres layer guarantees. \<open>row_step\<close> lists the changes the SQL of the source
  can make to one row; \<open>store_step\<close> has one rule per Go method that writes, with every
  argument and every fault open, so \<open>store_run\<close> is any interleaving of any number of
  workers, API servers and reapers at the granularity of method calls. The lemmas show that a
  method changes rows only by row steps, and the theorems read the guarantees off the row
  steps: legal transitions, fencing, finality, idempotent submission.
\<close>

section \<open>Single row changes\<close>

inductive row_step :: "job_row \<Rightarrow> job_row \<Rightarrow> bool" where
  row_claim: "r_status r = StatusPending \<or> r_status r = StatusRetrying \<Longrightarrow> row_step r (claim_set w ttl now r)"
| row_extend: "r_status r = StatusRunning \<Longrightarrow> row_step r (extend_set ttl now r)"
| row_complete: "r_status r = StatusRunning \<Longrightarrow> row_step r (complete_set res now r)"
| row_fail: "r_status r = StatusRunning \<Longrightarrow> row_step r (fail_set msg now r)"
| row_dead: "r_status r = StatusRunning \<Longrightarrow> row_step r (dead_set msg now r)"
| row_cancel_running: "r_status r = StatusRunning \<Longrightarrow> row_step r (cancel_running_set now r)"
| row_retry: "r_status r = StatusRunning \<Longrightarrow> row_step r (retry_set msg nextAt now r)"
| row_cancel: "r_status r = StatusPending \<or> r_status r = StatusRetrying \<Longrightarrow> row_step r (cancel_set now r)"
| row_reap: "r_status r = StatusRunning \<Longrightarrow> row_step r (reap_set delay now r)"
| row_promote: "r_status r = StatusRetrying \<Longrightarrow> row_step r (promoted_set now r)"
| row_requeue: "r_status r = StatusDeadLetter \<Longrightarrow> row_step r (requeue_set now r)"
| row_enqueued: "r_enqueued_stream_id r = None \<Longrightarrow>
    row_step r (r\<lparr>r_enqueued_stream_id := Some sid, r_updated_at := now\<rparr>)"

lemmas row_sets = claim_set_def extend_set_def complete_set_def fail_set_def dead_set_def
  cancel_running_set_def retry_set_def cancel_set_def reap_set_def promoted_set_def requeue_set_def

text \<open>The columns no statement ever changes.\<close>

lemma row_step_frame:
  "row_step r r' \<Longrightarrow> r_id r' = r_id r \<and> r_type r' = r_type r \<and> r_queue r' = r_queue r
    \<and> r_priority r' = r_priority r \<and> r_payload r' = r_payload r
    \<and> r_idempotency_key r' = r_idempotency_key r \<and> r_max_attempts r' = r_max_attempts r
    \<and> r_created_at r' = r_created_at r"
  by (induction rule: row_step.induct) (simp_all add: row_sets Let_def)

lemma row_step_status:
  "row_step r r' \<Longrightarrow> r_status r' = r_status r \<or> CanTransition (r_status r) (r_status r')"
  by (induction rule: row_step.induct) (auto simp: row_sets Let_def CanTransition_def)

lemma row_step_epoch: "row_step r r' \<Longrightarrow> r_lease_epoch r \<le> r_lease_epoch r'"
  by (induction rule: row_step.induct) (simp_all add: row_sets Let_def)

text \<open>Ownership changes always raise the epoch.\<close>

lemma row_step_enter_running:
  "row_step r r' \<Longrightarrow> r_status r' = StatusRunning \<Longrightarrow> r_status r \<noteq> StatusRunning \<Longrightarrow>
    r_lease_epoch r' = r_lease_epoch r + 1 \<and> r_attempt_count r' = r_attempt_count r + 1"
  by (induction rule: row_step.induct) (auto simp: row_sets Let_def split: if_splits)

lemma row_step_same_owner:
  "row_step r r' \<Longrightarrow> r_status r' = StatusRunning \<Longrightarrow> r_status r = StatusRunning \<Longrightarrow>
    r_lease_epoch r' = r_lease_epoch r \<and> r_attempt_count r' = r_attempt_count r"
  by (induction rule: row_step.induct) (auto simp: row_sets Let_def split: if_splits)

definition final_row :: "job_row \<Rightarrow> bool" where
  "final_row r = (Terminal (r_status r) \<and> r_status r \<noteq> StatusDeadLetter)"

lemma row_step_final:
  "row_step r r' \<Longrightarrow> final_row r \<Longrightarrow>
    r_status r' = r_status r \<and> r_result r' = r_result r \<and> r_error r' = r_error r
    \<and> r_attempt_count r' = r_attempt_count r \<and> r_completed_at r' = r_completed_at r"
  by (induction rule: row_step.induct) (auto simp: final_row_def Terminal_def)

section \<open>The row invariant\<close>

definition row_wf :: "job_row \<Rightarrow> bool" where
  "row_wf r =
    (r_id r \<noteq> [] \<and> r_type r \<noteq> [] \<and> Priority_Valid (r_priority r)
     \<and> 0 \<le> r_attempt_count r \<and> 1 \<le> r_max_attempts r \<and> 0 \<le> r_lease_epoch r
     \<and> (r_status r = StatusRunning \<longleftrightarrow> r_lease_expires_at r \<noteq> None)
     \<and> (r_status r = StatusRunning \<longrightarrow>
          r_worker_id r \<noteq> None \<and> r_started_at r \<noteq> None \<and> 1 \<le> r_attempt_count r)
     \<and> (Terminal (r_status r) \<longleftrightarrow> r_completed_at r \<noteq> None)
     \<and> (r_status r = StatusCompleted \<longleftrightarrow> r_result r \<noteq> None)
     \<and> (r_status r = StatusCompleted \<longrightarrow> r_error r = None)
     \<and> (r_status r \<in> {StatusFailed, StatusRetrying, StatusDeadLetter} \<longrightarrow> r_error r \<noteq> None))"

lemma row_wf_reap: "row_wf r \<Longrightarrow> r_status r = StatusRunning \<Longrightarrow> row_wf (reap_set delay now r)"
  by (cases "r_attempt_count r \<ge> r_max_attempts r") (simp_all add: row_wf_def row_sets Terminal_def)

lemma row_wf_claim:
  "row_wf r \<Longrightarrow> r_status r = StatusPending \<or> r_status r = StatusRetrying \<Longrightarrow> row_wf (claim_set w ttl now r)"
  by (elim disjE; cases "r_started_at r") (simp_all add: row_wf_def row_sets Terminal_def)

lemma row_wf_enqueued [simp]: "row_wf (r\<lparr>r_enqueued_stream_id := s, r_updated_at := now\<rparr>) = row_wf r"
  unfolding row_wf_def by simp

lemma row_step_wf:
  assumes "row_step r r'" and "row_wf r"
  shows "row_wf r'"
  using assms
proof (cases rule: row_step.cases)
  case (row_cancel now)
  then show ?thesis using assms(2) by (elim disjE) (simp_all add: row_wf_def row_sets Terminal_def)
qed (simp_all add: row_wf_claim row_wf_reap, simp_all add: row_wf_def row_sets Terminal_def)

section \<open>Database changes\<close>

definition same_key :: "job_row \<Rightarrow> job_row \<Rightarrow> bool" where
  "same_key r r' = (r_type r = r_type r' \<and> r_idempotency_key r = r_idempotency_key r'
     \<and> r_idempotency_key r \<noteq> None)"

definition db_wf :: "db \<Rightarrow> bool" where
  "db_wf d =
    (distinct (map r_id (jobs d)) \<and> list_all row_wf (jobs d)
     \<and> distinct (map attempt_key (job_attempts d))
     \<and> (\<forall>r \<in> set (jobs d). \<forall>r' \<in> set (jobs d). same_key r r' \<longrightarrow> r = r'))"

text \<open>
  A database evolves when every row stays or makes one row step, or when one fresh row that
  conflicts with no other is added.
\<close>

definition fresh_row :: "job_row \<Rightarrow> bool" where
  "fresh_row r =
    (r_status r = StatusPending \<and> r_lease_epoch r = 0 \<and> r_attempt_count r = 0 \<and>
     r_result r = None \<and> r_lease_expires_at r = None \<and> r_completed_at r = None \<and>
     r_enqueued_stream_id r = None \<and> 1 \<le> r_max_attempts r \<and>
     r_id r \<noteq> [] \<and> r_type r \<noteq> [] \<and> Priority_Valid (r_priority r))"

definition evolves :: "db \<Rightarrow> db \<Rightarrow> bool" where
  "evolves d d' =
    ((\<exists>g. (\<forall>r. g r = r \<or> row_step r (g r)) \<and> jobs d' = map g (jobs d))
     \<or> (\<exists>r. job_at d (r_id r) = None \<and> fresh_row r \<and> (\<forall>x \<in> set (jobs d). \<not> same_key x r)
          \<and> jobs d' = jobs d @ [r]))"

lemma evolves_same_jobs: "jobs d' = jobs d \<Longrightarrow> evolves d d'"
  unfolding evolves_def by (rule disjI1, rule exI [where x = id]) simp

lemma evolves_refl [simp]: "evolves d d"
  by (simp add: evolves_same_jobs)

lemma evolves_cong: "evolves d d' \<Longrightarrow> jobs d'' = jobs d' \<Longrightarrow> evolves d d''"
  by (simp add: evolves_def)

text \<open>Every conditional \<^verbatim>\<open>UPDATE\<close> whose row function is a row step evolves the database.\<close>

lemma evolves_update_jobs:
  assumes "\<And>r. p r \<Longrightarrow> row_step r (f r)" and "jobs d' = update_where p f (jobs d)"
  shows "evolves d d'"
  unfolding evolves_def
  by (rule disjI1, rule exI [where x = "\<lambda>r. if p r then f r else r"])
    (use assms in \<open>auto simp: update_where_def\<close>)

lemma evolves_map:
  assumes "\<And>r. g r = r \<or> row_step r (g r)" and "jobs d' = map g (jobs d)"
  shows "evolves d d'"
  unfolding evolves_def by (rule disjI1, rule exI [where x = g]) (use assms in simp)

lemma evolves_update:
  "(\<And>r. p r \<Longrightarrow> row_step r (f r)) \<Longrightarrow> evolves d (d\<lparr>jobs := update_where p f (jobs d)\<rparr>)"
  by (rule evolves_update_jobs) simp_all

lemma evolves_append:
  assumes "job_at d (r_id r) = None" and "fresh_row r" and "\<forall>x \<in> set (jobs d). \<not> same_key x r"
    and "jobs d' = jobs d @ [r]"
  shows "evolves d d'"
  using assms unfolding evolves_def by blast

text \<open>The same fact row by row.\<close>

lemma find_row_map:
  "(\<And>r. k (g r) = k r) \<Longrightarrow> find_row k x (map g rows) = map_option g (find_row k x rows)"
  by (induction rows) auto

lemma row_step_or_id: "g r = r \<or> row_step r (g r) \<Longrightarrow> r_id (g r) = r_id r"
  using row_step_frame by auto

lemma evolves_Some:
  assumes "evolves d d'" and "job_at d i = Some r"
  obtains r' where "job_at d' i = Some r'" and "r' = r \<or> row_step r r'"
  using assms unfolding evolves_def
proof (elim disjE exE conjE)
  fix g assume g: "\<forall>r. g r = r \<or> row_step r (g r)" and "jobs d' = map g (jobs d)"
  with assms(2) have "job_at d' i = Some (g r)"
    by (simp add: job_at_def find_row_map row_step_or_id)
  with g that show ?thesis by blast
next
  fix x assume "jobs d' = jobs d @ [x]"
  with assms(2) have "job_at d' i = Some r" by (simp add: job_at_def)
  with that show ?thesis by blast
qed

lemma evolves_None:
  assumes "evolves d d'" and "job_at d i = None" and "job_at d' i = Some r'"
  shows "fresh_row r'"
  using assms unfolding evolves_def
proof (elim disjE exE conjE)
  fix g assume "\<forall>r. g r = r \<or> row_step r (g r)" and "jobs d' = map g (jobs d)"
  with assms(2,3) show ?thesis
    by (simp add: job_at_def find_row_map row_step_or_id)
qed (use assms(2,3) in \<open>auto simp: job_at_def split: if_splits\<close>)

lemma exec_stmt_cases:
  obtains "snd (exec_stmt ft m f d) = d" | "snd (exec_stmt ft m f d) = snd (f d)"
  by (cases ft) (simp_all add: exec_stmt_def)

lemma exec_stmt_evolves: "evolves d (snd (f d)) \<Longrightarrow> evolves d (snd (exec_stmt ft m f d))"
  by (rule exec_stmt_cases [of ft m f d]) simp_all

lemma exec_stmt_Good [simp]: "exec_stmt Good m f d = (Inr (fst (f d)), snd (f d))"
  by (simp add: exec_stmt_def)

lemma exec_stmt_Inr: "exec_stmt ft m f d = (Inr a, d') \<Longrightarrow> f d = (a, d')"
  by (cases ft) (auto simp: exec_stmt_def prod_eq_iff)

lemma jobs_insert_event [simp]: "jobs (snd (insert_event i ev dt d)) = jobs d"
  by (simp add: insert_event_def)

lemma jobs_addEvent [simp]: "jobs (addEvent fe i ev dt d) = jobs d"
  by (cases fe) (simp_all add: addEvent_def)

lemma job_at_addEvent [simp]: "job_at (addEvent fe i ev dt d) k = job_at d k"
  by (simp add: job_at_def)

lemma other_tables_addEvent [simp]:
  "job_attempts (addEvent fe i ev dt d) = job_attempts d"
  "workers (addEvent fe i ev dt d) = workers d"
  "db_now (addEvent fe i ev dt d) = db_now d"
  by (cases fe; simp add: addEvent_def insert_event_def)+

lemma event_if_applied_state [simp]:
  "jobs (snd (event_if_applied fe i ev dt rd)) = jobs (snd rd)"
  "fst (event_if_applied fe i ev dt rd) = fst rd"
  "job_attempts (snd (event_if_applied fe i ev dt rd)) = job_attempts (snd rd)"
  by (auto simp: event_if_applied_def split: prod.splits sum.splits bool.splits)

lemma exec_fenced_evolves:
  assumes "\<And>r. r_status r = StatusRunning \<Longrightarrow> row_step r (f (db_now d) r)"
  shows "evolves d (snd (exec_fenced ft m i e f d))"
  unfolding exec_fenced_def
  by (rule exec_stmt_evolves)
    (auto simp: update_jobs_def fenced_def intro!: evolves_update assms)

section \<open>The methods that write\<close>

inductive store_step :: "db \<Rightarrow> db \<Rightarrow> bool" where
  step_CreateJob: "j_Status j = StatusPending \<Longrightarrow> 1 \<le> j_MaxAttempts j \<Longrightarrow> j_ID j \<noteq> [] \<Longrightarrow>
    j_Type j \<noteq> [] \<Longrightarrow> store_step d (snd (CreateJob jsonb ft ft2 j d))"
| step_SetEnqueued: "store_step d (snd (SetEnqueued ft i sid d))"
| step_ClaimJob: "store_step d (snd (ClaimJob ft i w ttl d))"
| step_ExtendLease: "store_step d (snd (ExtendLease ft i e ttl d))"
| step_CompleteJob: "store_step d (snd (CompleteJob jsonb ft i e res d))"
| step_FailJob: "store_step d (snd (FailJob ft i e msg d))"
| step_DeadLetterJob: "store_step d (snd (DeadLetterJob ft fe i e msg d))"
| step_CancelRunning: "store_step d (snd (CancelRunning ft fe i e d))"
| step_ScheduleRetry: "store_step d (snd (store_ScheduleRetry ft fe i e msg nextAt d))"
| step_RecordAttempt: "store_step d (snd (RecordAttempt ft a d))"
| step_CancelJob: "store_step d (snd (CancelJob ft fe i d))"
| step_ReapJob: "store_step d (snd (ReapJob ft fe i delay grace d))"
| step_MarkPromoted: "store_step d (snd (MarkPromoted ft ids d))"
| step_RequeueDeadLetter: "store_step d (snd (RequeueDeadLetter ft fe i d))"
| step_AddEvent: "store_step d (addEvent ft i ev dt d)"
| step_UpsertWorker: "store_step d (snd (UpsertWorker ft w d))"
| step_MarkDeadWorkers: "store_step d (snd (MarkDeadWorkers ft cutoff d))"
| step_batch_complete: "store_step d (snd (batch_complete jsonb err ops d))"
| step_batch_op: "store_step d (snd (update_jobs (fenced (b_id p) (b_epoch p)) (op_set p (db_now d)) d))"
| step_batch_attempts: "store_step d (snd (batch_attempts err ops d))"
| step_batch_events: "store_step d (snd (batch_events err xs d))"
| step_clock: "store_step d (d\<lparr>db_now := now\<rparr>)"

inductive store_run :: "db \<Rightarrow> db \<Rightarrow> bool" where
  run_refl: "store_run d d"
| run_step: "store_run d d' \<Longrightarrow> store_step d' d'' \<Longrightarrow> store_run d d''"

lemma CreateJob_jobs:
  "jobs (snd (CreateJob jsonb ft ft2 j d)) = jobs d \<or>
    (\<exists>stored. jobs (snd (CreateJob jsonb ft ft2 j d)) = jobs d @ [new_row j stored (db_now d)]
      \<and> job_at d (j_ID j) = None \<and> \<not> list_ex (key_conflict j) (jobs d) \<and> Priority_Valid (j_Priority j))"
proof -
  let ?p = "if length (j_Payload j) > 0 then j_Payload j else ''null''"
  have st: "jobs (snd (CreateJob jsonb ft ft2 j d)) = jobs (snd (remote ft (insert_job jsonb j ?p) d))"
    by (auto simp: CreateJob_def Let_def split: prod.splits sum.splits insert_result.splits)
  show ?thesis
    unfolding st by (cases ft) (auto simp: insert_job_def split: option.splits)
qed

lemma new_row_fresh:
  "j_Status j = StatusPending \<Longrightarrow> 1 \<le> j_MaxAttempts j \<Longrightarrow> j_ID j \<noteq> [] \<Longrightarrow> j_Type j \<noteq> [] \<Longrightarrow>
    Priority_Valid (j_Priority j) \<Longrightarrow> fresh_row (new_row j stored now)"
  by (simp add: fresh_row_def new_row_def)

lemma new_row_id [simp]: "r_id (new_row j stored now) = j_ID j"
  by (simp add: new_row_def)

lemma fresh_row_wf: "fresh_row r \<Longrightarrow> row_wf r"
  by (simp add: fresh_row_def row_wf_def Terminal_def)

lemma new_row_same_key:
  "\<not> list_ex (key_conflict j) rows \<Longrightarrow> x \<in> set rows \<Longrightarrow> \<not> same_key x (new_row j stored now)"
  by (auto simp: list_ex_iff key_conflict_def same_key_def new_row_def)

lemma jobs_RecordAttempt [simp]: "jobs (snd (RecordAttempt ft a d)) = jobs d"
  by (cases ft) (simp_all add: RecordAttempt_def exec_stmt_def)

lemma ReapJob_jobs:
  "snd (ReapJob ft fe i delay grace d) = d \<or>
   jobs (snd (ReapJob ft fe i delay grace d)) =
     update_where (\<lambda>r. r_id r = i \<and> expired_running (db_now d) grace r) (reap_set delay (db_now d)) (jobs d)"
  by (cases ft)
    (auto simp: ReapJob_def exec_stmt_def update_jobs_returning_def split: list.splits option.splits)

lemma RequeueDeadLetter_jobs:
  "snd (RequeueDeadLetter ft fe i d) = d \<or>
   jobs (snd (RequeueDeadLetter ft fe i d)) =
     update_where (\<lambda>r. r_id r = i \<and> r_status r = StatusDeadLetter) (requeue_set (db_now d)) (jobs d)"
  by (cases ft)
    (auto simp: RequeueDeadLetter_def exec_stmt_def update_jobs_returning_def
      split: list.splits option.splits)

lemma expired_running_status: "expired_running now grace r \<Longrightarrow> r_status r = StatusRunning"
  by (simp add: expired_running_def)

text \<open>The statements of a batch are row steps too.\<close>

lemma complete_of_Some:
  "complete_of ops r = Some p \<Longrightarrow> p \<in> set ops \<and> b_kind p = opComplete \<and> fenced (b_id p) (b_epoch p) r"
  by (auto simp: complete_of_def find_Some_iff)

lemma batch_complete_set_step:
  "complete_of ops r = Some p \<Longrightarrow> jsonb (b_result p) \<noteq> None \<Longrightarrow> row_step r (batch_complete_set jsonb ops now r)"
  by (auto simp: batch_complete_set_def fenced_def dest!: complete_of_Some intro: row_step.intros)

lemma batch_complete_evolves: "evolves d (snd (batch_complete jsonb err ops d))"
proof -
  let ?g = "\<lambda>r. if complete_of ops r \<noteq> None then batch_complete_set jsonb ops (db_now d) r else r"
  have "?g r = r \<or> row_step r (?g r)" for r
    using batch_complete_set_step [of ops r _ jsonb "db_now d"]
    by (auto simp: batch_complete_set_def split: option.splits)
  then have g: "evolves d d'" if "jobs d' = map ?g (jobs d)" for d'
    by (rule evolves_map [OF _ that])
  show ?thesis
    unfolding batch_complete_def
    by (auto split: option.split intro: g simp: update_where_def simp del: not_None_eq)
qed

lemma op_set_evolves:
  "evolves d (snd (update_jobs (fenced (b_id p) (b_epoch p)) (op_set p (db_now d)) d))"
proof (cases "b_kind p = opComplete")
  case True
  then show ?thesis
    by (auto simp: update_jobs_def op_set_def update_where_def intro!: evolves_same_jobs)
next
  case False
  then show ?thesis
    by (cases "b_kind p")
      (auto simp: update_jobs_def op_set_def fenced_def intro!: evolves_update row_step.intros)
qed

lemma jobs_batch_attempts [simp]: "jobs (snd (batch_attempts err ops d)) = jobs d"
  by (simp add: batch_attempts_def split: option.split)

lemma batch_events_tables [simp]:
  "jobs (snd (batch_events err xs d)) = jobs d"
  "job_attempts (snd (batch_events err xs d)) = job_attempts d"
  by (simp_all add: batch_events_def Let_def split: option.split)

lemma job_attempts_batch_complete [simp]:
  "job_attempts (snd (batch_complete jsonb err ops d)) = job_attempts d"
  by (simp add: batch_complete_def split: option.split)

lemma store_step_evolves: "store_step d d' \<Longrightarrow> evolves d d'"
proof (induction rule: store_step.induct)
  case (step_CreateJob j d jsonb ft ft2)
  show ?case
    using CreateJob_jobs [of jsonb ft ft2 j d]
  proof (elim disjE exE conjE)
    fix stored
    assume "jobs (snd (CreateJob jsonb ft ft2 j d)) = jobs d @ [new_row j stored (db_now d)]"
      and "job_at d (j_ID j) = None" and "\<not> list_ex (key_conflict j) (jobs d)"
      and "Priority_Valid (j_Priority j)"
    then show ?thesis
      using new_row_fresh [OF step_CreateJob] by (intro evolves_append) (simp_all add: new_row_same_key)
  qed (rule evolves_same_jobs)
next
  case (step_SetEnqueued d ft i sid)
  show ?case unfolding SetEnqueued_def
    by (rule exec_stmt_evolves) (auto simp: update_jobs_def intro!: evolves_update row_step.intros)
next
  case (step_ClaimJob d ft i w ttl)
  show ?case unfolding ClaimJob_def
    by (rule exec_stmt_evolves)
      (auto simp: update_jobs_returning_def claim_where_def intro!: evolves_update row_step.intros)
next
  case (step_CompleteJob d jsonb ft i e res)
  show ?case
    by (auto simp: CompleteJob_def intro: exec_fenced_evolves row_step.intros split: option.split)
next
  case (step_DeadLetterJob d ft fe i e msg)
  show ?case unfolding DeadLetterJob_def
    by (rule evolves_cong [OF exec_fenced_evolves]) (auto intro: row_step.intros)
next
  case (step_CancelRunning d ft fe i e)
  show ?case unfolding CancelRunning_def
    by (rule evolves_cong [OF exec_fenced_evolves]) (auto intro: row_step.intros)
next
  case (step_ScheduleRetry d ft fe i e msg nextAt)
  show ?case unfolding store_ScheduleRetry_def
    by (rule evolves_cong [OF exec_fenced_evolves]) (auto intro: row_step.intros)
next
  case (step_CancelJob d ft fe i)
  have "evolves d (snd (exec_stmt ft ''store: cancelling job: ''
     (\<lambda>d. let (n, d') = update_jobs (claim_where i) (cancel_set (db_now d)) d in (n = 1, d')) d))"
    by (rule exec_stmt_evolves)
      (auto simp: update_jobs_def claim_where_def intro!: evolves_update row_step.intros)
  then show ?case unfolding CancelJob_def by (rule evolves_cong) simp
next
  case (step_ReapJob d ft fe i delay grace)
  show ?case
    using ReapJob_jobs [of ft fe i delay grace d]
  proof
    assume "jobs (snd (ReapJob ft fe i delay grace d)) =
     update_where (\<lambda>r. r_id r = i \<and> expired_running (db_now d) grace r) (reap_set delay (db_now d)) (jobs d)"
    then show ?thesis
      by (rule evolves_update_jobs [rotated]) (auto dest: expired_running_status intro: row_step.intros)
  qed simp
next
  case (step_MarkPromoted d ft ids)
  have "evolves d (snd (exec_stmt ft ''store: marking promoted: ''
       (\<lambda>d. update_jobs (\<lambda>r. r_id r \<in> set ids \<and> r_status r = StatusRetrying)
          (promoted_set (db_now d)) d) d))"
    by (rule exec_stmt_evolves) (auto simp: update_jobs_def intro!: evolves_update row_step.intros)
  then show ?case by (simp add: MarkPromoted_def)
next
  case (step_RequeueDeadLetter d ft fe i)
  show ?case
    using RequeueDeadLetter_jobs [of ft fe i d]
  proof
    assume "jobs (snd (RequeueDeadLetter ft fe i d)) =
     update_where (\<lambda>r. r_id r = i \<and> r_status r = StatusDeadLetter) (requeue_set (db_now d)) (jobs d)"
    then show ?thesis
      by (rule evolves_update_jobs [rotated]) (auto intro: row_step.intros)
  qed simp
next
  case (step_RecordAttempt d ft a)
  show ?case by (simp add: evolves_same_jobs)
next
  case (step_UpsertWorker d ft w)
  have "evolves d (snd (exec_stmt ft ''store: upserting worker: '' (upsert_worker w) d))"
    by (rule exec_stmt_evolves) (simp add: upsert_worker_def evolves_same_jobs)
  then show ?case by (simp add: UpsertWorker_def)
next
  case (step_MarkDeadWorkers d ft cutoff)
  show ?case unfolding MarkDeadWorkers_def
    by (rule exec_stmt_evolves) (simp add: Let_def evolves_same_jobs)
qed (auto simp: ExtendLease_def FailJob_def evolves_same_jobs batch_complete_evolves op_set_evolves
    intro: exec_fenced_evolves row_step.intros)

section \<open>Well-formed databases\<close>

lemma job_attempts_exec_fenced [simp]:
  "job_attempts (snd (exec_fenced ft m i e f d)) = job_attempts d"
  by (cases ft) (simp_all add: exec_fenced_def exec_stmt_def update_jobs_def)

lemma distinct_insert_attempt:
  "distinct (map attempt_key ts) \<Longrightarrow> distinct (map attempt_key (insert_attempt t ts))"
  by (auto simp: insert_attempt_def)

lemma distinct_fold_insert_attempt:
  "distinct (map attempt_key ts) \<Longrightarrow> distinct (map attempt_key (fold (\<lambda>p. insert_attempt (f p)) ops ts))"
  by (induction ops arbitrary: ts) (simp_all add: distinct_insert_attempt)

lemma store_step_attempts:
  "store_step d d' \<Longrightarrow> distinct (map attempt_key (job_attempts d)) \<Longrightarrow>
    distinct (map attempt_key (job_attempts d'))"
proof (induction rule: store_step.induct)
  case (step_CreateJob j d jsonb ft ft2)
  then show ?case
    by (cases ft) (auto simp: CreateJob_def Let_def insert_job_def
      split: prod.splits sum.splits insert_result.splits option.splits if_splits)
next
  case (step_SetEnqueued d ft i sid)
  then show ?case by (cases ft) (simp_all add: SetEnqueued_def exec_stmt_def update_jobs_def)
next
  case (step_ClaimJob d ft i w ttl)
  then show ?case by (cases ft) (simp_all add: ClaimJob_def exec_stmt_def update_jobs_returning_def)
next
  case (step_CompleteJob d jsonb ft i e res)
  then show ?case by (simp add: CompleteJob_def split: option.split)
next
  case (step_RecordAttempt d ft a)
  then show ?case
    by (cases ft) (simp_all add: RecordAttempt_def exec_stmt_def distinct_insert_attempt)
next
  case (step_CancelJob d ft fe i)
  then show ?case by (cases ft) (simp_all add: CancelJob_def exec_stmt_def update_jobs_def)
next
  case (step_ReapJob d ft fe i delay grace)
  then show ?case
    by (cases ft) (auto simp: ReapJob_def exec_stmt_def update_jobs_returning_def
      split: list.splits)
next
  case (step_MarkPromoted d ft ids)
  then show ?case by (cases ft) (simp_all add: MarkPromoted_def exec_stmt_def update_jobs_def)
next
  case (step_RequeueDeadLetter d ft fe i)
  then show ?case
    by (cases ft) (auto simp: RequeueDeadLetter_def exec_stmt_def update_jobs_returning_def
      split: list.splits)
next
  case (step_UpsertWorker d ft w)
  then show ?case by (cases ft) (simp_all add: UpsertWorker_def exec_stmt_def upsert_worker_def)
next
  case (step_MarkDeadWorkers d ft cutoff)
  then show ?case by (cases ft) (simp_all add: MarkDeadWorkers_def exec_stmt_def Let_def)
next
  case (step_batch_attempts d err ops)
  then show ?case by (simp add: batch_attempts_def distinct_fold_insert_attempt split: option.split)
next
  case (step_batch_op d p)
  then show ?case by (simp add: update_jobs_def)
qed (simp_all add: ExtendLease_def FailJob_def DeadLetterJob_def CancelRunning_def store_ScheduleRetry_def)

lemma row_step_key:
  "g r = r \<or> row_step r (g r) \<Longrightarrow> r_type (g r) = r_type r \<and> r_idempotency_key (g r) = r_idempotency_key r"
  using row_step_frame [of r "g r"] by auto

lemma row_step_same_key: "g r = r \<or> row_step r (g r) \<Longrightarrow> g r' = r' \<or> row_step r' (g r') \<Longrightarrow>
    same_key (g r) (g r') = same_key r r'"
  by (simp add: same_key_def row_step_key)

lemma evolves_wf:
  assumes "evolves d d'" and "db_wf d" and "distinct (map attempt_key (job_attempts d'))"
  shows "db_wf d'"
  using assms(1) unfolding evolves_def
proof (elim disjE exE conjE)
  fix g assume g: "\<forall>r. g r = r \<or> row_step r (g r)" and j: "jobs d' = map g (jobs d)"
  have ids: "map r_id (jobs d') = map r_id (jobs d)"
    using g by (simp add: j row_step_or_id)
  have wf: "list_all row_wf (jobs d')"
    unfolding list_all_iff j
  proof
    fix r' assume "r' \<in> set (map g (jobs d))"
    then obtain r where "r \<in> set (jobs d)" and "r' = g r" by auto
    moreover from this assms(2) have "row_wf r" by (simp add: db_wf_def list_all_iff)
    ultimately show "row_wf r'" using g row_step_wf by metis
  qed
  have "\<forall>r \<in> set (jobs d'). \<forall>r' \<in> set (jobs d'). same_key r r' \<longrightarrow> r = r'"
    using assms(2) g by (auto simp: db_wf_def j row_step_same_key)
  with ids wf assms(2,3) show ?thesis by (simp add: db_wf_def)
next
  fix r assume r: "job_at d (r_id r) = None" "fresh_row r" "\<forall>x \<in> set (jobs d). \<not> same_key x r"
    and j: "jobs d' = jobs d @ [r]"
  have "\<forall>x \<in> set (jobs d). \<not> same_key r x"
    using r(3) by (auto simp: same_key_def)
  with assms(2,3) r j show ?thesis
    by (auto simp: db_wf_def fresh_row_wf job_at_def find_row_None)
qed

lemma store_step_wf: "store_step d d' \<Longrightarrow> db_wf d \<Longrightarrow> db_wf d'"
  using evolves_wf store_step_evolves store_step_attempts db_wf_def by blast

lemma store_run_wf: "store_run d d' \<Longrightarrow> db_wf d \<Longrightarrow> db_wf d'"
  by (induction rule: store_run.induct) (auto intro: store_step_wf)

section \<open>Runs\<close>

text \<open>A property of one row kept by row steps is kept along every run.\<close>

lemma store_run_row:
  assumes "store_run d d'" and "job_at d i = Some r" and "Q r"
    and step: "\<And>x y. row_step x y \<Longrightarrow> Q x \<Longrightarrow> Q y"
  obtains r' where "job_at d' i = Some r'" and "Q r'"
proof -
  from assms(1-3) have "\<exists>r'. job_at d' i = Some r' \<and> Q r'"
  proof (induction rule: store_run.induct)
    case (run_step d d' d'')
    then obtain r' where "job_at d' i = Some r'" and "Q r'" by blast
    moreover from run_step have "evolves d' d''" by (simp add: store_step_evolves)
    ultimately show ?case using step by (metis evolves_Some)
  qed blast
  with that show ?thesis by blast
qed

text \<open>The owner with epoch \<open>e\<close> is spent: it has been superseded, or has finished.\<close>

definition spent :: "int \<Rightarrow> job_row \<Rightarrow> bool" where
  "spent e r = (e < r_lease_epoch r \<or> e = r_lease_epoch r \<and> r_status r \<noteq> StatusRunning)"

lemma row_step_spent: "row_step r r' \<Longrightarrow> spent e r \<Longrightarrow> spent e r'"
  using row_step_epoch [of r r'] row_step_enter_running [of r r'] by (auto simp: spent_def)

lemma store_run_spent:
  assumes "store_run d d'" and "job_at d i = Some r" and "spent e r"
  obtains r' where "job_at d' i = Some r'" and "spent e r'"
  by (rule store_run_row [of d d' i r "spent e", OF assms row_step_spent that])

lemma store_run_epoch:
  assumes "store_run d d'" and "job_at d i = Some r" and "e \<le> r_lease_epoch r"
  obtains r' where "job_at d' i = Some r'" and "e \<le> r_lease_epoch r'"
proof (rule store_run_row [of d d' i r "\<lambda>x. e \<le> r_lease_epoch x", OF assms])
  fix x y assume "row_step x y" and "e \<le> r_lease_epoch x"
  then show "e \<le> r_lease_epoch y" using row_step_epoch [of x y] by simp
qed (rule that)

text \<open>The six writes an owner can make, by name.\<close>

datatype owner_write =
    WExtend duration
  | WComplete string
  | WFail string
  | WDead string
  | WCancel
  | WRetry string time

primrec owner_call ::
  "(string \<Rightarrow> string option) \<Rightarrow> go_error fault \<Rightarrow> go_error fault \<Rightarrow> string \<Rightarrow> int \<Rightarrow> owner_write \<Rightarrow> db \<Rightarrow> bool res \<times> db"
where
  "owner_call jsonb ft fe i e (WExtend ttl) d = ExtendLease ft i e ttl d"
| "owner_call jsonb ft fe i e (WComplete res) d = CompleteJob jsonb ft i e res d"
| "owner_call jsonb ft fe i e (WFail msg) d = FailJob ft i e msg d"
| "owner_call jsonb ft fe i e (WDead msg) d = DeadLetterJob ft fe i e msg d"
| "owner_call jsonb ft fe i e WCancel d = CancelRunning ft fe i e d"
| "owner_call jsonb ft fe i e (WRetry msg nextAt) d = store_ScheduleRetry ft fe i e msg nextAt d"

lemmas owner_defs = ExtendLease_def CompleteJob_def FailJob_def DeadLetterJob_def
  CancelRunning_def store_ScheduleRetry_def

lemma exec_fenced_spent:
  assumes "db_wf d" and "job_at d i = Some r" and "spent e r"
  shows "snd (exec_fenced ft m i e f d) = d" and "fst (exec_fenced ft m i e f d) \<noteq> Inr True"
proof -
  have "rows_affected (fenced i e) (jobs d) = 0"
    using assms rows_affected_key [of r_id "jobs d" i "\<lambda>r. r_lease_epoch r = e \<and> r_status r = StatusRunning"]
    by (auto simp: db_wf_def job_at_def spent_def fenced_def [abs_def])
  then show "snd (exec_fenced ft m i e f d) = d" and "fst (exec_fenced ft m i e f d) \<noteq> Inr True"
    by (cases ft; simp add: exec_fenced_def exec_stmt_def update_jobs_def table_simps)+
qed

lemma event_if_applied_False:
  "fst rd \<noteq> Inr True \<Longrightarrow> event_if_applied fe i ev dt rd = rd"
  by (auto simp: event_if_applied_def split: prod.splits sum.splits bool.splits)

lemma owner_call_spent:
  assumes "db_wf d" and "job_at d i = Some r" and "spent e r"
  shows "snd (owner_call jsonb ft fe i e w d) = d \<and> fst (owner_call jsonb ft fe i e w d) \<noteq> Inr True"
  by (cases w)
    (simp_all add: owner_defs exec_fenced_spent [OF assms] event_if_applied_False split: option.split)

text \<open>Finishing writes leave the owner spent, applied or not yet confirmed.\<close>

lemma exec_fenced_finishes:
  assumes "db_wf d" and "job_at d i = Some r" and "fenced i e r"
    and "\<And>x. fenced i e x \<Longrightarrow> r_status (f (db_now d) x) \<noteq> StatusRunning \<and> r_id (f (db_now d) x) = r_id x
      \<and> r_lease_epoch (f (db_now d) x) = r_lease_epoch x"
    and "ft = Good \<or> (\<exists>x. ft = Late x)"
  shows "\<exists>r'. job_at (snd (exec_fenced ft m i e f d)) i = Some r' \<and> spent e r'"
proof -
  have "job_at (d\<lparr>jobs := update_where (fenced i e) (f (db_now d)) (jobs d)\<rparr>) i = Some (f (db_now d) r)"
    using assms by (simp add: job_at_def table_simps)
  moreover have "spent e (f (db_now d) r)"
    using assms(3,4) by (simp add: spent_def fenced_def)
  ultimately show ?thesis
    using assms(5) by (auto simp: exec_fenced_def exec_stmt_def update_jobs_def)
qed


text \<open>What a statement that reports one affected row did.\<close>

lemma exec_fenced_applied:
  assumes "exec_fenced ft m i e f d = (Inr True, d')"
  shows "d' = d\<lparr>jobs := update_where (fenced i e) (f (db_now d)) (jobs d)\<rparr>"
    and "rows_affected (fenced i e) (jobs d) = 1"
  using assms by (auto simp: exec_fenced_def update_jobs_def dest!: exec_stmt_Inr)

lemma rows_affected_fenced:
  assumes "db_wf d" and "rows_affected (fenced i e) (jobs d) = 1"
  obtains r where "job_at d i = Some r" and "fenced i e r"
proof -
  have "rows_affected (\<lambda>r. r_id r = i \<and> r_lease_epoch r = e \<and> r_status r = StatusRunning) (jobs d) = 1"
    using assms(2) by (simp add: fenced_def [abs_def])
  with assms(1) obtain r where "job_at d i = Some r" "r_lease_epoch r = e \<and> r_status r = StatusRunning"
    by (auto simp: rows_affected_key db_wf_def job_at_def split: option.splits if_splits)
  moreover from this(1) have "r_id r = i" by (auto simp: job_at_def dest: find_row_Some)
  ultimately show ?thesis by (intro that) (simp_all add: fenced_def)
qed

definition finishing :: "owner_write \<Rightarrow> bool" where
  "finishing w = (case w of WExtend _ \<Rightarrow> False | _ \<Rightarrow> True)"

text \<open>What a finishing write leaves of the row it is applied to.\<close>

definition finish_target :: "(string \<Rightarrow> string option) \<Rightarrow> owner_write \<Rightarrow> job_row \<Rightarrow> bool" where
  "finish_target jsonb w r =
    (case w of
       WExtend _ \<Rightarrow> r_status r = StatusRunning
     | WComplete res \<Rightarrow> r_status r = StatusCompleted \<and> r_result r = jsonb (result_text res)
     | WFail msg \<Rightarrow> r_status r = StatusFailed \<and> r_error r = Some msg
     | WDead msg \<Rightarrow> r_status r = StatusDeadLetter \<and> r_error r = Some msg
     | WCancel \<Rightarrow> r_status r = StatusCancelled
     | WRetry msg nextAt \<Rightarrow> r_status r = StatusRetrying \<and> r_error r = Some msg \<and> r_scheduled_at r = nextAt)"

lemma fenced_write_row:
  assumes "db_wf d" and "exec_fenced ft m i e f d = (Inr True, d1)"
    and "\<And>x. r_id (f (db_now d) x) = r_id x"
  obtains r where "job_at d i = Some r" "fenced i e r" "job_at d1 i = Some (f (db_now d) r)"
proof -
  from rows_affected_fenced [OF assms(1) exec_fenced_applied(2) [OF assms(2)]]
  obtain r where r: "job_at d i = Some r" "fenced i e r" .
  moreover have "job_at d1 i = Some (f (db_now d) r)"
    using r exec_fenced_applied(1) [OF assms(2)] assms(3) by (simp add: job_at_def table_simps)
  ultimately show ?thesis by (rule that)
qed

lemma event_if_applied_True:
  assumes "event_if_applied fe i ev dt rd = (Inr True, d')"
  obtains d1 where "rd = (Inr True, d1)" and "jobs d' = jobs d1"
proof -
  have "fst rd = Inr True" using assms event_if_applied_state(2) [of fe i ev dt rd] by simp
  moreover have "jobs d' = jobs (snd rd)" using assms event_if_applied_state(1) [of fe i ev dt rd] by simp
  ultimately show ?thesis by (intro that [of "snd rd"]) (simp_all add: prod_eq_iff)
qed

text \<open>The shape every one of the six writes has: a fenced update, then perhaps an event.\<close>

primrec owner_set :: "(string \<Rightarrow> string option) \<Rightarrow> owner_write \<Rightarrow> time \<Rightarrow> job_row \<Rightarrow> job_row" where
  "owner_set jsonb (WExtend ttl) = extend_set ttl"
| "owner_set jsonb (WComplete res) =
     (case jsonb (result_text res) of None \<Rightarrow> (\<lambda>_ r. r) | Some x \<Rightarrow> complete_set x)"
| "owner_set jsonb (WFail msg) = fail_set msg"
| "owner_set jsonb (WDead msg) = dead_set msg"
| "owner_set jsonb WCancel = cancel_running_set"
| "owner_set jsonb (WRetry msg nextAt) = retry_set msg nextAt"

lemma owner_call_shape:
  assumes "owner_call jsonb ft fe i e w d = (Inr True, d')"
  obtains m d1 where "exec_fenced ft m i e (owner_set jsonb w) d = (Inr True, d1)" "jobs d' = jobs d1"
    and "\<forall>res. w = WComplete res \<longrightarrow> jsonb (result_text res) \<noteq> None"
proof (cases w)
  case (WComplete res)
  with assms that show ?thesis by (auto simp: CompleteJob_def split: option.splits)
qed (use assms that in \<open>auto simp: owner_defs elim: event_if_applied_True\<close>)

lemma owner_set_keeps:
  "r_id (owner_set jsonb w now r) = r_id r \<and> r_lease_epoch (owner_set jsonb w now r) = r_lease_epoch r"
  by (cases w) (simp_all add: row_sets split: option.split)

lemma owner_set_target:
  "r_status r = StatusRunning \<Longrightarrow> \<forall>res. w = WComplete res \<longrightarrow> jsonb (result_text res) \<noteq> None \<Longrightarrow>
    finish_target jsonb w (owner_set jsonb w now r)"
  by (cases w) (auto simp: finish_target_def row_sets)

lemma owner_call_applied:
  assumes "db_wf d" and "owner_call jsonb ft fe i e w d = (Inr True, d')"
  obtains r r' where "job_at d i = Some r" and "fenced i e r" and "job_at d' i = Some r'"
    and "r_lease_epoch r' = e" and "finish_target jsonb w r'"
proof -
  from owner_call_shape [OF assms(2)] obtain m d1
    where ex: "exec_fenced ft m i e (owner_set jsonb w) d = (Inr True, d1)" and j: "jobs d' = jobs d1"
      and c: "\<forall>res. w = WComplete res \<longrightarrow> jsonb (result_text res) \<noteq> None" .
  from fenced_write_row [OF assms(1) ex] owner_set_keeps obtain r
    where r: "job_at d i = Some r" "fenced i e r"
      and r': "job_at d1 i = Some (owner_set jsonb w (db_now d) r)" by metis
  have st: "r_status r = StatusRunning" and ep: "r_lease_epoch r = e"
    using r(2) by (simp_all add: fenced_def)
  have "job_at d' i = Some (owner_set jsonb w (db_now d) r)"
    using r' j by (simp add: job_at_def)
  then show ?thesis
    by (rule that [OF r]) (simp_all add: owner_set_keeps ep owner_set_target [OF st c])
qed

lemma finish_target_spent:
  "finishing w \<Longrightarrow> finish_target jsonb w r \<Longrightarrow> r_lease_epoch r = e \<Longrightarrow> spent e r"
  by (cases w) (auto simp: finishing_def finish_target_def spent_def)


lemma ClaimJob_Some:
  assumes "db_wf d" and "ClaimJob ft i w ttl d = (Inr (Some c), d')"
  obtains r where "job_at d i = Some r" and "r_status r = StatusPending \<or> r_status r = StatusRetrying"
    and "job_at d' i = Some (claim_set w ttl (db_now d) r)" and "c_Epoch c = r_lease_epoch r + 1"
    and "c_Attempt c = r_attempt_count r + 1" and "c_MaxAttempts c = r_max_attempts r"
proof -
  from exec_stmt_Inr [OF assms(2) [unfolded ClaimJob_def]]
  obtain r rs where f: "filter (claim_where i) (jobs d) = r # rs"
    and c: "c = \<lparr>c_Epoch = r_lease_epoch r + 1, c_Attempt = r_attempt_count r + 1,
              c_MaxAttempts = r_max_attempts r, c_StartedAt = db_now d\<rparr>"
    and d': "d' = d\<lparr>jobs := update_where (claim_where i) (claim_set w ttl (db_now d)) (jobs d)\<rparr>"
    by (auto simp: update_jobs_returning_def claim_set_def Let_def split: list.splits)
  from f have "r \<in> set (filter (claim_where i) (jobs d))" by simp
  then have r: "r \<in> set (jobs d)" "claim_where i r" by auto
  with assms(1) have at: "job_at d i = Some r"
    using find_row_in_set [of r_id "jobs d" r] by (simp add: db_wf_def job_at_def claim_where_def)
  moreover have "job_at d' i = Some (claim_set w ttl (db_now d) r)"
    using at r(2) by (simp add: d' job_at_def table_simps claim_set_def)
  ultimately show ?thesis using r(2) c by (intro that) (simp_all add: claim_where_def)
qed

lemma ReapJob_Some:
  assumes "db_wf d" and "ReapJob ft fe i delay grace d = (Inr (Some res), d')"
  obtains r where "job_at d i = Some r" and "expired_running (db_now d) grace r"
    and "job_at d' i = Some (reap_set delay (db_now d) r)"
    and "rr_NewStatus res = r_status (reap_set delay (db_now d) r)" and "rr_Attempt res = r_attempt_count r"
proof -
  let ?p = "\<lambda>r. r_id r = i \<and> expired_running (db_now d) grace r"
  obtain r rs where f: "filter ?p (jobs d) = r # rs"
    and res: "rr_NewStatus res = r_status (reap_set delay (db_now d) r)" "rr_Attempt res = r_attempt_count r"
    and d': "jobs d' = update_where ?p (reap_set delay (db_now d)) (jobs d)"
    using assms(2)
    by (cases ft) (auto simp: ReapJob_def exec_stmt_def update_jobs_returning_def reap_set_def Let_def
        split: list.splits option.splits)
  from f have "r \<in> set (filter ?p (jobs d))" by simp
  then have r: "r \<in> set (jobs d)" "?p r" by auto
  with assms(1) have at: "job_at d i = Some r"
    using find_row_in_set [of r_id "jobs d" r] by (simp add: db_wf_def job_at_def)
  moreover have "job_at d' i = Some (reap_set delay (db_now d) r)"
    using at r(2) by (simp add: d' job_at_def table_simps reap_set_def Let_def)
  ultimately show ?thesis using r(2) res by (intro that) simp_all
qed

lemma RequeueDeadLetter_Some:
  assumes "db_wf d" and "RequeueDeadLetter ft fe i d = (Inr (Some rq), d')"
  obtains r where "job_at d i = Some r" and "r_status r = StatusDeadLetter"
    and "job_at d' i = Some (requeue_set (db_now d) r)" and "rq = scanRequeueable (requeue_set (db_now d) r)"
proof -
  let ?p = "\<lambda>r. r_id r = i \<and> r_status r = StatusDeadLetter"
  obtain r rs where f: "filter ?p (jobs d) = r # rs" and rq: "rq = scanRequeueable (requeue_set (db_now d) r)"
    and d': "jobs d' = update_where ?p (requeue_set (db_now d)) (jobs d)"
    using assms(2)
    by (cases ft) (auto simp: RequeueDeadLetter_def exec_stmt_def update_jobs_returning_def
        split: list.splits option.splits)
  from f have "r \<in> set (filter ?p (jobs d))" by simp
  then have r: "r \<in> set (jobs d)" "?p r" by auto
  with assms(1) have at: "job_at d i = Some r"
    using find_row_in_set [of r_id "jobs d" r] by (simp add: db_wf_def job_at_def)
  moreover have "job_at d' i = Some (requeue_set (db_now d) r)"
    using at r(2) by (simp add: d' job_at_def table_simps requeue_set_def)
  ultimately show ?thesis using r(2) rq by (intro that) simp_all
qed

text \<open>The row of a fresh claim belongs to its epoch, and every earlier epoch is spent.\<close>

lemma ClaimJob_owner:
  assumes "db_wf d" and "ClaimJob ft i w ttl d = (Inr (Some c), d')"
  obtains r' where "job_at d' i = Some r'" and "fenced i (c_Epoch c) r'" and "r_worker_id r' = Some w"
    and "r_attempt_count r' = c_Attempt c"
proof -
  from ClaimJob_Some [OF assms] obtain r where r: "job_at d i = Some r"
    "job_at d' i = Some (claim_set w ttl (db_now d) r)" "c_Epoch c = r_lease_epoch r + 1"
    "c_Attempt c = r_attempt_count r + 1" by metis
  have "r_id r = i" using r(1) by (auto simp: job_at_def dest: find_row_Some)
  with r(3,4) show ?thesis by (intro that [OF r(2)]) (simp_all add: fenced_def claim_set_def)
qed

lemma store_run_trans: "store_run b c \<Longrightarrow> store_run a b \<Longrightarrow> store_run a c"
  by (induction rule: store_run.induct) (auto intro: store_run.intros)

lemma store_run_1: "store_step d d' \<Longrightarrow> store_run d d'"
  by (rule run_step [OF run_refl])

lemma owner_call_step: "store_step d (snd (owner_call jsonb ft fe i e w d))"
  by (cases w) (auto intro: store_step.intros)

section \<open>Obligations\<close>

text \<open>
  A row that is PENDING and marked as handed to Redis is an obligation of the queue: no sweep of
  the database looks for it. A call is quiet when it creates no obligation; only \<^verbatim>\<open>SetEnqueued\<close>
  and \<^verbatim>\<open>MarkPromoted\<close> do.
\<close>

definition obliged :: "job_row \<Rightarrow> bool" where
  "obliged r = (r_status r = StatusPending \<and> r_enqueued_stream_id r \<noteq> None)"

definition quiet :: "db \<Rightarrow> db \<Rightarrow> bool" where
  "quiet d d' = (\<forall>i r'. job_at d' i = Some r' \<longrightarrow> obliged r' \<longrightarrow> (\<exists>r. job_at d i = Some r \<and> obliged r))"

lemma quiet_refl [simp]: "quiet d d"
  by (simp add: quiet_def)

lemma quiet_trans: "quiet a b \<Longrightarrow> quiet b c \<Longrightarrow> quiet a c"
  unfolding quiet_def by blast

lemma quiet_same_jobs: "jobs d' = jobs d \<Longrightarrow> quiet d d'"
  by (simp add: quiet_def job_at_def)

lemma quiet_cong: "quiet d d' \<Longrightarrow> jobs d'' = jobs d' \<Longrightarrow> quiet d d''"
  by (simp add: quiet_def job_at_def)

lemma quiet_map:
  assumes "jobs d' = map g (jobs d)" and "\<And>r. r_id (g r) = r_id r" and "\<And>r. obliged (g r) \<Longrightarrow> obliged r"
  shows "quiet d d'"
  unfolding quiet_def job_at_def assms(1) find_row_map [of r_id g, OF assms(2)]
  using assms(3) by auto

lemma quiet_update:
  assumes "jobs d' = update_where p f (jobs d)" and "\<And>r. r_id (f r) = r_id r"
    and "\<And>r. p r \<Longrightarrow> obliged (f r) \<Longrightarrow> obliged r"
  shows "quiet d d'"
  by (rule quiet_map [of d' "\<lambda>r. if p r then f r else r"]) (use assms in \<open>auto simp: update_where_def split: if_splits\<close>)

lemma quiet_append:
  assumes "jobs d' = jobs d @ [r]" and "\<not> obliged r"
  shows "quiet d d'"
  using assms by (auto simp: quiet_def job_at_def split: option.splits if_splits)

lemma quiet_exec_stmt: "quiet d (snd (f d)) \<Longrightarrow> quiet d (snd (exec_stmt ft m f d))"
  by (rule exec_stmt_cases [of ft m f d]) simp_all

lemmas quiet_rows = row_sets obliged_def Let_def

lemma quiet_exec_fenced:
  assumes "\<And>r. r_id (f (db_now d) r) = r_id r"
    and "\<And>r. r_status r = StatusRunning \<Longrightarrow> \<not> obliged (f (db_now d) r)"
  shows "quiet d (snd (exec_fenced ft m i e f d))"
  unfolding exec_fenced_def
  by (rule quiet_exec_stmt, rule quiet_update [of _ "fenced i e" "f (db_now d)"])
    (use assms in \<open>auto simp: update_jobs_def fenced_def\<close>)

lemma quiet_event: "quiet d (snd rd) \<Longrightarrow> quiet d (snd (event_if_applied fe i ev dt rd))"
  by (erule quiet_cong) simp

lemma quiet_owner_call: "quiet d (snd (owner_call jsonb ft fe i e w d))"
proof -
  have f: "quiet d (snd (exec_fenced ft m i e (owner_set jsonb w) d))"
    if "\<forall>res. w = WComplete res \<longrightarrow> jsonb (result_text res) \<noteq> None" for m
  proof (rule quiet_exec_fenced)
    show "r_id (owner_set jsonb w (db_now d) r) = r_id r" for r by (simp add: owner_set_keeps)
    show "\<not> obliged (owner_set jsonb w (db_now d) r)" if "r_status r = StatusRunning" for r
      using that by (cases w) (simp_all add: quiet_rows split: option.split)
  qed
  show ?thesis
  proof (cases w)
    case (WComplete res)
    then show ?thesis using f by (auto simp: CompleteJob_def split: option.split)
  qed (use f in \<open>auto simp: owner_defs intro: quiet_event\<close>)
qed

lemma quiet_ClaimJob: "quiet d (snd (ClaimJob ft i w ttl d))"
  unfolding ClaimJob_def
  by (rule quiet_exec_stmt, rule quiet_update [of _ "claim_where i" "claim_set w ttl (db_now d)"])
    (simp_all add: update_jobs_returning_def quiet_rows)

lemma quiet_CancelJob: "quiet d (snd (CancelJob ft fe i d))"
  unfolding CancelJob_def
  by (rule quiet_event, rule quiet_exec_stmt, rule quiet_update [of _ "claim_where i" "cancel_set (db_now d)"])
    (simp_all add: update_jobs_def quiet_rows)

lemma quiet_ReapJob: "quiet d (snd (ReapJob ft fe i delay grace d))"
  using ReapJob_jobs [of ft fe i delay grace d]
proof
  assume "jobs (snd (ReapJob ft fe i delay grace d)) =
     update_where (\<lambda>r. r_id r = i \<and> expired_running (db_now d) grace r) (reap_set delay (db_now d)) (jobs d)"
  then show ?thesis by (rule quiet_update) (simp_all add: quiet_rows split: if_splits)
qed simp

lemma quiet_RequeueDeadLetter: "quiet d (snd (RequeueDeadLetter ft fe i d))"
  using RequeueDeadLetter_jobs [of ft fe i d]
proof
  assume "jobs (snd (RequeueDeadLetter ft fe i d)) =
     update_where (\<lambda>r. r_id r = i \<and> r_status r = StatusDeadLetter) (requeue_set (db_now d)) (jobs d)"
  then show ?thesis by (rule quiet_update) (simp_all add: quiet_rows)
qed simp

lemma quiet_CreateJob: "quiet d (snd (CreateJob jsonb ft fe j d))"
  using CreateJob_jobs [of jsonb ft fe j d]
  by (auto intro: quiet_same_jobs quiet_append simp: obliged_def new_row_def)

lemma quiet_RecordAttempt: "quiet d (snd (RecordAttempt ft a d))"
  by (rule quiet_same_jobs) simp

lemma quiet_addEvent: "quiet d (addEvent ft i ev dt d)"
  by (rule quiet_same_jobs) simp

lemma quiet_MarkDeadWorkers: "quiet d (snd (MarkDeadWorkers ft cutoff d))"
  by (rule quiet_same_jobs, cases ft) (simp_all add: MarkDeadWorkers_def exec_stmt_def Let_def)

text \<open>The two calls that are not quiet, and what they oblige.\<close>

lemma SetEnqueued_obliges:
  assumes "job_at (snd (SetEnqueued ft i sid d)) k = Some r'" and "obliged r'"
  shows "k = i \<or> (\<exists>r. job_at d k = Some r \<and> obliged r)"
  using assms
  by (cases ft) (auto simp: SetEnqueued_def exec_stmt_def update_jobs_def job_at_def table_simps obliged_def
      split: if_splits dest: find_row_Some)

lemma MarkPromoted_obliges:
  assumes "job_at (snd (MarkPromoted ft ids d)) k = Some r'" and "obliged r'"
  shows "k \<in> set ids \<or> (\<exists>r. job_at d k = Some r \<and> obliged r)"
  using assms
  by (cases ft) (auto simp: MarkPromoted_def exec_stmt_def update_jobs_def job_at_def table_simps obliged_def
      promoted_set_def split: if_splits dest: find_row_Some)

section \<open>Example data\<close>

text \<open>One running job at its second attempt, owned by \<open>w1\<close> under epoch 2.\<close>

definition demo_row :: job_row where
  "demo_row =
    \<lparr> r_id = ''j1'', r_type = ''mail'', r_queue = ''default'', r_status = StatusRunning,
      r_priority = ''high'', r_payload = ''{}'', r_result = None, r_error = Some ''boom'',
      r_idempotency_key = Some ''k1'', r_attempt_count = 2, r_max_attempts = 3, r_lease_epoch = 2,
      r_lease_expires_at = Some 500, r_worker_id = Some ''w1'', r_enqueued_stream_id = Some ''1-0'',
      r_created_at = 10, r_scheduled_at = 10, r_started_at = Some 20, r_completed_at = None,
      r_updated_at = 20 \<rparr>"

definition demo_db :: db where
  "demo_db = \<lparr> jobs = [demo_row], job_attempts = [], job_events = [], workers = [], db_now = 100 \<rparr>"

lemma demo_db_wf [simp]: "db_wf demo_db"
  by (simp add: demo_db_def demo_row_def db_wf_def row_wf_def Terminal_def Priority_Valid_def PriorityHigh_def)

lemma demo_job_at [simp]: "job_at demo_db ''j1'' = Some demo_row"
  by (simp add: demo_db_def demo_row_def job_at_def)

section \<open>Theorems\<close>

text \<open>
  C4. Fencing. Once an owner of a job is superseded by a later claim, a cancellation, a reap
  or a requeue, or has itself finished the job, then after any further sequence of calls by any
  processes, whatever their faults, none of its six writes changes the database and none
  reports success.
\<close>

theorem fencing:
  assumes "db_wf d" and "job_at d i = Some r" and "spent e r" and "store_run d d'"
  shows "snd (owner_call jsonb ft fe i e w d') = d' \<and> fst (owner_call jsonb ft fe i e w d') \<noteq> Inr True"
proof -
  from store_run_spent [OF assms(4,2,3)] obtain r' where "job_at d' i = Some r'" and "spent e r'" .
  with store_run_wf [OF assms(4,1)] show ?thesis by (rule owner_call_spent)
qed

theorem fencing_witness:
  "spent 1 demo_row \<and>
   snd (CompleteJob Some Good ''j1'' 1 ''late'' (snd (MarkPromoted Good [''j1''] demo_db)))
     = snd (MarkPromoted Good [''j1''] demo_db)"
proof -
  have sp: "spent 1 demo_row" by (simp add: spent_def demo_row_def)
  from fencing [OF demo_db_wf demo_job_at sp store_run_1 [OF step_MarkPromoted],
      of Some Good Good "WComplete ''late''" Good "[''j1'']"] sp
  show ?thesis by simp
qed

text \<open>
  C8. Exactly one finishing write per claim. When a finishing write (complete, fail,
  dead-letter, cancel, retry) of the owner of epoch \<open>e\<close> reports that it was applied, the row
  was RUNNING under \<open>e\<close>, it now holds that write's status and value, and no write of the same
  epoch is applied ever after.
\<close>

theorem single_finisher:
  assumes "db_wf d" and "finishing w" and "owner_call jsonb ft fe i e w d = (Inr True, d1)"
    and "store_run d1 d2"
  shows "(\<exists>r. job_at d i = Some r \<and> fenced i e r)
    \<and> (\<exists>r. job_at d1 i = Some r \<and> finish_target jsonb w r)
    \<and> fst (owner_call jsonb' ft' fe' i e w' d2) \<noteq> Inr True"
proof -
  from owner_call_applied [OF assms(1,3)] obtain r r' where r: "job_at d i = Some r" "fenced i e r"
    and r': "job_at d1 i = Some r'" "r_lease_epoch r' = e" "finish_target jsonb w r'" .
  have "spent e r'" by (rule finish_target_spent [OF assms(2) r'(3,2)])
  from store_run_spent [OF assms(4) r'(1) this] obtain r2
    where "job_at d2 i = Some r2" and "spent e r2" .
  moreover have "db_wf d2"
    using store_run_wf [OF assms(4)] store_step_wf [OF owner_call_step assms(1)] assms(3)
    by (metis snd_conv)
  ultimately show ?thesis using r r' owner_call_spent by blast
qed

theorem single_finisher_witness:
  "fst (owner_call Some Good Good ''j1'' 2 (WComplete ''1'') demo_db) = Inr True
   \<and> fst (owner_call Some Good Good ''j1'' 2 (WRetry ''x'' 7)
        (snd (owner_call Some Good Good ''j1'' 2 (WComplete ''1'') demo_db))) \<noteq> Inr True"
proof -
  have a: "owner_call Some Good Good ''j1'' 2 (WComplete ''1'') demo_db
    = (Inr True, snd (owner_call Some Good Good ''j1'' 2 (WComplete ''1'') demo_db))"
    by (simp add: CompleteJob_def result_text_def exec_fenced_def update_jobs_def rows_affected_def
        fenced_def demo_db_def demo_row_def)
  have fin: "finishing (WComplete ''1'')" by (simp add: finishing_def)
  show ?thesis
    using single_finisher [OF demo_db_wf fin a run_refl, of Some Good Good "WRetry ''x'' 7"]
      arg_cong [OF a, of fst] by (simp only: fst_conv simp_thms)
qed

text \<open>
  C9. Every method keeps the database well formed and every change of status is an edge of the
  program's state machine: along any sequence of calls a job's row never disappears, its status
  moves only along \<open>CanTransition\<close>, its epoch never decreases, and its identifier, type,
  queue, priority, payload, key and attempt budget never change.
\<close>

theorem runs_are_lifecycles:
  assumes "db_wf d" and "store_run d d'" and "job_at d i = Some r"
  shows "db_wf d' \<and> (\<exists>r'. job_at d' i = Some r' \<and> lifecycle (r_status r) (r_status r')
    \<and> r_lease_epoch r \<le> r_lease_epoch r' \<and> r_type r' = r_type r \<and> r_queue r' = r_queue r
    \<and> r_priority r' = r_priority r \<and> r_payload r' = r_payload r
    \<and> r_idempotency_key r' = r_idempotency_key r \<and> r_max_attempts r' = r_max_attempts r)"
proof
  let ?Q = "\<lambda>r'. lifecycle (r_status r) (r_status r') \<and> r_lease_epoch r \<le> r_lease_epoch r'
    \<and> r_type r' = r_type r \<and> r_queue r' = r_queue r \<and> r_priority r' = r_priority r
    \<and> r_payload r' = r_payload r \<and> r_idempotency_key r' = r_idempotency_key r
    \<and> r_max_attempts r' = r_max_attempts r"
  show "db_wf d'" by (rule store_run_wf [OF assms(2,1)])
  have "?Q r" by (simp add: lifecycle_refl)
  moreover have "?Q y" if "row_step x y" and "?Q x" for x y
    using that row_step_frame [of x y] row_step_epoch [of x y] row_step_status [of x y]
    by (auto intro: lifecycle_step)
  ultimately show "\<exists>r'. job_at d' i = Some r' \<and> ?Q r'"
    using store_run_row [of d d' i r ?Q, OF assms(2,3)] by blast
qed

theorem runs_are_lifecycles_witness:
  "\<exists>r'. job_at (snd (FailJob (Late Canceled) ''j1'' 2 ''bad'' demo_db)) ''j1'' = Some r'
     \<and> lifecycle StatusRunning (r_status r')"
  using runs_are_lifecycles [OF demo_db_wf store_run_1 [OF step_FailJob] demo_job_at,
      of "Late Canceled" "''j1''" 2 "''bad''"]
  by (auto simp: demo_row_def)

text \<open>
  Results are final. A row that is COMPLETED, FAILED or CANCELLED keeps its status, result,
  error, attempt count and completion time through any sequence of calls.
\<close>

lemma final_rows_never_change:
  assumes "final_row r" and "job_at d i = Some r" and "store_run d d'"
  shows "\<exists>r'. job_at d' i = Some r' \<and> r_status r' = r_status r \<and> r_result r' = r_result r
    \<and> r_error r' = r_error r \<and> r_attempt_count r' = r_attempt_count r
    \<and> r_completed_at r' = r_completed_at r"
proof -
  let ?Q = "\<lambda>r'. r_status r' = r_status r \<and> r_result r' = r_result r \<and> r_error r' = r_error r
    \<and> r_attempt_count r' = r_attempt_count r \<and> r_completed_at r' = r_completed_at r"
  have "?Q y" if "row_step x y" and "?Q x" for x y
    using that row_step_final [of x y] assms(1) by (simp add: final_row_def)
  then show ?thesis
    using store_run_row [of d d' i r ?Q, OF assms(3,2)] by blast
qed

text \<open>
  C7. Claims are exclusive. Two successful claims of one job, at any two moments of a run, carry
  strictly increasing epochs; the second one leaves the row owned by its own worker and epoch,
  and the first owner's writes are refused from then on.
\<close>

theorem claims_exclusive:
  assumes "db_wf d" and "ClaimJob ft i w ttl d = (Inr (Some c), d1)" and "store_run d1 d2"
    and "ClaimJob ft' i w' ttl' d2 = (Inr (Some c'), d3)"
  shows "c_Epoch c < c_Epoch c'
    \<and> (\<exists>r. job_at d3 i = Some r \<and> fenced i (c_Epoch c') r \<and> r_worker_id r = Some w'
         \<and> r_attempt_count r = c_Attempt c')
    \<and> fst (owner_call jsonb fo fe i (c_Epoch c) u d3) \<noteq> Inr True"
proof -
  have wf1: "db_wf d1" using store_step_wf [OF step_ClaimJob assms(1)] assms(2) by (metis snd_conv)
  have wf2: "db_wf d2" by (rule store_run_wf [OF assms(3) wf1])
  have wf3: "db_wf d3" using store_step_wf [OF step_ClaimJob wf2] assms(4) by (metis snd_conv)
  from ClaimJob_owner [OF assms(1,2)] obtain r1
    where r1: "job_at d1 i = Some r1" "fenced i (c_Epoch c) r1" by metis
  have "c_Epoch c \<le> r_lease_epoch r1" using r1(2) by (simp add: fenced_def)
  from store_run_epoch [OF assms(3) r1(1) this] obtain r2
    where r2: "job_at d2 i = Some r2" "c_Epoch c \<le> r_lease_epoch r2" .
  from ClaimJob_Some [OF wf2 assms(4)] obtain x
    where "job_at d2 i = Some x" "c_Epoch c' = r_lease_epoch x + 1" .
  with r2 have lt: "c_Epoch c < c_Epoch c'" by simp
  from ClaimJob_owner [OF wf2 assms(4)] obtain r3 where r3: "job_at d3 i = Some r3"
    "fenced i (c_Epoch c') r3" "r_worker_id r3 = Some w'" "r_attempt_count r3 = c_Attempt c'" .
  with lt have "spent (c_Epoch c) r3" by (simp add: spent_def fenced_def)
  with r3 lt owner_call_spent [OF wf3] show ?thesis by blast
qed

text \<open>Witness: the first owner's attempt is retried, and the job is claimed again.\<close>

definition demo_pending :: db where
  "demo_pending = demo_db\<lparr>jobs := [demo_row\<lparr>r_status := StatusPending, r_lease_expires_at := None\<rparr>]\<rparr>"

lemma demo_pending_wf [simp]: "db_wf demo_pending"
  by (simp add: demo_pending_def demo_db_def demo_row_def db_wf_def row_wf_def Terminal_def
      Priority_Valid_def PriorityHigh_def)

definition demo_claimed :: db where
  "demo_claimed = snd (ClaimJob Good ''j1'' ''w2'' 30 demo_pending)"

definition demo_retried :: db where
  "demo_retried = snd (store_ScheduleRetry Good Good ''j1'' 3 ''x'' 7 demo_claimed)"

theorem claims_exclusive_witness:
  "fst (owner_call Some Good Good ''j1'' 3 (WComplete ''1'')
     (snd (ClaimJob Good ''j1'' ''w3'' 30 demo_retried))) \<noteq> Inr True"
proof -
  let ?c = "\<lambda>n. \<lparr>c_Epoch = n, c_Attempt = n, c_MaxAttempts = 3, c_StartedAt = 100\<rparr>"
  note eval = demo_retried_def demo_claimed_def demo_pending_def demo_db_def demo_row_def ClaimJob_def
    store_ScheduleRetry_def event_if_applied_def addEvent_def insert_event_def job_at_def
    exec_fenced_def fenced_def update_jobs_def update_jobs_returning_def update_where_def
    rows_affected_def sql_defs
  have a: "ClaimJob Good ''j1'' ''w2'' 30 demo_pending = (Inr (Some (?c 3)), demo_claimed)"
    by (simp add: eval)
  have r: "store_run demo_claimed demo_retried"
    unfolding demo_retried_def by (rule store_run_1 [OF step_ScheduleRetry])
  have b: "ClaimJob Good ''j1'' ''w3'' 30 demo_retried
    = (Inr (Some (?c 4)), snd (ClaimJob Good ''j1'' ''w3'' 30 demo_retried))"
    by (simp add: eval)
  from claims_exclusive [OF demo_pending_wf a r b, of Some Good Good "WComplete ''1''"]
  show ?thesis by simp
qed

lemma find_same_key:
  assumes "db_wf d" and "job_at d i = Some r" and "r_type r = t" and "r_idempotency_key r = Some k"
  shows "find (\<lambda>x. r_type x = t \<and> r_idempotency_key x = Some k) (jobs d) = Some r"
proof -
  have r: "r \<in> set (jobs d)" using assms(2) by (auto simp: job_at_def dest: find_row_Some)
  with assms(3,4) obtain x where x: "find (\<lambda>x. r_type x = t \<and> r_idempotency_key x = Some k) (jobs d) = Some x"
    by (metis (mono_tags, lifting) find_None_iff option.exhaust)
  then have "x \<in> set (jobs d)" "r_type x = t" "r_idempotency_key x = Some k"
    by (auto simp: find_Some_iff)
  with r assms have "x = r" by (simp add: db_wf_def same_key_def)
  with x show ?thesis by simp
qed

lemma store_run_key:
  assumes "store_run d d'" and "job_at d i = Some r"
  obtains r' where "job_at d' i = Some r'" and "r_type r' = r_type r"
    and "r_idempotency_key r' = r_idempotency_key r"
proof (rule store_run_row [of d d' i r
      "\<lambda>x. r_type x = r_type r \<and> r_idempotency_key x = r_idempotency_key r", OF assms])
  fix x y assume "row_step x y" and "r_type x = r_type r \<and> r_idempotency_key x = r_idempotency_key r"
  then show "r_type y = r_type r \<and> r_idempotency_key y = r_idempotency_key r"
    using row_step_frame [of x y] by simp
qed (use that in auto)

text \<open>
  C17. Submission is idempotent. Once a job with an idempotency key is stored, after any sequence
  of calls a submission of the same type and key returns that job (its identifier, whatever its
  status by then) with \<open>created = False\<close> and leaves the database as it was; so no two jobs ever
  share a type and a key.
\<close>

theorem submission_idempotent:
  assumes "db_wf d" and "job_at d i = Some r" and "r_idempotency_key r = Some k" and "k \<noteq> []"
    and "store_run d d'"
    and "j_Type j = r_type r" and "j_IdempotencyKey j = k" and "Priority_Valid (j_Priority j)"
    and "jsonb (if length (j_Payload j) > 0 then j_Payload j else ''null'') \<noteq> None"
  shows "\<exists>r'. job_at d' i = Some r' \<and> CreateJob jsonb Good Good j d' = (Inr (scanJob r', False), d')
    \<and> j_ID (scanJob r') = i"
proof -
  from store_run_key [OF assms(5,2)] assms(3) obtain r'
    where r': "job_at d' i = Some r'" "r_type r' = r_type r" "r_idempotency_key r' = Some k" by metis
  have wf: "db_wf d'" by (rule store_run_wf [OF assms(5,1)])
  have "r' \<in> set (jobs d')" and i: "r_id r' = i" using r'(1) by (auto simp: job_at_def dest: find_row_Some)
  then have "list_ex (key_conflict j) (jobs d')"
    using r' assms by (auto simp: list_ex_iff key_conflict_def)
  moreover have "find (\<lambda>x. r_type x = j_Type j \<and> r_idempotency_key x = Some k) (jobs d') = Some r'"
    using find_same_key [OF wf r'(1)] r' assms(6) by simp
  ultimately have "CreateJob jsonb Good Good j d' = (Inr (scanJob r', False), d')"
    using assms by (auto simp: CreateJob_def Let_def insert_job_def getJobBy_def)
  with r'(1) i show ?thesis by (auto simp: scanJob_def)
qed

definition demo_job :: job where
  "demo_job = (scanJob demo_row)\<lparr>j_ID := ''j2'', j_Status := StatusPending\<rparr>"

theorem submission_idempotent_witness:
  "CreateJob Some Good Good demo_job demo_retried = (Inr (scanJob (retry_set ''x'' 7 100 (claim_set ''w2'' 30 100
     (demo_row\<lparr>r_status := StatusPending, r_lease_expires_at := None\<rparr>))), False), demo_retried)"
proof -
  let ?r = "demo_row\<lparr>r_status := StatusPending, r_lease_expires_at := None\<rparr>"
  have at: "job_at demo_pending ''j1'' = Some ?r"
    by (simp add: demo_pending_def job_at_def demo_row_def)
  have run: "store_run demo_pending demo_retried"
    unfolding demo_retried_def demo_claimed_def
    by (rule run_step [OF run_step [OF run_refl step_ClaimJob] step_ScheduleRetry])
  have fin: "job_at demo_retried ''j1'' = Some (retry_set ''x'' 7 100 (claim_set ''w2'' 30 100 ?r))"
    by (simp add: demo_retried_def demo_claimed_def demo_pending_def demo_db_def demo_row_def ClaimJob_def
        store_ScheduleRetry_def event_if_applied_def addEvent_def insert_event_def job_at_def
        exec_fenced_def fenced_def update_jobs_def update_jobs_returning_def update_where_def
        rows_affected_def sql_defs)
  from submission_idempotent [OF demo_pending_wf at _ _ run, of "''k1''" demo_job Some] fin
  show ?thesis
    by (simp add: demo_job_def demo_row_def scanJob_def Priority_Valid_def PriorityHigh_def)
qed

end
