(* ===== verification/Batch_Props.thy ===== *)
theory Batch_Props
  imports Store_Props
begin

text \<open>
  What recording guarantees. The locale \<open>recorder\<close> is the contract of the interface
  \<^verbatim>\<open>Recorder\<close> of \<^verbatim>\<open>internal/store/batch.go\<close> that the runner relies on; it is interpreted on the
  immediate recorder and on a flush of the batcher. A batch refines the sequence of the
  immediate calls, and the batcher's loop hands every operation to exactly one flush.
\<close>

section \<open>The contract\<close>

text \<open>
  A recorder only makes store calls, and when it returns without an error the record is durable:
  the owner named by the operation can never write again.
\<close>

locale recorder =
  fixes rec :: "op \<Rightarrow> db \<Rightarrow> bool res \<times> db"
  assumes rec_run: "store_run d (snd (rec p d))"
    and rec_durable: "db_wf d \<Longrightarrow> job_at d (b_id p) = Some r \<Longrightarrow> b_epoch p \<le> r_lease_epoch r \<Longrightarrow>
      rec p d = (Inr b, d') \<Longrightarrow> \<exists>r'. job_at d' (b_id p) = Some r' \<and> spent (b_epoch p) r'"
begin

lemma rec_wf: "db_wf d \<Longrightarrow> db_wf (snd (rec p d))"
  using rec_run store_run_wf by blast

lemma rec_final:
  assumes "db_wf d" and "job_at d (b_id p) = Some r" and "b_epoch p \<le> r_lease_epoch r"
    and "rec p d = (Inr b, d')" and "store_run d' d''"
  shows "fst (owner_call jsonb ft fe (b_id p) (b_epoch p) w d'') \<noteq> Inr True"
proof -
  from rec_durable [OF assms(1-4)] obtain r'
    where r': "job_at d' (b_id p) = Some r'" "spent (b_epoch p) r'" by blast
  from store_run_spent [OF assms(5) this] obtain r''
    where "job_at d'' (b_id p) = Some r''" and "spent (b_epoch p) r''" .
  moreover have "db_wf d''"
    using store_run_wf [OF assms(5)] rec_wf [OF assms(1), of p] assms(4) by simp
  ultimately show ?thesis using owner_call_spent by blast
qed

end

text \<open>The contract extended: recording never makes a row an obligation of the queue.\<close>

locale quiet_recorder = recorder +
  assumes rec_quiet: "quiet d (snd (rec p d))"

section \<open>The immediate recorder\<close>

primrec kind_write :: "opKind \<Rightarrow> op \<Rightarrow> owner_write" where
  "kind_write opComplete p = WComplete (b_result p)"
| "kind_write opFail p = WFail (b_errMsg p)"
| "kind_write opRetry p = WRetry (b_errMsg p) (b_nextAt p)"
| "kind_write opDead p = WDead (b_errMsg p)"
| "kind_write opCancel p = WCancel"

lemma sync_write_owner_call:
  "sync_write jsonb F p d =
    owner_call jsonb (f_write F) (f_event F) (b_id p) (b_epoch p) (kind_write (b_kind p) p) d"
  by (cases "b_kind p") (simp_all add: sync_write_def)

lemma kind_write_finishing: "finishing (kind_write k p)"
  by (cases k) (simp_all add: finishing_def)

lemma exec_fenced_refused:
  assumes "db_wf d" and "exec_fenced ft m i e f d = (Inr False, d')"
  shows "d' = d" and "job_at d i = Some r \<Longrightarrow> \<not> fenced i e r"
proof -
  have rows: "rows_affected (fenced i e) (jobs d) \<noteq> 1"
    and d': "d' = d\<lparr>jobs := update_where (fenced i e) (f (db_now d)) (jobs d)\<rparr>"
    using assms(2) by (auto simp: exec_fenced_def update_jobs_def dest!: exec_stmt_Inr)
  have le1: "rows_affected (fenced i e) (jobs d) =
      (case job_at d i of None \<Rightarrow> 0
       | Some r \<Rightarrow> if r_lease_epoch r = e \<and> r_status r = StatusRunning then 1 else 0)"
    using assms(1) rows_affected_key
      [of r_id "jobs d" i "\<lambda>r. r_lease_epoch r = e \<and> r_status r = StatusRunning"]
    by (simp add: db_wf_def job_at_def fenced_def [abs_def])
  with rows have "rows_affected (fenced i e) (jobs d) = 0" by (auto split: option.splits if_splits)
  with d' show "d' = d" by (simp add: table_simps)
  show "\<not> fenced i e r" if "job_at d i = Some r"
    using that rows le1 by (auto simp: fenced_def)
qed

lemma owner_call_refused:
  assumes "db_wf d" and "owner_call jsonb ft fe i e w d = (Inr False, d')" and "job_at d i = Some r"
  shows "\<not> fenced i e r"
proof -
  have ev: "\<not> fenced i e r" if "event_if_applied fe i ev dt (exec_fenced ft m i e f d) = (Inr False, d')"
    for ev dt m f
  proof -
    have "fst (exec_fenced ft m i e f d) = Inr False"
      using that event_if_applied_state(2) [of fe i ev dt "exec_fenced ft m i e f d"] by simp
    then show ?thesis
      using exec_fenced_refused(2) [OF assms(1) _ assms(3)] by (metis prod.collapse)
  qed
  show ?thesis
    using assms(2)
    by (cases w) (auto simp: owner_defs split: option.splits dest: ev exec_fenced_refused(2) [OF assms(1) _ assms(3)])
qed

lemma not_fenced_spent:
  "job_at d i = Some r \<Longrightarrow> e \<le> r_lease_epoch r \<Longrightarrow> \<not> fenced i e r \<Longrightarrow> spent e r"
  by (auto simp: fenced_def spent_def job_at_def dest: find_row_Some)

lemma SyncRecorder_run: "store_run d (snd (SyncRecorder jsonb F p d))"
proof (cases "sync_write jsonb F p d")
  case (Pair x d')
  then have s: "store_step d d'"
    using owner_call_step sync_write_owner_call by (metis snd_conv)
  show ?thesis
    by (cases x) (use s in \<open>auto simp: SyncRecorder_def Pair intro: store_run_1
      run_step [OF store_run_1 step_RecordAttempt]\<close>)
qed

interpretation sync: recorder "SyncRecorder jsonb F" for jsonb F
proof
  fix d p r b d'
  show "store_run d (snd (SyncRecorder jsonb F p d))" by (rule SyncRecorder_run)
  assume wf: "db_wf d" and r: "job_at d (b_id p) = Some r" and e: "b_epoch p \<le> r_lease_epoch r"
    and ret: "SyncRecorder jsonb F p d = (Inr b, d')"
  let ?w = "kind_write (b_kind p) p"
  from ret obtain d1 where w: "owner_call jsonb (f_write F) (f_event F) (b_id p) (b_epoch p) ?w d = (Inr b, d1)"
    and d': "d' = snd (RecordAttempt (f_attempt F) (b_att p) d1)"
    by (auto simp: SyncRecorder_def sync_write_owner_call split: prod.splits sum.splits)
  have "\<exists>r'. job_at d1 (b_id p) = Some r' \<and> spent (b_epoch p) r'"
  proof (cases b)
    case True
    with w owner_call_applied [OF wf] finish_target_spent [OF kind_write_finishing]
    show ?thesis by metis
  next
    case False
    with w have "owner_call jsonb (f_write F) (f_event F) (b_id p) (b_epoch p) ?w d = (Inr False, d1)"
      by simp
    from owner_call_refused [OF wf this r] have "spent (b_epoch p) r" by (rule not_fenced_spent [OF r e])
    moreover have "evolves d d1" using store_step_evolves [OF owner_call_step] w by (metis snd_conv)
    ultimately show ?thesis using evolves_Some [OF _ r] row_step_spent by metis
  qed
  then show "\<exists>r'. job_at d' (b_id p) = Some r' \<and> spent (b_epoch p) r'"
    by (simp add: d' job_at_def)
qed

interpretation sync: quiet_recorder "SyncRecorder jsonb F" for jsonb F
proof
  fix d p
  obtain x d1 where w: "sync_write jsonb F p d = (x, d1)" by fastforce
  then have "quiet d d1" using quiet_owner_call by (metis snd_conv sync_write_owner_call)
  then show "quiet d (snd (SyncRecorder jsonb F p d))"
    by (cases x) (auto simp: SyncRecorder_def w intro: quiet_trans quiet_RecordAttempt)
qed

section \<open>A flush\<close>

lemma quiet_batch_complete: "quiet d (snd (batch_complete jsonb err ops d))"
proof -
  have "quiet d (d\<lparr>jobs := update_where (\<lambda>r. complete_of ops r \<noteq> None) (batch_complete_set jsonb ops (db_now d)) (jobs d)\<rparr>)"
  proof (rule quiet_update [where p = "\<lambda>r. complete_of ops r \<noteq> None"])
    show "r_id (batch_complete_set jsonb ops (db_now d) r) = r_id r" for r
      by (simp add: batch_complete_set_def complete_set_def split: option.split)
    show "obliged r" if "obliged (batch_complete_set jsonb ops (db_now d) r)" for r
      using that by (auto simp: batch_complete_set_def complete_set_def obliged_def split: option.splits)
  qed simp
  then show ?thesis by (simp add: batch_complete_def split: option.split)
qed

lemma quiet_batch_op: "quiet d (snd (update_jobs (fenced (b_id p) (b_epoch p)) (op_set p (db_now d)) d))"
  by (rule quiet_update [of _ "fenced (b_id p) (b_epoch p)" "op_set p (db_now d)"];
      cases "b_kind p") (simp_all add: update_jobs_def op_set_def quiet_rows)


lemma store_run_snd: "store_step d (snd x) \<Longrightarrow> x = (a, d') \<Longrightarrow> store_run d d'"
  by (auto intro: store_run_1)

lemma batch_ops_run: "batch_ops errs ok n ops d = (x, d') \<Longrightarrow> store_run d d'"
proof (induction errs ok n ops d arbitrary: x d' rule: batch_ops.induct)
  case (1 errs ok n d)
  then show ?case by (simp add: run_refl)
next
  case (2 errs ok n p ps d)
  let ?d1 = "snd (update_jobs (fenced (b_id p) (b_epoch p)) (op_set p (db_now d)) d)"
  have s: "store_run d ?d1" by (rule store_run_1 [OF step_batch_op])
  show ?case
  proof (cases "b_kind p = opComplete")
    case True
    with 2 show ?thesis by (auto split: prod.splits sum.splits)
  next
    case False
    show ?thesis
    proof (cases "errs n")
      case None
      obtain y d2 where y: "batch_ops errs ok (Suc n) ps ?d1 = (y, d2)" by fastforce
      then have "store_run ?d1 d2" using 2(2) [OF False None] by (simp add: update_jobs_def)
      moreover have "d' = d2"
        using 2(3) False None y by (auto simp: update_jobs_def split: prod.splits sum.splits)
      ultimately show ?thesis using s store_run_trans by blast
    next
      case (Some e)
      with 2(3) False show ?thesis by (simp add: run_refl)
    qed
  qed
qed

lemma batch_ops_quiet: "batch_ops errs ok n ops d = (x, d') \<Longrightarrow> quiet d d'"
proof (induction ops arbitrary: n d x d')
  case (Cons p ps)
  let ?d1 = "snd (update_jobs (fenced (b_id p) (b_epoch p)) (op_set p (db_now d)) d)"
  show ?case
  proof (cases "b_kind p = opComplete \<or> errs n \<noteq> None")
    case True
    with Cons show ?thesis by (auto split: prod.splits sum.splits if_splits)
  next
    case False
    obtain y d2 where y: "batch_ops errs ok (Suc n) ps ?d1 = (y, d2)" by fastforce
    with False Cons.prems have "d' = d2" by (auto simp: update_jobs_def split: prod.splits sum.splits)
    with Cons.IH [OF y] quiet_batch_op [of d p] show ?thesis using quiet_trans by blast
  qed
qed simp

lemma flushOnce_Inr:
  assumes "flushOnce jsonb F ops d = (Inr applied, d')"
  obtains okIDs d1 d2 d3 where "batch_complete jsonb (x_complete F) ops d = (Inr okIDs, d1)"
    and "batch_ops (x_op F) okIDs 0 ops d1 = (Inr applied, d2)"
    and "batch_attempts (x_attempts F) ops d2 = (Inr (), d3)"
    and "batch_events (x_events F) (zip ops applied) d3 = (Inr (), d')"
  using assms
  by (auto simp: flushOnce_def split: option.splits prod.splits sum.splits fault.splits)

lemma flushOnce_changed:
  assumes "flushOnce jsonb F ops d = (x, d')" and "d' \<noteq> d"
  obtains okIDs d1 d2 d3 applied where "batch_complete jsonb (x_complete F) ops d = (Inr okIDs, d1)"
    and "batch_ops (x_op F) okIDs 0 ops d1 = (Inr applied, d2)"
    and "batch_attempts (x_attempts F) ops d2 = (Inr (), d3)"
    and "batch_events (x_events F) (zip ops applied) d3 = (Inr (), d')"
  using assms
  by (auto simp: flushOnce_def split: option.splits prod.splits sum.splits fault.splits)

lemma tx_run:
  assumes "batch_complete jsonb ec ops d = (x1, d1)" and "batch_ops errs ok n ops d1 = (x2, d2)"
    and "batch_attempts ea ops d2 = (x3, d3)" and "batch_events ee xs d3 = (x4, d4)"
  shows "store_run d1 d2 \<and> store_run d2 d4 \<and> store_run d d4"
proof -
  have "store_run d d1" by (rule store_run_snd [OF step_batch_complete assms(1)])
  moreover have "store_run d1 d2" by (rule batch_ops_run [OF assms(2)])
  moreover have "store_run d2 d4"
    using store_run_snd [OF step_batch_attempts assms(3)] store_run_snd [OF step_batch_events assms(4)]
    by (rule store_run_trans [rotated])
  ultimately show ?thesis using store_run_trans by blast
qed

lemma flushOnce_run: "store_run d (snd (flushOnce jsonb F ops d))"
proof (cases "snd (flushOnce jsonb F ops d) = d")
  case False
  then show ?thesis
    by (rule flushOnce_changed [OF prod.collapse [symmetric]]) (use tx_run in blast)
qed (simp add: run_refl)

lemma flushOnce_quiet: "quiet d (snd (flushOnce jsonb F ops d))"
proof (cases "snd (flushOnce jsonb F ops d) = d")
  case False
  then show ?thesis
  proof (rule flushOnce_changed [OF prod.collapse [symmetric]])
    fix okIDs d1 d2 d3 applied
    assume 1: "batch_complete jsonb (x_complete F) ops d = (Inr okIDs, d1)"
      and 2: "batch_ops (x_op F) okIDs 0 ops d1 = (Inr applied, d2)"
      and 3: "batch_attempts (x_attempts F) ops d2 = (Inr (), d3)"
      and 4: "batch_events (x_events F) (zip ops applied) d3 = (Inr (), snd (flushOnce jsonb F ops d))"
    have "quiet d d1" using quiet_batch_complete 1 by (metis snd_conv)
    moreover have "quiet d1 d2" by (rule batch_ops_quiet [OF 2])
    moreover have "jobs (snd (flushOnce jsonb F ops d)) = jobs d2"
      using 3 4 jobs_batch_attempts batch_events_tables(1) by (metis snd_conv)
    then have "quiet d2 (snd (flushOnce jsonb F ops d))" by (rule quiet_same_jobs)
    ultimately show ?thesis using quiet_trans by blast
  qed
qed simp

text \<open>After its statement an operation's owner is spent.\<close>

lemma update_fenced_spent:
  assumes "job_at d i = Some r" and "e \<le> r_lease_epoch r"
    and "\<And>x. r_id (f x) = r_id x \<and> r_lease_epoch (f x) = r_lease_epoch x"
    and "\<And>x. r_status (f x) \<noteq> StatusRunning"
  shows "\<exists>r'. job_at (snd (update_jobs (fenced i e) f d)) i = Some r' \<and> spent e r'"
proof -
  have "job_at (snd (update_jobs (fenced i e) f d)) i = Some (if fenced i e r then f r else r)"
    using assms(1,3) by (simp add: update_jobs_def job_at_def table_simps)
  moreover have "spent e (if fenced i e r then f r else r)"
    using assms(2-4) not_fenced_spent [OF assms(1,2)] by (auto simp: spent_def)
  ultimately show ?thesis by blast
qed

lemma op_set_props:
  "r_id (op_set p now x) = r_id x \<and> r_lease_epoch (op_set p now x) = r_lease_epoch x"
  "b_kind p \<noteq> opComplete \<Longrightarrow> r_status (op_set p now x) \<noteq> StatusRunning"
  by (cases "b_kind p"; simp add: op_set_def row_sets)+

lemma batch_ops_spent:
  assumes "batch_ops errs ok n ops d = (Inr bs, d')" and "p \<in> set ops" and "b_kind p \<noteq> opComplete"
    and "job_at d (b_id p) = Some r" and "b_epoch p \<le> r_lease_epoch r"
  shows "\<exists>r'. job_at d' (b_id p) = Some r' \<and> spent (b_epoch p) r'"
  using assms
proof (induction ops arbitrary: n d bs r)
  case (Cons q ps)
  show ?case
  proof (cases "b_kind q = opComplete")
    case True
    with Cons show ?thesis by (auto split: prod.splits sum.splits)
  next
    case False
    let ?d1 = "snd (update_jobs (fenced (b_id q) (b_epoch q)) (op_set q (db_now d)) d)"
    from Cons.prems(1) False obtain cs where rest: "batch_ops errs ok (Suc n) ps ?d1 = (Inr cs, d')"
      by (auto simp: update_jobs_def split: option.splits prod.splits sum.splits)
    show ?thesis
    proof (cases "p = q")
      case True
      have "\<exists>r1. job_at ?d1 (b_id p) = Some r1 \<and> spent (b_epoch p) r1"
        unfolding True by (rule update_fenced_spent) (use Cons.prems True False op_set_props in auto)
      then show ?thesis using store_run_spent [OF batch_ops_run [OF rest]] by metis
    next
      case other: False
      from store_run_epoch [OF store_run_1 [OF step_batch_op] Cons.prems(4,5)] obtain r1
        where r1: "job_at ?d1 (b_id p) = Some r1" "b_epoch p \<le> r_lease_epoch r1" .
      from other Cons.prems(2) have "p \<in> set ps" by simp
      from Cons.IH [OF rest this Cons.prems(3) r1] show ?thesis .
    qed
  qed
qed simp

lemma batch_complete_spent:
  assumes "batch_complete jsonb err ops d = (Inr ok, d')" and "p \<in> set ops" and "b_kind p = opComplete"
    and "job_at d (b_id p) = Some r" and "b_epoch p \<le> r_lease_epoch r"
  shows "\<exists>r'. job_at d' (b_id p) = Some r' \<and> spent (b_epoch p) r'"
proof -
  have d': "d' = d\<lparr>jobs := update_where (\<lambda>r. complete_of ops r \<noteq> None)
      (batch_complete_set jsonb ops (db_now d)) (jobs d)\<rparr>"
    and ok: "\<not> list_ex (\<lambda>r. case complete_of ops r of None \<Rightarrow> False | Some p \<Rightarrow> jsonb (b_result p) = None) (jobs d)"
    using assms(1-3) by (auto simp: batch_complete_def list_ex_iff split: if_splits option.splits)
  have keep: "r_id (batch_complete_set jsonb ops now x) = r_id x" for now x
    by (simp add: batch_complete_set_def complete_set_def split: option.split)
  show ?thesis
  proof (cases "complete_of ops r")
    case None
    then have "\<not> fenced (b_id p) (b_epoch p) r"
      using assms(2,3) by (auto simp: complete_of_def find_None_iff)
    then have "spent (b_epoch p) r" by (rule not_fenced_spent [OF assms(4,5)])
    then show ?thesis using assms(4) None keep by (simp add: d' job_at_def table_simps)
  next
    case (Some q)
    have "r \<in> set (jobs d)" using assms(4) by (auto simp: job_at_def dest: find_row_Some)
    with ok Some obtain x where x: "jsonb (b_result q) = Some x"
      by (auto simp: list_ex_iff split: option.splits)
    have "spent (b_epoch p) (complete_set x (db_now d) r)"
      using assms(5) by (auto simp: spent_def complete_set_def)
    moreover have "job_at d' (b_id p) = Some (complete_set x (db_now d) r)"
      using assms(4) Some x keep by (simp add: d' job_at_def table_simps batch_complete_set_def)
    ultimately show ?thesis by blast
  qed
qed

lemma flushOnce_spent:
  assumes "flushOnce jsonb F ops d = (Inr applied, d')" and "p \<in> set ops"
    and "job_at d (b_id p) = Some r" and "b_epoch p \<le> r_lease_epoch r"
  shows "\<exists>r'. job_at d' (b_id p) = Some r' \<and> spent (b_epoch p) r'"
proof (rule flushOnce_Inr [OF assms(1)])
  fix ok d1 d2 d3
  assume 1: "batch_complete jsonb (x_complete F) ops d = (Inr ok, d1)"
    and 2: "batch_ops (x_op F) ok 0 ops d1 = (Inr applied, d2)"
    and 3: "batch_attempts (x_attempts F) ops d2 = (Inr (), d3)"
    and 4: "batch_events (x_events F) (zip ops applied) d3 = (Inr (), d')"
  note run = tx_run [OF 1 2 3 4]
  show ?thesis
  proof (cases "b_kind p = opComplete")
    case True
    from batch_complete_spent [OF 1 assms(2) True assms(3,4)] run show ?thesis
      using store_run_spent store_run_trans by metis
  next
    case False
    from store_run_epoch [OF store_run_snd [OF step_batch_complete 1] assms(3,4)] obtain r1
      where "job_at d1 (b_id p) = Some r1" "b_epoch p \<le> r_lease_epoch r1" .
    from batch_ops_spent [OF 2 assms(2) False this] run show ?thesis
      using store_run_spent by metis
  qed
qed

lemma batch_ops_length: "batch_ops errs ok n ops d = (Inr bs, d') \<Longrightarrow> length bs = length ops"
  by (induction ops arbitrary: n d bs)
    (auto simp: Let_def split: if_splits option.splits prod.splits sum.splits)

lemma flushOnce_length: "flushOnce jsonb F ops d = (Inr applied, d') \<Longrightarrow> length applied = length ops"
  by (rule flushOnce_Inr) (auto dest: batch_ops_length)

lemma flush_length: "flush jsonb F F' between ops d = (rs, d') \<Longrightarrow> length rs = length ops"
  by (auto simp: flush_def dest: flushOnce_length split: prod.splits sum.splits)

text \<open>One call of the batched recorder: its operation is flushed with those of others.\<close>

definition batch_record ::
  "(string \<Rightarrow> string option) \<Rightarrow> tx_faults \<Rightarrow> tx_faults \<Rightarrow> (db \<Rightarrow> db) \<Rightarrow> op list \<Rightarrow> op list \<Rightarrow> op \<Rightarrow> db \<Rightarrow> bool res \<times> db"
where
  "batch_record jsonb F F' between pre post p d =
    (case flush jsonb F F' between (pre @ p # post) d of (rs, d') \<Rightarrow> (rs ! length pre, d'))"

text \<open>What other processes do to the database meanwhile is a sequence of store calls.\<close>

locale interference =
  fixes between :: "db \<Rightarrow> db"
  assumes between_run: "store_run d (between d)"
begin

lemma flush_run: "store_run d (snd (flush jsonb F F' between ops d))"
proof -
  obtain x d1 where 1: "flushOnce jsonb F ops d = (x, d1)" by fastforce
  obtain y d2 where 2: "flushOnce jsonb F' ops (between d1) = (y, d2)" by fastforce
  have r1: "store_run d d1" using flushOnce_run [of d jsonb F ops] 1 by simp
  have "store_run (between d1) d2" using flushOnce_run [of "between d1" jsonb F' ops] 2 by simp
  then have "store_run d d2" using r1 between_run store_run_trans by blast
  with r1 show ?thesis by (cases x; cases y) (simp_all add: flush_def 1 2)
qed

lemma flush_spent:
  assumes "flush jsonb F F' between ops d = (rs, d')" and "k < length ops" and "rs ! k = Inr b"
    and "job_at d (b_id (ops ! k)) = Some r" and "b_epoch (ops ! k) \<le> r_lease_epoch r"
  shows "\<exists>r'. job_at d' (b_id (ops ! k)) = Some r' \<and> spent (b_epoch (ops ! k)) r'"
proof (cases "flushOnce jsonb F ops d")
  case (Pair x d1)
  show ?thesis
  proof (cases x)
    case (Inr a)
    with assms(1) Pair have "d' = d1" by (simp add: flush_def)
    with flushOnce_spent [of jsonb F ops d a d1] Pair Inr assms(2,4,5) show ?thesis by simp
  next
    case (Inl e)
    have "store_run d (between d1)"
      using flushOnce_run [of d jsonb F ops] Pair between_run store_run_trans by (metis snd_conv)
    from store_run_epoch [OF this assms(4,5)] obtain r1
      where r1: "job_at (between d1) (b_id (ops ! k)) = Some r1" "b_epoch (ops ! k) \<le> r_lease_epoch r1" .
    from assms(1,3) Pair Inl assms(2) obtain a where "flushOnce jsonb F' ops (between d1) = (Inr a, d')"
      by (auto simp: flush_def split: prod.splits sum.splits)
    from flushOnce_spent [OF this _ r1] assms(2) show ?thesis by simp
  qed
qed

lemma batch_recorder: "recorder (batch_record jsonb F F' between pre post)"
proof
  fix d p r b d'
  show "store_run d (snd (batch_record jsonb F F' between pre post p d))"
    using flush_run [of d jsonb F F' "pre @ p # post"] by (simp add: batch_record_def case_prod_beta)
  assume "job_at d (b_id p) = Some r" and "b_epoch p \<le> r_lease_epoch r"
    and "batch_record jsonb F F' between pre post p d = (Inr b, d')"
  then show "\<exists>r'. job_at d' (b_id p) = Some r' \<and> spent (b_epoch p) r'"
    using flush_spent [of jsonb F F' "pre @ p # post" d _ d' "length pre" b r]
    by (auto simp: batch_record_def split: prod.splits)
qed

end

sublocale interference \<subseteq> batch: recorder "batch_record jsonb F F' between pre post" for jsonb F F' pre post
  by (rule batch_recorder)

locale quiet_interference = interference +
  assumes between_quiet: "quiet d (between d)"
begin

lemma batch_quiet_recorder: "quiet_recorder (batch_record jsonb F F' between pre post)"
proof (intro quiet_recorder.intro batch_recorder quiet_recorder_axioms.intro)
  fix d p
  let ?ops = "pre @ p # post"
  obtain x d1 where 1: "flushOnce jsonb F ?ops d = (x, d1)" by fastforce
  obtain y d2 where 2: "flushOnce jsonb F' ?ops (between d1) = (y, d2)" by fastforce
  have r1: "quiet d d1" using flushOnce_quiet [of d jsonb F ?ops] 1 by simp
  have "quiet (between d1) d2" using flushOnce_quiet [of "between d1" jsonb F' ?ops] 2 by simp
  then have "quiet d d2" using r1 between_quiet quiet_trans by blast
  with r1 show "quiet d (snd (batch_record jsonb F F' between pre post p d))"
    by (cases x; cases y) (simp_all add: batch_record_def flush_def 1 2)
qed

end

sublocale quiet_interference \<subseteq> batch: quiet_recorder "batch_record jsonb F F' between pre post" for jsonb F F' pre post
  by (rule batch_quiet_recorder)

text \<open>The program's own calls are such interference.\<close>

interpretation reaping: quiet_interference "\<lambda>d. snd (ReapJob ft fe i delay grace d)" for ft fe i delay grace
  by unfold_locales (rule store_run_1 [OF step_ReapJob], rule quiet_ReapJob)

interpretation claiming: quiet_interference "\<lambda>d. snd (ClaimJob ft i w ttl d)" for ft i w ttl
  by unfold_locales (rule store_run_1 [OF step_ClaimJob], rule quiet_ClaimJob)

interpretation pausing: quiet_interference "\<lambda>d. d\<lparr>db_now := db_now d + dur\<rparr>" for dur
  by unfold_locales (rule store_run_1 [OF step_clock], rule quiet_same_jobs, simp)

section \<open>A batch is the sequence of its records\<close>

definition no_faults :: tx_faults where
  "no_faults = \<lparr> x_begin = None, x_complete = None, x_op = (\<lambda>_. None), x_attempts = None,
     x_events = None, x_commit = Good \<rparr>"

definition no_sync_faults :: sync_faults where
  "no_sync_faults = \<lparr> f_write = Good, f_event = Good, f_attempt = Good \<rparr>"

text \<open>The reference: the operations recorded one after the other.\<close>

primrec sync_all :: "(string \<Rightarrow> string option) \<Rightarrow> op list \<Rightarrow> db \<Rightarrow> bool res list \<times> db" where
  "sync_all jsonb [] d = ([], d)"
| "sync_all jsonb (p # ps) d =
    (let (x, d1) = SyncRecorder jsonb no_sync_faults p d; (xs, d2) = sync_all jsonb ps d1 in (x # xs, d2))"

definition op_applies :: "job_row list \<Rightarrow> op \<Rightarrow> bool" where
  "op_applies rows p = (case find_row r_id (b_id p) rows of None \<Rightarrow> False | Some r \<Rightarrow> fenced (b_id p) (b_epoch p) r)"

text \<open>What a list of operations with distinct jobs does to one row.\<close>

definition row_after :: "(string \<Rightarrow> string option) \<Rightarrow> op list \<Rightarrow> time \<Rightarrow> job_row \<Rightarrow> job_row" where
  "row_after jsonb ops now r =
    (case find (\<lambda>p. b_id p = r_id r) ops of
       None \<Rightarrow> r
     | Some p \<Rightarrow> if fenced (b_id p) (b_epoch p) r
                then owner_set jsonb (kind_write (b_kind p) p) now r else r)"

lemma row_after_id [simp]: "r_id (row_after jsonb ops now r) = r_id r"
  by (simp add: row_after_def owner_set_keeps split: option.split)

lemma row_after_Nil [simp]: "row_after jsonb [] now r = r"
  by (simp add: row_after_def)

lemma row_after_other:
  assumes "r_id r \<notin> b_id ` set ops"
  shows "row_after jsonb ops now r = r"
proof -
  have "find (\<lambda>p. b_id p = r_id r) ops = None"
    using assms unfolding find_None_iff by (metis imageI)
  then show ?thesis by (simp add: row_after_def)
qed

lemma row_after_Cons:
  assumes "b_id p \<notin> b_id ` set ps"
  shows "row_after jsonb (p # ps) now r = row_after jsonb ps now (row_after jsonb [p] now r)"
proof (cases "b_id p = r_id r")
  case True
  then have "row_after jsonb ps now (row_after jsonb [p] now r) = row_after jsonb [p] now r"
    using assms by (intro row_after_other) simp
  with True show ?thesis by (simp add: row_after_def)
next
  case False
  then have "row_after jsonb [p] now r = r" by (intro row_after_other) simp
  with False show ?thesis by (simp add: row_after_def)
qed

lemma op_applies_row_after:
  assumes "b_id q \<notin> b_id ` set ops"
  shows "op_applies (map (row_after jsonb ops now) rows) q = op_applies rows q"
proof (cases "find_row r_id (b_id q) rows")
  case (Some r)
  with assms have "row_after jsonb ops now r = r" by (intro row_after_other) (auto dest: find_row_Some)
  with Some show ?thesis by (simp add: op_applies_def find_row_map)
qed (simp add: op_applies_def find_row_map)

lemma update_fenced_row_after:
  "update_where (fenced (b_id p) (b_epoch p)) (owner_set jsonb (kind_write (b_kind p) p) now) rows
    = map (row_after jsonb [p] now) rows"
  by (auto simp: update_where_def row_after_def fenced_def)

lemma rows_affected_applies:
  assumes "distinct (map r_id rows)"
  shows "(rows_affected (fenced (b_id p) (b_epoch p)) rows = 1) = op_applies rows p"
  using rows_affected_key [OF assms, of "b_id p" "\<lambda>r. r_lease_epoch r = b_epoch p \<and> r_status r = StatusRunning"]
  by (auto simp: op_applies_def fenced_def [abs_def] dest: find_row_Some split: option.splits)

text \<open>The events compared: job, time and name.\<close>

definition event_view :: "event_row \<Rightarrow> string \<times> time \<times> string" where
  "event_view v = (v_job_id v, v_at v, v_event v)"

definition sync_event_rows :: "time \<Rightarrow> op \<Rightarrow> bool \<Rightarrow> (string \<times> time \<times> string) list" where
  "sync_event_rows now p applied = map event_view (batch_event_rows now [(p, applied)])"

definition sync_attempt_row :: "attempt \<Rightarrow> attempt_row" where
  "sync_attempt_row a =
    \<lparr> t_job_id = a_JobID a, t_attempt = a_Attempt a, t_worker_id = nullif_empty (a_WorkerID a),
      t_started_at = a_StartedAt a, t_finished_at = Some (a_FinishedAt a),
      t_outcome = a_Outcome a, t_error = nullif_empty (a_Error a) \<rparr>"

text \<open>A batch the program can build: finished attempts of stored jobs with valid results.\<close>

definition recordable :: "(string \<Rightarrow> string option) \<Rightarrow> db \<Rightarrow> op \<Rightarrow> bool" where
  "recordable jsonb d p =
    ((b_kind p = opComplete \<longrightarrow> b_result p \<noteq> [] \<and> jsonb (b_result p) \<noteq> None)
     \<and> a_JobID (b_att p) = b_id p \<and> job_at d (b_id p) \<noteq> None
     \<and> - (2 ^ 31) \<le> a_Attempt (b_att p) \<and> a_Attempt (b_att p) < 2 ^ 31)"

lemma exec_fenced_Good:
  "exec_fenced Good m i e f d =
    (Inr (rows_affected (fenced i e) (jobs d) = 1), d\<lparr>jobs := update_where (fenced i e) (f (db_now d)) (jobs d)\<rparr>)"
  by (simp add: exec_fenced_def update_jobs_def)

lemma event_if_applied_events:
  assumes "job_at d i \<noteq> None"
  shows "map event_view (job_events (snd (event_if_applied Good i ev dt (Inr b, d))))
    = map event_view (job_events d) @ (if b then [(i, db_now d, ev)] else [])"
    and "db_now (snd (event_if_applied Good i ev dt (Inr b, d))) = db_now d"
  using assms by (cases b; simp add: event_if_applied_def addEvent_def insert_event_def event_view_def)+

lemma sync_event_rows_eq:
  "sync_event_rows now p applied =
    (case op_event p of None \<Rightarrow> [] | Some (ev, _) \<Rightarrow> if applied then [(b_id p, now, ev)] else [])"
  by (auto simp: sync_event_rows_def batch_event_rows_def map_filter_def event_view_def split: option.split)

lemma recordable_result: "recordable jsonb d p \<Longrightarrow> b_kind p = opComplete \<Longrightarrow>
    (\<exists>x. jsonb (b_result p) = Some x) \<and> result_text (b_result p) = b_result p"
  by (auto simp: recordable_def result_text_def)

lemma job_at_update_fenced:
  assumes "\<And>x. r_id (f x) = r_id x"
  shows "(job_at (d\<lparr>jobs := update_where (fenced i e) f (jobs d)\<rparr>) k = None) = (job_at d k = None)"
  using assms by (simp add: job_at_def table_simps)

lemma sync_write_good:
  assumes "recordable jsonb d p"
  shows "fst (sync_write jsonb no_sync_faults p d) = Inr (rows_affected (fenced (b_id p) (b_epoch p)) (jobs d) = 1)"
    and "jobs (snd (sync_write jsonb no_sync_faults p d)) = map (row_after jsonb [p] (db_now d)) (jobs d)"
    and "job_attempts (snd (sync_write jsonb no_sync_faults p d)) = job_attempts d"
    and "map event_view (job_events (snd (sync_write jsonb no_sync_faults p d)))
      = map event_view (job_events d)
        @ sync_event_rows (db_now d) p (rows_affected (fenced (b_id p) (b_epoch p)) (jobs d) = 1)"
    and "db_now (snd (sync_write jsonb no_sync_faults p d)) = db_now d"
proof -
  note r = recordable_result [OF assms]
  have j: "job_at d (b_id p) \<noteq> None" using assms by (simp add: recordable_def)
  note defs = sync_write_owner_call no_sync_faults_def owner_defs exec_fenced_Good
    update_fenced_row_after [symmetric] sync_event_rows_eq op_event_def
  show "fst (sync_write jsonb no_sync_faults p d) = Inr (rows_affected (fenced (b_id p) (b_epoch p)) (jobs d) = 1)"
    using r by (cases "b_kind p") (auto simp: defs)
  show "jobs (snd (sync_write jsonb no_sync_faults p d)) = map (row_after jsonb [p] (db_now d)) (jobs d)"
    using r by (cases "b_kind p") (auto simp: defs)
  show "job_attempts (snd (sync_write jsonb no_sync_faults p d)) = job_attempts d"
    using r by (cases "b_kind p") (auto simp: defs)
  show "map event_view (job_events (snd (sync_write jsonb no_sync_faults p d)))
      = map event_view (job_events d)
        @ sync_event_rows (db_now d) p (rows_affected (fenced (b_id p) (b_epoch p)) (jobs d) = 1)"
    using r j by (cases "b_kind p") (auto simp: defs event_if_applied_events job_at_update_fenced row_sets)
  show "db_now (snd (sync_write jsonb no_sync_faults p d)) = db_now d"
    using r j by (cases "b_kind p") (auto simp: defs event_if_applied_events job_at_update_fenced row_sets)
qed


lemma recordable_cong:
  "map r_id (jobs d') = map r_id (jobs d) \<Longrightarrow> recordable jsonb d' p = recordable jsonb d p"
  by (auto simp: recordable_def job_at_def find_row_None simp flip: set_map)

lemma SyncRecorder_good:
  assumes "distinct (map r_id (jobs d))" and "recordable jsonb d p"
  shows "fst (SyncRecorder jsonb no_sync_faults p d) = Inr (op_applies (jobs d) p)"
    and "jobs (snd (SyncRecorder jsonb no_sync_faults p d)) = map (row_after jsonb [p] (db_now d)) (jobs d)"
    and "job_attempts (snd (SyncRecorder jsonb no_sync_faults p d))
      = insert_attempt (sync_attempt_row (b_att p)) (job_attempts d)"
    and "map event_view (job_events (snd (SyncRecorder jsonb no_sync_faults p d)))
      = map event_view (job_events d) @ sync_event_rows (db_now d) p (op_applies (jobs d) p)"
    and "db_now (snd (SyncRecorder jsonb no_sync_faults p d)) = db_now d"
proof -
  note w = sync_write_good [OF assms(2), unfolded rows_affected_applies [OF assms(1)]]
  obtain x d1 where x: "sync_write jsonb no_sync_faults p d = (x, d1)" by fastforce
  with w(1) have "x = Inr (op_applies (jobs d) p)" by simp
  moreover have "job_at d1 (a_JobID (b_att p)) \<noteq> None"
    using assms(2) w(2) x by (auto simp: recordable_def job_at_def find_row_map)
  ultimately have rec: "SyncRecorder jsonb no_sync_faults p d = (Inr (op_applies (jobs d) p),
      d1\<lparr>job_attempts := insert_attempt (sync_attempt_row (b_att p)) (job_attempts d1)\<rparr>)"
    using x by (auto simp: SyncRecorder_def RecordAttempt_def no_sync_faults_def sync_attempt_row_def)
  show "fst (SyncRecorder jsonb no_sync_faults p d) = Inr (op_applies (jobs d) p)"
    and "jobs (snd (SyncRecorder jsonb no_sync_faults p d)) = map (row_after jsonb [p] (db_now d)) (jobs d)"
    and "job_attempts (snd (SyncRecorder jsonb no_sync_faults p d))
      = insert_attempt (sync_attempt_row (b_att p)) (job_attempts d)"
    and "map event_view (job_events (snd (SyncRecorder jsonb no_sync_faults p d)))
      = map event_view (job_events d) @ sync_event_rows (db_now d) p (op_applies (jobs d) p)"
    and "db_now (snd (SyncRecorder jsonb no_sync_faults p d)) = db_now d"
    using w x by (simp_all add: rec)
qed

lemma sync_all_good:
  assumes "distinct (map r_id (jobs d))" and "distinct (map b_id ops)" and "list_all (recordable jsonb d) ops"
  shows "fst (sync_all jsonb ops d) = map (\<lambda>p. Inr (op_applies (jobs d) p)) ops
    \<and> jobs (snd (sync_all jsonb ops d)) = map (row_after jsonb ops (db_now d)) (jobs d)
    \<and> job_attempts (snd (sync_all jsonb ops d))
        = fold (\<lambda>p. insert_attempt (sync_attempt_row (b_att p))) ops (job_attempts d)
    \<and> map event_view (job_events (snd (sync_all jsonb ops d))) = map event_view (job_events d)
        @ concat (map (\<lambda>p. sync_event_rows (db_now d) p (op_applies (jobs d) p)) ops)"
  using assms
proof (induction ops arbitrary: d)
  case Nil
  then show ?case by simp
next
  case (Cons p ps)
  obtain x d1 where x: "SyncRecorder jsonb no_sync_faults p d = (x, d1)" by fastforce
  have "recordable jsonb d p" using Cons.prems by simp
  note g = SyncRecorder_good [OF Cons.prems(1) this, unfolded x fst_conv snd_conv]
  have ids: "map r_id (jobs d1) = map r_id (jobs d)" by (simp add: g(2))
  have "op_applies (jobs d1) q = op_applies (jobs d) q" if "q \<in> set ps" for q
    unfolding g(2) using Cons.prems(2) imageI [OF that, of b_id] by (intro op_applies_row_after) auto
  moreover have "row_after jsonb (p # ps) (db_now d) r
      = row_after jsonb ps (db_now d) (row_after jsonb [p] (db_now d) r)" for r
    using Cons.prems(2) by (intro row_after_Cons) simp
  moreover have "list_all (recordable jsonb d1) ps"
    using Cons.prems(3) by (simp add: recordable_cong [OF ids] list_all_iff)
  ultimately show ?case
    using Cons.IH [of d1] Cons.prems g ids by (simp add: x case_prod_beta Let_def cong: map_cong)
qed


text \<open>The batch's two passes over the rows.\<close>

abbreviation completes :: "op list \<Rightarrow> op list" where
  "completes ops \<equiv> filter (\<lambda>p. b_kind p = opComplete) ops"

abbreviation others :: "op list \<Rightarrow> op list" where
  "others ops \<equiv> filter (\<lambda>p. b_kind p \<noteq> opComplete) ops"

lemma complete_of_distinct:
  assumes "distinct (map b_id ops)"
  shows "complete_of ops r =
    (case find (\<lambda>p. b_id p = r_id r) (completes ops) of
       None \<Rightarrow> None | Some p \<Rightarrow> if fenced (b_id p) (b_epoch p) r then Some p else None)"
  using assms
proof (induction ops)
  case (Cons p ps)
  show ?case
  proof (cases "b_kind p = opComplete \<and> b_id p = r_id r")
    case True
    with Cons.prems have "complete_of ps r = None"
      by (auto simp: complete_of_def find_None_iff fenced_def)
    with True show ?thesis by (simp add: complete_of_def)
  next
    case False
    then have "complete_of (p # ps) r = complete_of ps r"
      by (auto simp: complete_of_def fenced_def)
    with False Cons show ?thesis by simp
  qed
qed (simp add: complete_of_def)

lemma batch_complete_good:
  assumes "distinct (map b_id ops)" and "list_all (recordable jsonb d) ops"
    and "batch_complete jsonb None ops d = (x, d1)"
  shows "\<exists>okIDs. x = Inr okIDs \<and> set okIDs = r_id ` {r \<in> set (jobs d). complete_of ops r \<noteq> None}"
    and "jobs d1 = map (row_after jsonb (completes ops) (db_now d)) (jobs d)"
    and "job_attempts d1 = job_attempts d \<and> job_events d1 = job_events d \<and> db_now d1 = db_now d"
proof -
  have ok: "jsonb (b_result p) \<noteq> None" "result_text (b_result p) = b_result p" if "complete_of ops r = Some p" for r p
    using complete_of_Some [OF that] assms(2) recordable_result by (auto simp: list_all_iff)
  have row: "(if complete_of ops r \<noteq> None then batch_complete_set jsonb ops now r else r)
      = row_after jsonb (completes ops) now r" for now r
  proof (cases "find (\<lambda>p. b_id p = r_id r) (completes ops)")
    case None
    then show ?thesis by (simp add: complete_of_distinct [OF assms(1)] row_after_def)
  next
    case (Some p)
    then have "p \<in> set (completes ops)" by (metis find_Some_iff nth_mem)
    then have k: "b_kind p = opComplete" by simp
    show ?thesis
    proof (cases "fenced (b_id p) (b_epoch p) r")
      case True
      with Some have c: "complete_of ops r = Some p" by (simp add: complete_of_distinct [OF assms(1)])
      with ok [OF c] Some True k show ?thesis by (auto simp: row_after_def batch_complete_set_def)
    qed (use Some in \<open>simp add: complete_of_distinct [OF assms(1)] row_after_def\<close>)
  qed
  show "\<exists>okIDs. x = Inr okIDs \<and> set okIDs = r_id ` {r \<in> set (jobs d). complete_of ops r \<noteq> None}"
  proof (cases "list_ex (\<lambda>p. b_kind p = opComplete) ops")
    case True
    moreover have "\<not> list_ex (\<lambda>r. case complete_of ops r of None \<Rightarrow> False | Some p \<Rightarrow> jsonb (b_result p) = None) (jobs d)"
      using ok by (auto simp: list_ex_iff split: option.splits)
    ultimately show ?thesis using assms(3) by (auto simp: batch_complete_def)
  next
    case False
    then have "complete_of ops r = None" for r by (auto simp: complete_of_def find_None_iff list_ex_iff)
    with False assms(3) show ?thesis by (auto simp: batch_complete_def)
  qed
  have "complete_of ops r = None" if "\<not> list_ex (\<lambda>p. b_kind p = opComplete) ops" for r
    using that by (auto simp: complete_of_def find_None_iff list_ex_iff)
  moreover have "\<not> list_ex (\<lambda>r. case complete_of ops r of None \<Rightarrow> False | Some p \<Rightarrow> jsonb (b_result p) = None) (jobs d)"
    using ok by (auto simp: list_ex_iff split: option.splits)
  ultimately have "jobs d1 = map (\<lambda>r. if complete_of ops r \<noteq> None
      then batch_complete_set jsonb ops (db_now d) r else r) (jobs d)"
    using assms(3) by (auto simp: batch_complete_def update_where_def split: if_splits simp del: not_None_eq)
  then show "jobs d1 = map (row_after jsonb (completes ops) (db_now d)) (jobs d)"
    by (simp only: row)
  show "job_attempts d1 = job_attempts d \<and> job_events d1 = job_events d \<and> db_now d1 = db_now d"
    using assms(3) by (auto simp: batch_complete_def split: if_splits)
qed

lemma op_set_owner: "b_kind p \<noteq> opComplete \<Longrightarrow> op_set p = owner_set jsonb (kind_write (b_kind p) p)"
  by (cases "b_kind p") (simp_all add: op_set_def)

lemma batch_ops_good:
  assumes "distinct (map r_id (jobs d))" and "distinct (map b_id ops)"
    and "batch_ops (\<lambda>_. None) okIDs n ops d = (x, d2)"
  shows "x = Inr (map (\<lambda>p. if b_kind p = opComplete then b_id p \<in> set okIDs else op_applies (jobs d) p) ops)
    \<and> jobs d2 = map (row_after jsonb (others ops) (db_now d)) (jobs d)
    \<and> job_attempts d2 = job_attempts d \<and> job_events d2 = job_events d \<and> db_now d2 = db_now d"
  using assms
proof (induction ops arbitrary: d n x d2)
  case (Cons p ps)
  show ?case
  proof (cases "b_kind p = opComplete")
    case True
    obtain y d' where "batch_ops (\<lambda>_. None) okIDs (Suc n) ps d = (y, d')" by fastforce
    with Cons.IH [OF Cons.prems(1) _ this] Cons.prems True show ?thesis by auto
  next
    case False
    let ?d1 = "d\<lparr>jobs := map (row_after jsonb [p] (db_now d)) (jobs d)\<rparr>"
    obtain y d' where y: "batch_ops (\<lambda>_. None) okIDs (Suc n) ps ?d1 = (y, d')" by fastforce
    have upd: "update_jobs (fenced (b_id p) (b_epoch p)) (op_set p (db_now d)) d
        = (rows_affected (fenced (b_id p) (b_epoch p)) (jobs d), ?d1)"
      by (simp add: update_jobs_def op_set_owner [OF False, of jsonb] update_fenced_row_after)
    have "op_applies (jobs ?d1) q = op_applies (jobs d) q" if "q \<in> set ps" for q
      using Cons.prems(2) imageI [OF that, of b_id] by (auto intro!: op_applies_row_after)
    moreover have "row_after jsonb (p # others ps) (db_now d) r
        = row_after jsonb (others ps) (db_now d) (row_after jsonb [p] (db_now d) r)" for r
      using Cons.prems(2) by (intro row_after_Cons) auto
    ultimately show ?thesis
      using Cons.IH [OF _ _ y] Cons.prems False rows_affected_applies [OF Cons.prems(1), of p]
      by (auto simp: upd y cong: map_cong)
  qed
qed (simp add: map_idI)


lemma row_after_passes:
  assumes "distinct (map b_id ops)"
  shows "row_after jsonb (others ops) now (row_after jsonb (completes ops) now r) = row_after jsonb ops now r"
proof (cases "find (\<lambda>p. b_id p = r_id r) ops")
  case None
  then have "r_id r \<notin> b_id ` set ops" by (auto simp: find_None_iff)
  then have "row_after jsonb (others ops) now r = r" "row_after jsonb (completes ops) now r = r"
    "row_after jsonb ops now r = r" by (auto intro!: row_after_other)
  then show ?thesis by simp
next
  case (Some p)
  then have p: "p \<in> set ops" "b_id p = r_id r" by (auto simp: find_Some_iff)
  have uniq: "q = p" if "q \<in> set ops" "b_id q = r_id r" for q
    using that p assms by (metis distinct_map inj_on_eq_iff)
  have in_ops: "find (\<lambda>p. b_id p = r_id r) xs = (if p \<in> set xs then Some p else None)" if "set xs \<subseteq> set ops" for xs
    using that
  proof (induction xs)
    case (Cons x xs)
    then show ?case using uniq [of x] p(2) by auto
  qed simp
  show ?thesis
  proof (cases "b_kind p = opComplete")
    case True
    then have "row_after jsonb (others ops) now x = x" if "r_id x = r_id r" for x
      using that in_ops [of "others ops"] by (simp add: row_after_def)
    moreover have "row_after jsonb (completes ops) now r = row_after jsonb ops now r"
      using True p(1) Some in_ops [of "completes ops"] by (simp add: row_after_def)
    ultimately show ?thesis by simp
  next
    case False
    then have "row_after jsonb (completes ops) now r = r"
      using in_ops [of "completes ops"] by (simp add: row_after_def)
    moreover have "row_after jsonb (others ops) now r = row_after jsonb ops now r"
      using False p(1) Some in_ops [of "others ops"] by (simp add: row_after_def)
    ultimately show ?thesis by simp
  qed
qed

lemma complete_of_applies:
  assumes "distinct (map r_id (jobs d))" and "distinct (map b_id ops)" and "p \<in> set ops" and "b_kind p = opComplete"
  shows "b_id p \<in> r_id ` {r \<in> set (jobs d). complete_of ops r \<noteq> None} \<longleftrightarrow> op_applies (jobs d) p"
proof
  assume "b_id p \<in> r_id ` {r \<in> set (jobs d). complete_of ops r \<noteq> None}"
  then obtain r q where r: "r \<in> set (jobs d)" "b_id p = r_id r" "complete_of ops r = Some q" by auto
  from complete_of_Some [OF r(3)] r(2) assms(2,3) have "q = p"
    by (metis distinct_map fenced_def inj_on_eq_iff)
  with complete_of_Some [OF r(3)] find_row_in_set [OF assms(1) r(1)] r(2)
  show "op_applies (jobs d) p" by (simp add: op_applies_def)
next
  assume "op_applies (jobs d) p"
  then obtain r where r: "find_row r_id (b_id p) (jobs d) = Some r" "fenced (b_id p) (b_epoch p) r"
    by (auto simp: op_applies_def split: option.splits)
  moreover from r(2) assms(3,4) have "complete_of ops r \<noteq> None"
    by (auto simp: complete_of_def find_None_iff)
  ultimately show "b_id p \<in> r_id ` {r \<in> set (jobs d). complete_of ops r \<noteq> None}"
    by (force dest: find_row_Some)
qed

text \<open>The attempt rows read back alike, although one recorder stores NULL for an empty text.\<close>

lemma attempt_key_scan: "attempt_key t = (\<lambda>a. (a_JobID a, a_Attempt a)) (scan_attempt t)"
  by (simp add: attempt_key_def scan_attempt_def)

lemma insert_attempt_scan:
  assumes "scan_attempt t = scan_attempt t'" and "map scan_attempt ts = map scan_attempt ts'"
  shows "map scan_attempt (insert_attempt t ts) = map scan_attempt (insert_attempt t' ts')"
proof -
  have keys: "attempt_key ` set xs = (\<lambda>a. (a_JobID a, a_Attempt a)) ` set (map scan_attempt xs)" for xs
    by (auto simp: attempt_key_scan image_image)
  have "attempt_key t = attempt_key t'" using assms(1) by (simp add: attempt_key_scan)
  then have "attempt_key t \<in> attempt_key ` set ts \<longleftrightarrow> attempt_key t' \<in> attempt_key ` set ts'"
    unfolding keys assms(2) by simp
  with assms show ?thesis by (simp add: insert_attempt_def)
qed

lemma to_int32_id: "- (2 ^ 31) \<le> x \<Longrightarrow> x < 2 ^ 31 \<Longrightarrow> to_int32 x = x"
  by (simp add: to_int32_def)

lemma fold_insert_attempt_scan:
  assumes "list_all (recordable jsonb d) ops" and "map scan_attempt ts = map scan_attempt ts'"
  shows "map scan_attempt (fold (\<lambda>p. insert_attempt (batch_attempt_row p)) ops ts)
    = map scan_attempt (fold (\<lambda>p. insert_attempt (sync_attempt_row (b_att p))) ops ts')"
  using assms
proof (induction ops arbitrary: ts ts')
  case (Cons p ps)
  have "scan_attempt (batch_attempt_row p) = scan_attempt (sync_attempt_row (b_att p))"
    using Cons.prems(1)
    by (simp add: scan_attempt_def batch_attempt_row_def sync_attempt_row_def nullif_empty_def
        recordable_def to_int32_id)
  then have "map scan_attempt (insert_attempt (batch_attempt_row p) ts)
      = map scan_attempt (insert_attempt (sync_attempt_row (b_att p)) ts')"
    by (rule insert_attempt_scan [OF _ Cons.prems(2)])
  from Cons.IH [OF _ this] Cons.prems(1) show ?case by simp
qed simp

lemma batch_event_rows_concat:
  "map event_view (batch_event_rows now (map (\<lambda>p. (p, f p)) ops))
    = concat (map (\<lambda>p. sync_event_rows now p (f p)) ops)"
  by (induction ops) (auto simp: sync_event_rows_def batch_event_rows_def map_filter_def)


lemma batch_events_good:
  "\<exists>d'. batch_events None xs d = (Inr (), d') \<and> jobs d' = jobs d \<and> job_attempts d' = job_attempts d
    \<and> job_events d' = job_events d @ batch_event_rows (db_now d) xs"
  by (cases "batch_event_rows (db_now d) xs = []") (simp_all add: batch_events_def Let_def)

text \<open>A transaction with faults: nothing, or what the one without faults does.\<close>

lemma batch_ops_no_errors: "batch_ops errs ok n ops d = (Inr bs, d') \<Longrightarrow> batch_ops (\<lambda>_. None) ok n ops d = (Inr bs, d')"
proof (induction ops arbitrary: n d bs)
  case (Cons p ps)
  then show ?case by (auto simp: Let_def split: if_splits option.splits sum.splits prod.splits)
qed simp

lemma flushOnce_atomic:
  assumes "flushOnce jsonb F ops d = (r, d')"
  shows "(\<exists>e. r = Inl e) \<and> d' = d
    \<or> (\<exists>applied. flushOnce jsonb no_faults ops d = (Inr applied, d') \<and> (r = Inr applied \<or> (\<exists>e. r = Inl e)))"
proof (cases "d' = d \<and> (\<exists>e. r = Inl e)")
  case False
  then obtain ok d1 applied d2 d3 where s: "x_begin F = None" "batch_complete jsonb (x_complete F) ops d = (Inr ok, d1)"
      "batch_ops (x_op F) ok 0 ops d1 = (Inr applied, d2)" "batch_attempts (x_attempts F) ops d2 = (Inr (), d3)"
      "batch_events (x_events F) (zip ops applied) d3 = (Inr (), d')" "r = Inr applied \<or> (\<exists>e. r = Inl e)"
    using assms
    by (auto simp: flushOnce_def split: option.splits prod.splits sum.splits fault.splits)
  have "batch_complete jsonb None ops d = (Inr ok, d1)" using s(2) by (auto simp: batch_complete_def split: option.splits)
  moreover have "batch_attempts None ops d2 = (Inr (), d3)" using s(4) by (auto simp: batch_attempts_def split: option.splits)
  moreover have "batch_events None (zip ops applied) d3 = (Inr (), d')"
    using s(5) by (auto simp: batch_events_def Let_def split: option.splits if_splits)
  ultimately have "flushOnce jsonb no_faults ops d = (Inr applied, d')"
    using batch_ops_no_errors [OF s(3)] by (simp add: flushOnce_def no_faults_def)
  with s(6) show ?thesis by blast
qed blast


definition demo_att :: attempt where
  "demo_att = \<lparr> a_JobID = ''j1'', a_Attempt = 2, a_WorkerID = ''w1'', a_StartedAt = 20, a_FinishedAt = 90,
     a_Outcome = OutcomeCompleted, a_Error = [] \<rparr>"

definition demo_op :: op where
  "demo_op = op_Complete ''j1'' 2 ''42'' demo_att"


text \<open>
  C15. A record confirmed by the batcher is durable. When \<^verbatim>\<open>flush\<close> (with its one retry, any
  transaction failing at any statement or losing the confirmation of its commit, and any store
  calls of others in between) answers every operation of a batch, and answers operation \<open>k\<close>
  without an error, then no write of that owner is applied ever after: acknowledging the delivery
  is safe.
\<close>

theorem flush_durable:
  assumes "db_wf d" and "\<And>x. store_run x (between x)"
    and "flush jsonb F F' between ops d = (rs, d')" and "k < length ops" and "rs ! k = Inr b"
    and "job_at d (b_id (ops ! k)) = Some r" and "b_epoch (ops ! k) \<le> r_lease_epoch r"
    and "store_run d' d''"
  shows "length rs = length ops \<and> db_wf d''
    \<and> fst (owner_call jsonb' ft fe (b_id (ops ! k)) (b_epoch (ops ! k)) w d'') \<noteq> Inr True"
proof -
  have inter: "interference between" using assms(2) by unfold_locales
  have ops: "take k ops @ ops ! k # drop (Suc k) ops = ops"
    using assms(4) by (simp add: id_take_nth_drop [symmetric])
  have rec: "batch_record jsonb F F' between (take k ops) (drop (Suc k) ops) (ops ! k) d = (Inr b, d')"
    using assms(3-5) by (simp add: batch_record_def ops)
  have r: "recorder (batch_record jsonb F F' between (take k ops) (drop (Suc k) ops))"
    by (rule interference.batch_recorder [OF inter])
  show ?thesis
    using recorder.rec_final [OF r assms(1,6,7) rec assms(8)] recorder.rec_wf [OF r assms(1), of "ops ! k"]
      rec store_run_wf [OF assms(8)] flush_length [OF assms(3)] by simp
qed

text \<open>Witness: the first commit loses its confirmation, the retry then reports False, durably.\<close>

theorem flush_durable_witness:
  "flush Some (no_faults\<lparr>x_commit := Late Canceled\<rparr>) no_faults id [demo_op] demo_db =
     ([Inr False], snd (flush Some (no_faults\<lparr>x_commit := Late Canceled\<rparr>) no_faults id [demo_op] demo_db))
   \<and> fst (owner_call Some Good Good ''j1'' 2 (WFail ''x'')
        (snd (flush Some (no_faults\<lparr>x_commit := Late Canceled\<rparr>) no_faults id [demo_op] demo_db))) \<noteq> Inr True"
proof -
  let ?F = "no_faults\<lparr>x_commit := Late Canceled\<rparr>"
  have f: "flush Some ?F no_faults id [demo_op] demo_db
      = ([Inr False], snd (flush Some ?F no_faults id [demo_op] demo_db))"
    by (simp add: flush_def flushOnce_def no_faults_def batch_complete_def complete_of_def
        batch_complete_set_def update_where_def batch_attempts_def batch_events_def batch_event_rows_def
        map_filter_def op_event_def demo_op_def op_Complete_def demo_att_def result_text_def demo_db_def
        demo_row_def fenced_def complete_set_def job_at_def Let_def)
  have r: "job_at demo_db (b_id ([demo_op] ! 0)) = Some demo_row"
    and e: "b_epoch ([demo_op] ! 0) \<le> r_lease_epoch demo_row"
    by (simp_all add: demo_op_def op_Complete_def demo_row_def)
  have "fst (owner_call Some Good Good (b_id ([demo_op] ! 0)) (b_epoch ([demo_op] ! 0)) (WFail ''x'')
        (snd (flush Some ?F no_faults id [demo_op] demo_db))) \<noteq> Inr True"
    using flush_durable [OF demo_db_wf _ f _ _ r e run_refl, of False Some Good Good "WFail ''x''"] run_refl
    by auto
  with f show ?thesis by (simp add: demo_op_def op_Complete_def)
qed

section \<open>The loop\<close>

definition loop_ok :: "int \<Rightarrow> op list \<Rightarrow> batcher \<Rightarrow> bool" where
  "loop_ok m sent b =
    (l_maxSize b = m \<and> concat (l_flushed b) @ l_pending b @ l_in b = sent
     \<and> (\<not> l_draining b \<longrightarrow> int (length (l_pending b)) < max 1 m) \<and> length (l_in b) \<le> l_cap b
     \<and> [] \<notin> set (l_flushed b)
     \<and> list_all (\<lambda>x. int (length x) \<le> max 1 m) (if l_exited b then butlast (l_flushed b) else l_flushed b)
     \<and> (l_draining b \<longrightarrow> l_stopped b) \<and> (l_exited b \<longrightarrow> l_draining b \<and> l_pending b = []))"

lemma loop_ok_flush: "loop_ok m sent b \<Longrightarrow> \<not> l_exited b \<Longrightarrow> \<not> l_draining b \<Longrightarrow> loop_ok m sent (loop_flush b)"
  by (auto simp: loop_ok_def loop_flush_def)

lemma loop_ok_exit: "loop_ok m sent b \<Longrightarrow> \<not> l_exited b \<Longrightarrow> l_draining b \<Longrightarrow> l_in b = [] \<Longrightarrow> loop_ok m sent (loop_exit b)"
  by (auto simp: loop_ok_def loop_exit_def loop_flush_def list_all_iff dest: in_set_butlastD)

lemma loop_ok_receive:
  assumes "loop_ok m sent (b\<lparr>l_in := xs\<rparr>)" and "sent @ new = concat (l_flushed b) @ l_pending b @ [p] @ l_in b"
    and "length (l_in b) \<le> l_cap b" and "\<not> l_exited b"
  shows "loop_ok m (sent @ new) (loop_receive p b)"
  using assms by (auto simp: loop_ok_def loop_receive_def loop_flush_def Let_def)

lemma bstep_ok:
  assumes "bstep b new b'" and "loop_ok m sent b"
  shows "loop_ok m (sent @ new) b'"
  using assms
proof (induction rule: bstep.induct)
  case (b_meet b p)
  then show ?case by (intro loop_ok_receive [where xs = "[]"]) (auto simp: loop_ok_def)
next
  case (b_receive b p ps)
  then show ?case by (intro loop_ok_receive [where xs = "p # ps"]) (auto simp: loop_ok_def)
next
  case (b_tick b)
  then show ?case by (simp add: loop_ok_flush)
next
  case (b_exit b)
  then show ?case by (simp add: loop_ok_exit)
qed (auto simp: loop_ok_def)

lemma NewBatcher_ok: "NewBatcher chan_max m t = Some b \<Longrightarrow> loop_ok m [] b \<and> \<not> l_exited b \<and> l_cap b = nat (wrap64 (m * 2))"
  by (auto simp: NewBatcher_def make_chan_def loop_ok_def split: if_splits)

lemma bruns_ok: "bruns b0 sent b \<Longrightarrow> loop_ok m [] b0 \<Longrightarrow> loop_ok m sent b"
  by (induction rule: bruns.induct) (auto dest: bstep_ok)

lemma bstep_cap: "bstep b new b' \<Longrightarrow> l_cap b' = l_cap b"
  by (induction rule: bstep.induct) (auto simp: loop_receive_def loop_flush_def loop_exit_def Let_def)

lemma bruns_cap: "bruns b0 sent b \<Longrightarrow> l_cap b = l_cap b0"
  by (induction rule: bruns.induct) (auto dest: bstep_cap)

text \<open>The step in which the loop returns, and what comes after it.\<close>

lemma bstep_exits: "bstep b new b' \<Longrightarrow> \<not> l_exited b \<Longrightarrow> l_exited b' \<Longrightarrow> new = [] \<and> l_in b' = []"
  by (induction rule: bstep.induct) (auto simp: loop_receive_def loop_flush_def loop_exit_def Let_def split: if_splits)

lemma bstep_after: "bstep b new b' \<Longrightarrow> l_exited b \<Longrightarrow> l_exited b' \<and> l_flushed b' = l_flushed b \<and> l_in b' = l_in b @ new"
  by (induction rule: bstep.induct) auto

lemma returned_run:
  assumes "bruns b0 sent b" and "\<not> l_exited b0" and "l_exited b"
  shows "\<exists>early late b1. sent = early @ late \<and> bruns b0 early b1 \<and> l_exited b1 \<and> l_in b1 = [] \<and> bruns b1 late b
    \<and> l_flushed b = l_flushed b1 \<and> l_in b = late"
  using assms
proof (induction rule: bruns.induct)
  case (bruns_step b sent b' new b'')
  show ?case
  proof (cases "l_exited b'")
    case True
    with bruns_step obtain early late b1 where 1: "sent = early @ late" "bruns b early b1" "l_exited b1" "l_in b1 = []"
      "bruns b1 late b'" "l_flushed b' = l_flushed b1" "l_in b' = late" by blast
    with bstep_after [OF bruns_step.hyps(2) True] bruns.bruns_step [OF 1(5) bruns_step.hyps(2)]
    show ?thesis by (intro exI [of _ early] exI [of _ "late @ new"] exI [of _ b1]) simp
  next
    case False
    note e = bstep_exits [OF bruns_step.hyps(2) False bruns_step.prems(2)]
    have "bruns b (sent @ new) b''" by (rule bruns.bruns_step [OF bruns_step.hyps(1,2)])
    with e bruns_step.prems(2) show ?thesis
      by (intro exI [of _ "sent @ new"] exI [of _ "[]"] exI [of _ b'']) (simp add: bruns_refl)
  qed
qed simp


text \<open>A batcher of size two after two sends, two receives, a stop and the return: one batch of both.\<close>

definition batcher2 :: batcher where
  "batcher2 = \<lparr> l_maxSize = 2, l_interval = 1, l_cap = 4, l_in = [], l_pending = [], l_flushed = [],
     l_stopped = False, l_draining = False, l_exited = False \<rparr>"

lemma batcher2_new: "NewBatcher 100 2 1 = Some batcher2"
  by (simp add: NewBatcher_def make_chan_def wrap64_def batcher2_def)

definition demo_batcher :: batcher where
  "demo_batcher = batcher2\<lparr>l_flushed := [[demo_op, demo_op]], l_stopped := True, l_draining := True, l_exited := True\<rparr>"

lemma demo_batcher_run: "bruns batcher2 [demo_op, demo_op] demo_batcher"
proof -
  let ?b = "\<lambda>i q. batcher2\<lparr>l_in := i, l_pending := q\<rparr>"
  let ?f = "batcher2\<lparr>l_flushed := [[demo_op, demo_op]]\<rparr>"
  let ?s = "?f\<lparr>l_stopped := True\<rparr>"
  have 1: "bstep batcher2 [demo_op] (?b [demo_op] [])"
    using b_send [of batcher2 demo_op] by (simp add: batcher2_def)
  have 2: "bstep (?b [demo_op] []) [demo_op] (?b [demo_op, demo_op] [])"
    using b_send [of "?b [demo_op] []" demo_op] by (simp add: batcher2_def)
  have 3: "bstep (?b [demo_op, demo_op] []) [] (?b [demo_op] [demo_op])"
    using b_receive [of "?b [demo_op, demo_op] []" demo_op "[demo_op]"]
    by (simp add: batcher2_def loop_receive_def)
  have 4: "bstep (?b [demo_op] [demo_op]) [] ?f"
    using b_receive [of "?b [demo_op] [demo_op]" demo_op "[]"]
    by (simp add: batcher2_def loop_receive_def loop_flush_def)
  have 5: "bstep ?f [] ?s" by (rule b_stop)
  have 6: "bstep ?s [] (?s\<lparr>l_draining := True\<rparr>)" by (rule b_drain) (simp_all add: batcher2_def)
  have 7: "bstep (?s\<lparr>l_draining := True\<rparr>) [] demo_batcher"
    using b_exit [of "?s\<lparr>l_draining := True\<rparr>"] by (simp add: batcher2_def loop_exit_def loop_flush_def demo_batcher_def)
  show ?thesis
    using bruns_step [OF bruns_step [OF bruns_step [OF bruns_step [OF bruns_step [OF bruns_step [OF bruns_step
      [OF bruns_refl 1] 2] 3] 4] 5] 6] 7] by simp
qed


text \<open>
  Two divergences from the contract. A stale operation is reported as applied when a valid one
  for the same job is in its batch, because the answer is looked up by job identifier only; and
  an operation sent after the drain is never flushed, although \<^verbatim>\<open>submit\<close> waits for it.
\<close>

lemma stale_complete_reported_applied:
  "fst (flushOnce Some no_faults [demo_op\<lparr>b_epoch := 1\<rparr>, demo_op] demo_db) = Inr [True, True]
   \<and> fst (flushOnce Some no_faults [demo_op\<lparr>b_epoch := 1\<rparr>] demo_db) = Inr [False]"
  by (simp add: flushOnce_def no_faults_def batch_complete_def complete_of_def
      batch_complete_set_def update_where_def batch_attempts_def batch_events_def batch_event_rows_def
      map_filter_def op_event_def demo_op_def op_Complete_def demo_att_def result_text_def demo_db_def
      demo_row_def fenced_def complete_set_def job_at_def Let_def)

lemma send_after_drain_is_stranded:
  "\<exists>b. bruns batcher2 [demo_op, demo_op, demo_op] b \<and> l_exited b \<and> l_in b = [demo_op]"
  using bruns_step [OF demo_batcher_run b_send [of demo_batcher demo_op]]
  by (auto simp: demo_batcher_def batcher2_def)

end
