(* ===== verification/Retry.thy ===== *)
theory Retry
  imports Complex_Main Prelude
begin

text \<open>
  Full-jitter exponential backoff, \<^verbatim>\<open>internal/retry/backoff.go\<close>. Durations are Go's
  64-bit signed integers, so the doubling wraps (\<open>wrap64\<close>). The uniform draw of the
  generator is a rational number and its product with the ceiling is exact, where Go
  rounds to a \<^verbatim>\<open>float64\<close>.
\<close>

record policy =
  p_base :: duration
  p_cap :: duration
  p_rng :: rat

text \<open>The loop of \<^verbatim>\<open>Delay\<close>: \<open>n\<close> doublings are left, and it breaks once past the cap.\<close>

fun ceiling_loop :: "nat \<Rightarrow> duration \<Rightarrow> duration \<Rightarrow> duration" where
  "ceiling_loop 0 c cap = c"
| "ceiling_loop (Suc n) c cap = (if c \<ge> cap then c else ceiling_loop n (wrap64 (c * 2)) cap)"

definition delay_ceiling :: "policy \<Rightarrow> int \<Rightarrow> duration" where
  "delay_ceiling p attempt =
    (let a = (if attempt < 1 then 1 else attempt);
         c = ceiling_loop (nat (a - 1)) (p_base p) (p_cap p)
     in if c > p_cap p then p_cap p else c)"

text \<open>A conversion from floating point to an integer truncates towards zero.\<close>

definition truncate :: "rat \<Rightarrow> int" where
  "truncate x = (if x \<ge> 0 then \<lfloor>x\<rfloor> else - \<lfloor>- x\<rfloor>)"

definition Delay :: "policy \<Rightarrow> int \<Rightarrow> duration" where
  "Delay p attempt = truncate (p_rng p * of_int (delay_ceiling p attempt))"

section \<open>Lemmas\<close>

lemma wrap64_id: "- (2 ^ 63) \<le> x \<Longrightarrow> x < 2 ^ 63 \<Longrightarrow> wrap64 x = x"
  by (simp add: wrap64_def)

lemma ceiling_loop_exact:
  assumes "0 \<le> c" and "cap \<le> 2 ^ 62"
  shows "min cap (ceiling_loop n c cap) = min cap (c * 2 ^ n)"
  using assms
proof (induction n arbitrary: c)
  case 0
  then show ?case by simp
next
  case (Suc n)
  show ?case
  proof (cases "c \<ge> cap")
    case True
    have "c * 1 \<le> c * 2 ^ Suc n"
      by (rule mult_left_mono) (use Suc.prems one_le_power [of "2::int" "Suc n"] in simp_all)
    with True show ?thesis by simp
  next
    case False
    with Suc.prems have "wrap64 (c * 2) = c * 2"
      by (intro wrap64_id) auto
    with False Suc.IH [of "c * 2"] Suc.prems show ?thesis
      by (simp add: mult.assoc)
  qed
qed

lemma delay_ceiling_eq:
  assumes "0 \<le> p_base p" and "p_cap p \<le> 2 ^ 62"
  shows "delay_ceiling p attempt = min (p_cap p) (p_base p * 2 ^ nat (attempt - 1))"
proof -
  let ?a = "if attempt < 1 then 1 else attempt"
  have a: "nat (?a - 1) = nat (attempt - 1)" by simp
  have "delay_ceiling p attempt = min (p_cap p) (ceiling_loop (nat (?a - 1)) (p_base p) (p_cap p))"
    by (simp add: delay_ceiling_def Let_def min_def)
  also have "\<dots> = min (p_cap p) (p_base p * 2 ^ nat (attempt - 1))"
    unfolding a by (rule ceiling_loop_exact) (use assms in simp_all)
  finally show ?thesis .
qed

lemma truncate_scale:
  assumes "0 \<le> r" and "r < 1" and "0 \<le> c"
  shows "0 \<le> truncate (r * of_int c)" and "truncate (r * of_int c) \<le> c"
proof -
  have nn: "0 \<le> r * of_int c" using assms by simp
  then show "0 \<le> truncate (r * of_int c)" by (simp add: truncate_def)
  have "r * of_int c \<le> 1 * of_int c"
    by (rule mult_right_mono) (use assms in simp_all)
  then have "\<lfloor>r * of_int c\<rfloor> \<le> c" by (simp add: floor_le_iff)
  with nn show "truncate (r * of_int c) \<le> c" by (simp add: truncate_def)
qed

text \<open>
  C40. The backoff before attempt \<open>n + 1\<close> lies between zero and
  \<open>min cap (base * 2\<^bsup>n-1\<^esup>)\<close>, for every draw of the generator in \<open>[0, 1)\<close>. The loop's
  64-bit doubling never wraps, provided the cap is at most \<open>2\<^bsup>62\<^esup>\<close> nanoseconds (about 146
  years), since it stops as soon as the cap is reached.
\<close>

theorem Delay_bounds:
  assumes "0 \<le> p_base p" and "0 \<le> p_cap p" and "p_cap p \<le> 2 ^ 62"
    and "0 \<le> p_rng p" and "p_rng p < 1"
  shows "delay_ceiling p attempt = min (p_cap p) (p_base p * 2 ^ nat (attempt - 1))
    \<and> 0 \<le> Delay p attempt
    \<and> Delay p attempt \<le> min (p_cap p) (p_base p * 2 ^ nat (attempt - 1))"
proof -
  have ceil: "delay_ceiling p attempt = min (p_cap p) (p_base p * 2 ^ nat (attempt - 1))"
    using assms by (simp add: delay_ceiling_eq)
  moreover have "0 \<le> min (p_cap p) (p_base p * 2 ^ nat (attempt - 1))"
    using assms by simp
  ultimately have "0 \<le> delay_ceiling p attempt" by simp
  from truncate_scale [OF assms(4,5) this] ceil show ?thesis
    by (simp add: Delay_def)
qed

text \<open>Witness: base one second, cap five minutes, the draw one half, after the third attempt.\<close>

theorem Delay_bounds_witness:
  "delay_ceiling \<lparr>p_base = second, p_cap = 300 * second, p_rng = 1/2\<rparr> 3 = 4 * second
   \<and> 0 \<le> Delay \<lparr>p_base = second, p_cap = 300 * second, p_rng = 1/2\<rparr> 3
   \<and> Delay \<lparr>p_base = second, p_cap = 300 * second, p_rng = 1/2\<rparr> 3 \<le> 4 * second"
  using Delay_bounds [of "\<lparr>p_base = second, p_cap = 300 * second, p_rng = 1/2\<rparr>" 3]
  by simp

end
