(* ===== verification/Redis.thy ===== *)
theory Redis
  imports Prelude
begin

text \<open>
  The Redis service as the queue uses it. Redis is not part of the repository: its commands are a
  record \<open>redis\<close> of functions on an opaque server state, and what the program relies on is the
  locale \<open>redis_service\<close>, which states the documented behaviour of streams, sorted sets and
  strings through the reading commands \<^verbatim>\<open>XRANGE\<close>, \<^verbatim>\<open>ZRANGE\<close> and \<^verbatim>\<open>GET\<close>. An in-memory server
  \<open>redis_mem\<close> satisfies it.
\<close>

section \<open>Commands\<close>

type_synonym key = string
type_synonym fields = "(string \<times> string) list"
type_synonym message = "string \<times> fields"

record 'r redis =
  xrange :: "'r \<Rightarrow> key \<Rightarrow> message list"
  zrange :: "'r \<Rightarrow> key \<Rightarrow> (string \<times> int) list"
  kv_get :: "'r \<Rightarrow> key \<Rightarrow> string option"
  xpending :: "'r \<Rightarrow> key \<Rightarrow> string \<Rightarrow> nat"
  xadd :: "key \<Rightarrow> fields \<Rightarrow> 'r \<Rightarrow> string \<times> 'r"
  xadd_maxlen :: "key \<Rightarrow> nat \<Rightarrow> fields \<Rightarrow> 'r \<Rightarrow> string \<times> 'r"
  xgroup_create :: "key \<Rightarrow> string \<Rightarrow> 'r \<Rightarrow> bool \<times> 'r"
  xreadgroup :: "string \<Rightarrow> string \<Rightarrow> key list \<Rightarrow> int \<Rightarrow> 'r \<Rightarrow> (key \<times> message list) list \<times> 'r"
  xack :: "key \<Rightarrow> string \<Rightarrow> string \<Rightarrow> 'r \<Rightarrow> unit \<times> 'r"
  xdel :: "key \<Rightarrow> string \<Rightarrow> 'r \<Rightarrow> unit \<times> 'r"
  xclaim_justid :: "key \<Rightarrow> string \<Rightarrow> string \<Rightarrow> string \<Rightarrow> 'r \<Rightarrow> unit \<times> 'r"
  xautoclaim :: "key \<Rightarrow> string \<Rightarrow> string \<Rightarrow> int \<Rightarrow> nat \<Rightarrow> 'r \<Rightarrow> message list \<times> 'r"
  zadd :: "key \<Rightarrow> int \<Rightarrow> string \<Rightarrow> 'r \<Rightarrow> unit \<times> 'r"
  zrangebyscore :: "key \<Rightarrow> int \<Rightarrow> nat \<Rightarrow> 'r \<Rightarrow> string list"
  zrem :: "key \<Rightarrow> string \<Rightarrow> 'r \<Rightarrow> 'r"
  kv_set :: "key \<Rightarrow> string \<Rightarrow> int \<Rightarrow> 'r \<Rightarrow> unit \<times> 'r"
  kv_setnx :: "key \<Rightarrow> string \<Rightarrow> int \<Rightarrow> 'r \<Rightarrow> bool \<times> 'r"
  kv_del :: "key \<Rightarrow> 'r \<Rightarrow> 'r"
  kv_pexpire :: "key \<Rightarrow> int \<Rightarrow> 'r \<Rightarrow> 'r"

text \<open>The members of a sorted set.\<close>

definition zmembers :: "'r redis \<Rightarrow> 'r \<Rightarrow> key \<Rightarrow> string set" where
  "zmembers R s k = fst ` set (zrange R s k)"

definition stream_ids :: "'r redis \<Rightarrow> 'r \<Rightarrow> key \<Rightarrow> string set" where
  "stream_ids R s k = fst ` set (xrange R s k)"

text \<open>What a command that touches neither streams nor sorted sets leaves alone.\<close>

definition same_queues :: "'r redis \<Rightarrow> 'r \<Rightarrow> 'r \<Rightarrow> bool" where
  "same_queues R s s' = (xrange R s' = xrange R s \<and> zrange R s' = zrange R s)"

definition same_strings :: "'r redis \<Rightarrow> 'r \<Rightarrow> 'r \<Rightarrow> bool" where
  "same_strings R s s' = (kv_get R s' = kv_get R s)"

section \<open>Documented behaviour\<close>

text \<open>
  \<open>issued s k\<close> are the entry identifiers the stream \<open>k\<close> has given out so far: they increase, so
  none is ever given twice, not even after a deletion.
\<close>

locale redis_service =
  fixes R :: "'r redis" and issued :: "'r \<Rightarrow> key \<Rightarrow> string set"
  assumes ids_issued: "stream_ids R s k \<subseteq> issued s k"
    and xadd_entries: "xadd R k f s = (i, s') \<Longrightarrow>
      xrange R s' = (xrange R s)(k := xrange R s k @ [(i, f)]) \<and> zrange R s' = zrange R s
      \<and> kv_get R s' = kv_get R s"
    and xadd_fresh: "xadd R k f s = (i, s') \<Longrightarrow>
      i \<notin> issued s k \<and> issued s' = (issued s)(k := insert i (issued s k))"
    and xadd_maxlen_other: "xadd_maxlen R k n f s = (i, s') \<Longrightarrow> k' \<noteq> k \<Longrightarrow>
      xrange R s' k' = xrange R s k' \<and> issued s' k' = issued s k'"
    and xadd_maxlen_rest: "xadd_maxlen R k n f s = (i, s') \<Longrightarrow>
      zrange R s' = zrange R s \<and> kv_get R s' = kv_get R s"
    and xgroup_keeps: "xgroup_create R k g s = (b, s') \<Longrightarrow>
      same_queues R s s' \<and> same_strings R s s' \<and> issued s' = issued s"
    and xreadgroup_keeps: "xreadgroup R g c ks cnt s = (res, s') \<Longrightarrow>
      same_queues R s s' \<and> same_strings R s s' \<and> issued s' = issued s"
    and xreadgroup_msgs: "xreadgroup R g c ks cnt s = (res, s') \<Longrightarrow> (k, ms) \<in> set res \<Longrightarrow>
      k \<in> set ks \<and> set ms \<subseteq> set (xrange R s k) \<and> int (length ms) \<le> max cnt 0"
    and xreadgroup_once: "xreadgroup R g c ks cnt s = (res, s') \<Longrightarrow> distinct ks \<Longrightarrow> distinct (map fst res)"
    and xack_keeps: "xack R k g i s = (u, s') \<Longrightarrow>
      same_queues R s s' \<and> same_strings R s s' \<and> issued s' = issued s"
    and xdel_entries: "xdel R k i s = (u, s') \<Longrightarrow>
      xrange R s' = (xrange R s)(k := filter (\<lambda>m. fst m \<noteq> i) (xrange R s k)) \<and> zrange R s' = zrange R s
      \<and> kv_get R s' = kv_get R s \<and> issued s' = issued s"
    and xclaim_keeps: "xclaim_justid R k g c i s = (u, s') \<Longrightarrow>
      same_queues R s s' \<and> same_strings R s s' \<and> issued s' = issued s"
    and xautoclaim_keeps: "xautoclaim R k g c idle n s = (ms, s') \<Longrightarrow>
      same_queues R s s' \<and> same_strings R s s' \<and> issued s' = issued s"
    and xautoclaim_msgs: "xautoclaim R k g c idle n s = (ms, s') \<Longrightarrow>
      set ms \<subseteq> set (xrange R s k) \<and> length ms \<le> n"
    and zadd_members: "zadd R k sc m s = (u, s') \<Longrightarrow>
      zmembers R s' k = insert m (zmembers R s k) \<and> (\<forall>k'. k' \<noteq> k \<longrightarrow> zrange R s' k' = zrange R s k')
      \<and> xrange R s' = xrange R s \<and> kv_get R s' = kv_get R s \<and> issued s' = issued s"
    and zadd_score: "zadd R k sc m s = (u, s') \<Longrightarrow> (m, x) \<in> set (zrange R s' k) \<longleftrightarrow> x = sc"
    and zrangebyscore_due: "m \<in> set (zrangebyscore R k mx n s) \<Longrightarrow> \<exists>sc \<le> mx. (m, sc) \<in> set (zrange R s k)"
    and zrangebyscore_length: "length (zrangebyscore R k mx n s) \<le> n"
    and zrem_members: "zmembers R (zrem R k m s) k = zmembers R s k - {m}"
    and zrem_other: "k' \<noteq> k \<Longrightarrow> zrange R (zrem R k m s) k' = zrange R s k'"
    and zrem_rest: "xrange R (zrem R k m s) = xrange R s \<and> kv_get R (zrem R k m s) = kv_get R s
      \<and> issued (zrem R k m s) = issued s"
    and kv_set_get: "kv_set R k v ttl s = (u, s') \<Longrightarrow> 0 < ttl \<Longrightarrow> kv_get R s' = (kv_get R s)(k \<mapsto> v)"
    and kv_set_keeps: "kv_set R k v ttl s = (u, s') \<Longrightarrow> same_queues R s s' \<and> issued s' = issued s"
    and kv_setnx_get: "kv_setnx R k v ttl s = (b, s') \<Longrightarrow> 0 < ttl \<Longrightarrow>
      b = (kv_get R s k = None) \<and> kv_get R s' = (if b then (kv_get R s)(k \<mapsto> v) else kv_get R s)"
    and kv_setnx_keeps: "kv_setnx R k v ttl s = (b, s') \<Longrightarrow> same_queues R s s' \<and> issued s' = issued s"
    and kv_del_get: "kv_get R (kv_del R k s) = (kv_get R s)(k := None)"
    and kv_del_keeps: "same_queues R s (kv_del R k s) \<and> issued (kv_del R k s) = issued s"
    and kv_pexpire_get: "0 < ttl \<Longrightarrow> kv_get R (kv_pexpire R k ttl s) = kv_get R s"
    and kv_pexpire_keeps: "same_queues R s (kv_pexpire R k ttl s) \<and> issued (kv_pexpire R k ttl s) = issued s"

section \<open>An in-memory server\<close>

text \<open>
  A stream is a log of entries, \<open>None\<close> where an entry was deleted; the identifier of an entry is
  its position. One delivery cursor and one pending list per stream serve the program's single
  group; sorted sets are lists ordered by score; strings carry the time they expire at.
\<close>

record mem =
  m_log :: "key \<Rightarrow> fields option list"
  m_cursor :: "key \<Rightarrow> nat"
  m_pel :: "key \<Rightarrow> (string \<times> string \<times> int) list"
  m_zsets :: "key \<Rightarrow> (string \<times> int) list"
  m_kv :: "key \<Rightarrow> (string \<times> int) option"
  m_now :: int

definition mem_empty :: mem where
  "mem_empty = \<lparr> m_log = (\<lambda>_. []), m_cursor = (\<lambda>_. 0), m_pel = (\<lambda>_. []),
     m_zsets = (\<lambda>_. []), m_kv = (\<lambda>_. None), m_now = 0 \<rparr>"

definition entry_id :: "nat \<Rightarrow> string" where
  "entry_id n = dec_of_nat n @ ''-0''"

fun visible :: "nat \<Rightarrow> fields option list \<Rightarrow> message list" where
  "visible n [] = []"
| "visible n (None # xs) = visible (Suc n) xs"
| "visible n (Some f # xs) = (entry_id n, f) # visible (Suc n) xs"

definition mem_xrange :: "mem \<Rightarrow> key \<Rightarrow> message list" where
  "mem_xrange s k = visible 0 (m_log s k)"

definition mem_xadd :: "key \<Rightarrow> fields \<Rightarrow> mem \<Rightarrow> string \<times> mem" where
  "mem_xadd k f s = (entry_id (length (m_log s k)), s\<lparr>m_log := (m_log s)(k := m_log s k @ [Some f])\<rparr>)"

text \<open>\<^verbatim>\<open>MAXLEN n\<close> deletes the oldest entries.\<close>

definition mem_xadd_maxlen :: "key \<Rightarrow> nat \<Rightarrow> fields \<Rightarrow> mem \<Rightarrow> string \<times> mem" where
  "mem_xadd_maxlen k n f s =
    (let l = m_log s k; d = Suc (length l) - n in
     (entry_id (length l), s\<lparr>m_log := (m_log s)(k := map (\<lambda>_. None) (take d l) @ drop d l @ [Some f])\<rparr>))"

fun tombstone :: "nat \<Rightarrow> string \<Rightarrow> fields option list \<Rightarrow> fields option list" where
  "tombstone n i [] = []"
| "tombstone n i (x # xs) = (if entry_id n = i then None else x) # tombstone (Suc n) i xs"

definition mem_xdel :: "key \<Rightarrow> string \<Rightarrow> mem \<Rightarrow> unit \<times> mem" where
  "mem_xdel k i s = ((), s\<lparr>m_log := (m_log s)(k := tombstone 0 i (m_log s k))\<rparr>)"

definition mem_xack :: "key \<Rightarrow> string \<Rightarrow> string \<Rightarrow> mem \<Rightarrow> unit \<times> mem" where
  "mem_xack k g i s = ((), s\<lparr>m_pel := (m_pel s)(k := filter (\<lambda>x. fst x \<noteq> i) (m_pel s k))\<rparr>)"

text \<open>Delivery of at most so many entries from a position on, and the position after them.\<close>

fun deliver :: "nat \<Rightarrow> nat \<Rightarrow> fields option list \<Rightarrow> message list \<times> nat" where
  "deliver n 0 xs = ([], n)"
| "deliver n (Suc c) [] = ([], n)"
| "deliver n (Suc c) (None # xs) = deliver (Suc n) (Suc c) xs"
| "deliver n (Suc c) (Some f # xs) =
    (let (ms, n') = deliver (Suc n) c xs in ((entry_id n, f) # ms, n'))"

fun mem_xreadgroup ::
  "string \<Rightarrow> string \<Rightarrow> key list \<Rightarrow> int \<Rightarrow> mem \<Rightarrow> (key \<times> message list) list \<times> mem"
where
  "mem_xreadgroup g c [] n s = ([], s)"
| "mem_xreadgroup g c (k # ks) n s =
    (let (ms, pos) = deliver (m_cursor s k) (nat n) (drop (m_cursor s k) (m_log s k));
         s1 = s\<lparr>m_cursor := (m_cursor s)(k := pos),
                m_pel := (m_pel s)(k := m_pel s k @ map (\<lambda>m. (fst m, c, m_now s)) ms)\<rparr>;
         (res, s2) = mem_xreadgroup g c ks n s1
     in (if ms = [] then res else (k, ms) # res, s2))"

definition mem_xclaim :: "key \<Rightarrow> string \<Rightarrow> string \<Rightarrow> string \<Rightarrow> mem \<Rightarrow> unit \<times> mem" where
  "mem_xclaim k g c i s =
    ((), s\<lparr>m_pel := (m_pel s)(k := map (\<lambda>x. if fst x = i then (i, c, m_now s) else x) (m_pel s k))\<rparr>)"

definition mem_xautoclaim :: "key \<Rightarrow> string \<Rightarrow> string \<Rightarrow> int \<Rightarrow> nat \<Rightarrow> mem \<Rightarrow> message list \<times> mem" where
  "mem_xautoclaim k g c idle n s =
    (let ids = map fst (filter (\<lambda>x. m_now s - snd (snd x) \<ge> idle) (m_pel s k));
         ms = take n (filter (\<lambda>m. fst m \<in> set ids) (mem_xrange s k))
     in (ms, s\<lparr>m_pel := (m_pel s)(k :=
           map (\<lambda>x. if fst x \<in> fst ` set ms then (fst x, c, m_now s) else x) (m_pel s k))\<rparr>))"

definition mem_zadd :: "key \<Rightarrow> int \<Rightarrow> string \<Rightarrow> mem \<Rightarrow> unit \<times> mem" where
  "mem_zadd k sc m s =
    ((), s\<lparr>m_zsets := (m_zsets s)(k := insort_key snd (m, sc) (filter (\<lambda>x. fst x \<noteq> m) (m_zsets s k)))\<rparr>)"

definition mem_zrangebyscore :: "key \<Rightarrow> int \<Rightarrow> nat \<Rightarrow> mem \<Rightarrow> string list" where
  "mem_zrangebyscore k mx n s = take n (map fst (filter (\<lambda>x. snd x \<le> mx) (m_zsets s k)))"

definition mem_zrem :: "key \<Rightarrow> string \<Rightarrow> mem \<Rightarrow> mem" where
  "mem_zrem k m s = s\<lparr>m_zsets := (m_zsets s)(k := filter (\<lambda>x. fst x \<noteq> m) (m_zsets s k))\<rparr>"

definition mem_get :: "mem \<Rightarrow> key \<Rightarrow> string option" where
  "mem_get s k = (case m_kv s k of None \<Rightarrow> None | Some (v, t) \<Rightarrow> if m_now s < t then Some v else None)"

definition mem_set :: "key \<Rightarrow> string \<Rightarrow> int \<Rightarrow> mem \<Rightarrow> unit \<times> mem" where
  "mem_set k v ttl s = ((), s\<lparr>m_kv := (m_kv s)(k \<mapsto> (v, m_now s + ttl))\<rparr>)"

definition mem_setnx :: "key \<Rightarrow> string \<Rightarrow> int \<Rightarrow> mem \<Rightarrow> bool \<times> mem" where
  "mem_setnx k v ttl s =
    (if mem_get s k = None then (True, s\<lparr>m_kv := (m_kv s)(k \<mapsto> (v, m_now s + ttl))\<rparr>) else (False, s))"

definition mem_del :: "key \<Rightarrow> mem \<Rightarrow> mem" where
  "mem_del k s = s\<lparr>m_kv := (m_kv s)(k := None)\<rparr>"

definition mem_pexpire :: "key \<Rightarrow> int \<Rightarrow> mem \<Rightarrow> mem" where
  "mem_pexpire k ms s =
    (case mem_get s k of None \<Rightarrow> s | Some v \<Rightarrow> s\<lparr>m_kv := (m_kv s)(k \<mapsto> (v, m_now s + ms * millisecond))\<rparr>)"

definition redis_mem :: "mem redis" where
  "redis_mem =
    \<lparr> xrange = mem_xrange, zrange = m_zsets, kv_get = mem_get, xpending = (\<lambda>s k g. length (m_pel s k)),
      xadd = mem_xadd, xadd_maxlen = mem_xadd_maxlen, xgroup_create = (\<lambda>k g s. (True, s)),
      xreadgroup = mem_xreadgroup, xack = mem_xack, xdel = mem_xdel, xclaim_justid = mem_xclaim,
      xautoclaim = mem_xautoclaim, zadd = mem_zadd, zrangebyscore = mem_zrangebyscore, zrem = mem_zrem,
      kv_set = mem_set, kv_setnx = mem_setnx, kv_del = mem_del, kv_pexpire = mem_pexpire \<rparr>"

definition mem_issued :: "mem \<Rightarrow> key \<Rightarrow> string set" where
  "mem_issued s k = entry_id ` {..<length (m_log s k)}"

section \<open>The server satisfies the laws\<close>

lemma entry_id_inj [simp]: "entry_id m = entry_id n \<longleftrightarrow> m = n"
  by (simp add: entry_id_def dec_of_nat_inj)

lemma visible_append: "visible n (xs @ ys) = visible n xs @ visible (n + length xs) ys"
  by (induction n xs rule: visible.induct) auto

lemma visible_id: "m \<in> set (visible n xs) \<Longrightarrow> \<exists>j. n \<le> j \<and> j < n + length xs \<and> fst m = entry_id j"
proof (induction n xs rule: visible.induct)
  case (2 n xs)
  then obtain j where "Suc n \<le> j" "j < Suc n + length xs" "fst m = entry_id j" by auto
  then show ?case by (intro exI [of _ j]) simp
next
  case (3 n f xs)
  show ?case
  proof (cases "m = (entry_id n, f)")
    case True
    then show ?thesis by (intro exI [of _ n]) simp
  next
    case False
    with 3 obtain j where "Suc n \<le> j" "j < Suc n + length xs" "fst m = entry_id j" by auto
    then show ?thesis by (intro exI [of _ j]) simp
  qed
qed simp

lemma visible_ids: "fst ` set (visible 0 xs) \<subseteq> entry_id ` {..<length xs}"
  using visible_id [of _ 0 xs] by fastforce

lemma visible_tombstone: "visible n (tombstone n i xs) = filter (\<lambda>m. fst m \<noteq> i) (visible n xs)"
  by (induction n xs rule: visible.induct) auto

lemma length_tombstone [simp]: "length (tombstone n i xs) = length xs"
  by (induction n i xs rule: tombstone.induct) auto

lemma visible_drop: "set (visible (n + c) (drop c xs)) \<subseteq> set (visible n xs)"
proof (cases "c \<le> length xs")
  case True
  then have "visible n xs = visible n (take c xs) @ visible (n + c) (drop c xs)"
    using visible_append [of n "take c xs" "drop c xs"] by simp
  then show ?thesis by auto
qed simp

lemma deliver_visible: "set (fst (deliver n c xs)) \<subseteq> set (visible n xs) \<and> length (fst (deliver n c xs)) \<le> c"
  by (induction n c xs rule: deliver.induct) (auto simp: case_prod_beta)

lemma xreadgroup_frame:
  "mem_xreadgroup g c ks n s = (res, s') \<Longrightarrow>
    m_log s' = m_log s \<and> m_zsets s' = m_zsets s \<and> m_kv s' = m_kv s \<and> m_now s' = m_now s"
  by (induction ks arbitrary: s res) (auto simp: Let_def split: prod.splits)

lemma xreadgroup_result:
  "mem_xreadgroup g c ks n s = (res, s') \<Longrightarrow> (k, ms) \<in> set res \<Longrightarrow>
    k \<in> set ks \<and> set ms \<subseteq> set (mem_xrange s k) \<and> int (length ms) \<le> max n 0"
proof (induction ks arbitrary: s res)
  case (Cons a ks)
  obtain ms' pos where dl: "deliver (m_cursor s a) (nat n) (drop (m_cursor s a) (m_log s a)) = (ms', pos)"
    by fastforce
  let ?s1 = "s\<lparr>m_cursor := (m_cursor s)(a := pos),
     m_pel := (m_pel s)(a := m_pel s a @ map (\<lambda>m. (fst m, c, m_now s)) ms')\<rparr>"
  obtain r2 where r2: "mem_xreadgroup g c ks n ?s1 = (r2, s')"
    and res: "res = (if ms' = [] then r2 else (a, ms') # r2)"
    using Cons.prems(1) dl by (auto simp: Let_def split: prod.splits)
  have "set ms' \<subseteq> set (mem_xrange s a)" and "int (length ms') \<le> max n 0"
    using deliver_visible [of "m_cursor s a" "nat n" "drop (m_cursor s a) (m_log s a)"] dl
      visible_drop [of 0 "m_cursor s a" "m_log s a"]
    by (auto simp: mem_xrange_def)
  moreover have "mem_xrange ?s1 = mem_xrange s" by (simp add: mem_xrange_def fun_eq_iff)
  ultimately show ?case
    using Cons.IH [OF r2] Cons.prems(2) res by (auto split: if_splits)
qed simp

lemma xreadgroup_keys:
  "mem_xreadgroup g c ks n s = (res, s') \<Longrightarrow> distinct ks \<Longrightarrow> distinct (map fst res) \<and> fst ` set res \<subseteq> set ks"
proof (induction ks arbitrary: s res)
  case (Cons a ks)
  from Cons.prems(1) obtain ms' s1 r2 where "mem_xreadgroup g c ks n s1 = (r2, s')"
    and "res = (if ms' = [] then r2 else (a, ms') # r2)"
    by (auto simp: Let_def split: prod.splits)
  with Cons.IH [of s1 r2] Cons.prems(2) show ?case by (cases "ms' = []") auto
qed simp

lemma set_insort_filter:
  "set (insort_key snd (m, sc) (filter (\<lambda>x. fst x \<noteq> m) xs)) = insert (m, sc) {x \<in> set xs. fst x \<noteq> m}"
  by (auto simp: set_insort_key)

lemmas mem_defs = redis_mem_def same_queues_def same_strings_def zmembers_def stream_ids_def
  mem_issued_def fun_eq_iff mem_xrange_def mem_get_def

interpretation mem: redis_service redis_mem mem_issued
proof (unfold_locales, goal_cases)
  case (1 s k)
  show ?case using visible_ids [of "m_log s k"] by (simp add: mem_defs)
next
  case (2 k f s i s')
  then show ?case by (auto simp: mem_defs mem_xadd_def visible_append split: option.split)
next
  case (3 k f s i s')
  then show ?case by (auto simp: mem_defs mem_xadd_def lessThan_Suc)
next
  case (4 k n f s i s' k')
  then show ?case by (auto simp: mem_defs mem_xadd_maxlen_def Let_def split: option.split)
next
  case (5 k n f s i s')
  then show ?case by (auto simp: mem_defs mem_xadd_maxlen_def Let_def split: option.split)
next
  case (6 k g s b s')
  then show ?case by (auto simp: mem_defs)
next
  case (7 g c ks cnt s res s')
  then show ?case using xreadgroup_frame [of g c ks cnt s res s'] by (simp add: mem_defs split: option.split)
next
  case (8 g c ks cnt s res s' k ms)
  then show ?case using xreadgroup_result [of g c ks cnt s res s' k ms] by (simp add: redis_mem_def)
next
  case (9 g c ks cnt s res s')
  then show ?case using xreadgroup_keys [of g c ks cnt s res s'] by (simp add: redis_mem_def)
next
  case (10 k g i s u s')
  then show ?case by (auto simp: mem_defs mem_xack_def split: option.split)
next
  case (11 k i s u s')
  then show ?case by (auto simp: mem_defs mem_xdel_def visible_tombstone split: option.split if_splits)
next
  case (12 k g c i s u s')
  then show ?case by (auto simp: mem_defs mem_xclaim_def split: option.split)
next
  case (13 k g c idle n s ms s')
  then show ?case by (auto simp: mem_defs mem_xautoclaim_def Let_def split: option.split)
next
  case (14 k g c idle n s ms s')
  then show ?case by (auto simp: mem_defs mem_xautoclaim_def Let_def dest: in_set_takeD)
next
  case (15 k sc m s u s')
  then show ?case by (force simp: mem_defs mem_zadd_def set_insort_filter split: option.split)
next
  case (16 k sc m s u s' x)
  then show ?case by (auto simp: mem_defs mem_zadd_def set_insort_filter)
next
  case (17 m k mx n s)
  then obtain sc where "(m, sc) \<in> set (m_zsets s k)" "sc \<le> mx"
    by (auto simp: mem_defs mem_zrangebyscore_def dest!: in_set_takeD)
  then show ?case by (auto simp: redis_mem_def)
next
  case (18 k mx n s)
  then show ?case by (simp add: mem_defs mem_zrangebyscore_def)
next
  case (19 k m s)
  then show ?case by (force simp: mem_defs mem_zrem_def)
next
  case (20 k' k m s)
  then show ?case by (simp add: mem_defs mem_zrem_def split: option.split)
next
  case (21 k m s)
  then show ?case by (simp add: mem_defs mem_zrem_def split: option.split)
next
  case (22 k v ttl s u s')
  then show ?case by (auto simp: mem_defs mem_set_def split: option.splits if_splits)
next
  case (23 k v ttl s u s')
  then show ?case by (auto simp: mem_defs mem_set_def split: option.splits if_splits)
next
  case (24 k v ttl s b s')
  then show ?case by (auto simp: mem_defs mem_setnx_def split: if_splits option.splits)
next
  case (25 k v ttl s b s')
  then show ?case by (auto simp: mem_defs mem_setnx_def split: if_splits option.splits)
next
  case (26 k s)
  then show ?case by (auto simp: mem_defs mem_del_def split: option.splits if_splits)
next
  case (27 s k)
  then show ?case by (auto simp: mem_defs mem_del_def split: option.splits if_splits)
next
  case (28 ms k s)
  then show ?case by (auto simp: mem_defs mem_pexpire_def split: option.splits if_splits)
next
  case (29 s k ms)
  then show ?case by (auto simp: mem_defs mem_pexpire_def split: option.split)
qed

end
