(* ===== verification/World.thy ===== *)
theory World
  imports "HOL-Library.State_Monad" Batch_Props Retry Redis
begin

text \<open>
  The setting of the effectful code. A program of type \<open>('r, 'a) prog\<close> runs in a world that holds
  the database, the Redis server, and what the environment decides: the outcome of each remote
  call, each reading of the clock, each draw of the random generator. Every theorem about a program
  is for all of these. Below, a small Hoare logic for such programs.
\<close>

section \<open>Worlds and programs\<close>

record 'r world =
  w_db :: db
  w_rd :: 'r
  w_faults :: "nat \<Rightarrow> go_error fault"
  w_clock :: "nat \<Rightarrow> time"
  w_rand :: "nat \<Rightarrow> rat"

type_synonym ('r, 'a) prog = "('r world, 'a) state"

definition pass :: "'a \<Rightarrow> ('r, 'a) prog" where
  "pass x = State_Monad.return x"

definition pop_fault :: "('r, go_error fault) prog" where
  "pop_fault = State (\<lambda>w. (w_faults w 0, w\<lparr>w_faults := \<lambda>n. w_faults w (Suc n)\<rparr>))"

definition time_Now :: "('r, time) prog" where
  "time_Now = State (\<lambda>w. (w_clock w 0, w\<lparr>w_clock := \<lambda>n. w_clock w (Suc n)\<rparr>))"

definition rand :: "('r, rat) prog" where
  "rand = State (\<lambda>w. (w_rand w 0, w\<lparr>w_rand := \<lambda>n. w_rand w (Suc n)\<rparr>))"

definition on_db :: "(db \<Rightarrow> 'a \<times> db) \<Rightarrow> ('r, 'a) prog" where
  "on_db f = State (\<lambda>w. (fst (f (w_db w)), w\<lparr>w_db := snd (f (w_db w))\<rparr>))"

definition on_rd :: "('r \<Rightarrow> 'a \<times> 'r) \<Rightarrow> ('r, 'a) prog" where
  "on_rd f = State (\<lambda>w. (fst (f (w_rd w)), w\<lparr>w_rd := snd (f (w_rd w))\<rparr>))"

text \<open>A store method that sends one statement, or two, and a Redis command.\<close>

definition db1 :: "(go_error fault \<Rightarrow> db \<Rightarrow> 'a \<times> db) \<Rightarrow> ('r, 'a) prog" where
  "db1 f = do { ft \<leftarrow> pop_fault; on_db (f ft) }"

definition db2 :: "(go_error fault \<Rightarrow> go_error fault \<Rightarrow> db \<Rightarrow> 'a \<times> db) \<Rightarrow> ('r, 'a) prog" where
  "db2 f = do { ft \<leftarrow> pop_fault; fe \<leftarrow> pop_fault; on_db (f ft fe) }"

definition db_read :: "(go_error fault \<Rightarrow> db \<Rightarrow> 'a) \<Rightarrow> ('r, 'a) prog" where
  "db_read f = db1 (\<lambda>ft d. (f ft d, d))"

definition rcmd :: "('r \<Rightarrow> 'a \<times> 'r) \<Rightarrow> ('r, 'a res) prog" where
  "rcmd f = do { ft \<leftarrow> pop_fault; on_rd (remote ft f) }"

text \<open>A loop over a list for its effects.\<close>

fun for_each :: "'a list \<Rightarrow> ('a \<Rightarrow> ('r, unit) prog) \<Rightarrow> ('r, unit) prog" where
  "for_each [] f = pass ()"
| "for_each (x # xs) f = do { f x; for_each xs f }"

section \<open>Hoare triples\<close>

definition hoare :: "('r world \<Rightarrow> bool) \<Rightarrow> ('r, 'a) prog \<Rightarrow> ('a \<Rightarrow> 'r world \<Rightarrow> bool) \<Rightarrow> bool" where
  "hoare P m Q = (\<forall>w. P w \<longrightarrow> Q (fst (run_state m w)) (snd (run_state m w)))"

lemma hoareI: "(\<And>w. P w \<Longrightarrow> Q (fst (run_state m w)) (snd (run_state m w))) \<Longrightarrow> hoare P m Q"
  by (simp add: hoare_def)

lemma hoareD: "hoare P m Q \<Longrightarrow> P w \<Longrightarrow> run_state m w = (a, w') \<Longrightarrow> Q a w'"
  by (auto simp: hoare_def)

lemma hoare_pre: "hoare P m Q \<Longrightarrow> (\<And>w. P' w \<Longrightarrow> P w) \<Longrightarrow> hoare P' m Q"
  by (auto simp: hoare_def)

lemma hoare_post: "hoare P m Q \<Longrightarrow> (\<And>a w. Q a w \<Longrightarrow> Q' a w) \<Longrightarrow> hoare P m Q'"
  by (auto simp: hoare_def)

lemma hoare_bind:
  "hoare P m R \<Longrightarrow> (\<And>a. hoare (R a) (f a) Q) \<Longrightarrow> hoare P (m \<bind> f) Q"
  by (auto simp: hoare_def split: prod.splits)

lemma hoare_pass: "hoare (Q x) (pass x) Q"
  by (simp add: hoare_def pass_def)

lemma hoare_if:
  "(b \<Longrightarrow> hoare P m Q) \<Longrightarrow> (\<not> b \<Longrightarrow> hoare P n Q) \<Longrightarrow> hoare P (if b then m else n) Q"
  by simp

lemma hoare_res:
  "(\<And>e. x = Inl e \<Longrightarrow> hoare P (f e) Q) \<Longrightarrow> (\<And>a. x = Inr a \<Longrightarrow> hoare P (g a) Q) \<Longrightarrow>
    hoare P (case x of Inl e \<Rightarrow> f e | Inr a \<Rightarrow> g a) Q"
  by (cases x) simp_all

lemma hoare_option:
  "(x = None \<Longrightarrow> hoare P m Q) \<Longrightarrow> (\<And>a. x = Some a \<Longrightarrow> hoare P (g a) Q) \<Longrightarrow>
    hoare P (case x of None \<Rightarrow> m | Some a \<Rightarrow> g a) Q"
  by (cases x) simp_all

lemma hoare_conj: "hoare P m Q \<Longrightarrow> hoare P' m Q' \<Longrightarrow> hoare (\<lambda>w. P w \<and> P' w) m (\<lambda>a w. Q a w \<and> Q' a w)"
  by (auto simp: hoare_def)

text \<open>Premises that do not depend on the world move out of the precondition.\<close>

lemma hoare_fact: "(B \<Longrightarrow> hoare P m Q) \<Longrightarrow> hoare (\<lambda>w. B \<and> P w) m Q"
  by (auto simp: hoare_def)

definition keeps :: "('r world \<Rightarrow> bool) \<Rightarrow> ('r, 'a) prog \<Rightarrow> bool" where
  "keeps P m = hoare P m (\<lambda>_. P)"

lemma keeps_bind: "keeps P m \<Longrightarrow> (\<And>a. keeps P (f a)) \<Longrightarrow> keeps P (m \<bind> f)"
  unfolding keeps_def by (rule hoare_bind)

lemma keeps_pass [simp]: "keeps P (pass x)"
  unfolding keeps_def by (rule hoare_pass)

lemma keeps_for_each: "(\<And>x. x \<in> set xs \<Longrightarrow> keeps P (f x)) \<Longrightarrow> keeps P (for_each xs f)"
  by (induction xs) (auto intro!: keeps_bind)

lemma keepsD: "keeps P m \<Longrightarrow> P w \<Longrightarrow> P (snd (run_state m w))"
  by (simp add: keeps_def hoare_def)

text \<open>The atomic programs, for properties of the database and the server only.\<close>

definition services :: "(db \<Rightarrow> 'r \<Rightarrow> bool) \<Rightarrow> 'r world \<Rightarrow> bool" where
  "services I w = I (w_db w) (w_rd w)"

lemma services_pop_fault: "hoare (services I) pop_fault (\<lambda>_. services I)"
  by (simp add: hoare_def pop_fault_def services_def)

lemma services_time_Now: "hoare (services I) time_Now (\<lambda>_. services I)"
  by (simp add: hoare_def time_Now_def services_def)

lemma services_rand: "hoare (services I) rand (\<lambda>_. services I)"
  by (simp add: hoare_def rand_def services_def)

lemma services_on_db:
  "(\<And>d s. I d s \<Longrightarrow> J (fst (f d)) (snd (f d)) s) \<Longrightarrow> hoare (services I) (on_db f) (\<lambda>a. services (J a))"
  by (simp add: hoare_def on_db_def services_def)

lemma services_on_rd:
  "(\<And>d s. I d s \<Longrightarrow> J (fst (f s)) d (snd (f s))) \<Longrightarrow> hoare (services I) (on_rd f) (\<lambda>a. services (J a))"
  by (simp add: hoare_def on_rd_def services_def)

lemma services_db1:
  "(\<And>ft d s. I d s \<Longrightarrow> J (fst (f ft d)) (snd (f ft d)) s) \<Longrightarrow> hoare (services I) (db1 f) (\<lambda>a. services (J a))"
  unfolding db1_def by (rule hoare_bind [OF services_pop_fault services_on_db]) blast

lemma services_db2:
  "(\<And>ft fe d s. I d s \<Longrightarrow> J (fst (f ft fe d)) (snd (f ft fe d)) s) \<Longrightarrow>
    hoare (services I) (db2 f) (\<lambda>a. services (J a))"
  unfolding db2_def
  by (rule hoare_bind [OF services_pop_fault hoare_bind [OF services_pop_fault services_on_db]]) blast

lemma services_db_read:
  "(\<And>ft d s. I d s \<Longrightarrow> J (f ft d) d s) \<Longrightarrow> hoare (services I) (db_read f) (\<lambda>a. services (J a))"
  unfolding db_read_def by (rule services_db1) simp

lemma services_rcmd:
  assumes "\<And>d s. I d s \<Longrightarrow> J (Inr (fst (f s))) d (snd (f s))" and "\<And>e d s. I d s \<Longrightarrow> J (Inl e) d s"
    and "\<And>e d s. I d s \<Longrightarrow> J (Inl e) d (snd (f s))"
  shows "hoare (services I) (rcmd f) (\<lambda>a. services (J a))"
  unfolding rcmd_def
proof (rule hoare_bind [OF services_pop_fault services_on_rd])
  fix ft d s assume "I d s"
  with assms show "J (fst (remote ft f s)) d (snd (remote ft f s))" by (cases ft) simp_all
qed

lemma services_fact: "(B \<Longrightarrow> hoare (services I) m Q) \<Longrightarrow> hoare (services (\<lambda>d s. B \<and> I d s)) m Q"
  by (auto simp: hoare_def services_def)

lemma services_ex: "(\<And>x. hoare (services (I x)) m Q) \<Longrightarrow> hoare (services (\<lambda>d s. \<exists>x. I x d s)) m Q"
  by (auto simp: hoare_def services_def)

lemma services_mono:
  "hoare (services I) m (\<lambda>a. services (J a)) \<Longrightarrow> (\<And>d s. I' d s \<Longrightarrow> I d s) \<Longrightarrow>
    (\<And>a d s. J a d s \<Longrightarrow> J' a d s) \<Longrightarrow> hoare (services I') m (\<lambda>a. services (J' a))"
  by (auto simp: hoare_def services_def)

lemma services_pass: "(\<And>d s. I d s \<Longrightarrow> J x d s) \<Longrightarrow> hoare (services I) (pass x) (\<lambda>a. services (J a))"
  by (simp add: hoare_def pass_def services_def)

text \<open>A fact that the precondition implies in every world.\<close>

lemma services_implied:
  "(\<And>d s. I d s \<Longrightarrow> B) \<Longrightarrow> (B \<Longrightarrow> hoare (services I) m Q) \<Longrightarrow> hoare (services I) m Q"
  by (auto simp: hoare_def services_def)

lemma services_pre: "(\<And>d s. I' d s \<Longrightarrow> I d s) \<Longrightarrow> hoare (services I) m Q \<Longrightarrow> hoare (services I') m Q"
  by (auto simp: hoare_def services_def)

text \<open>A program whose result is dropped.\<close>

lemma services_then: "hoare (services I) m (\<lambda>_. services J) \<Longrightarrow> hoare (services J) k Q \<Longrightarrow>
    hoare (services I) (m \<bind> (\<lambda>_. k)) Q"
  by (rule hoare_bind)

lemma services_for_each:
  "(\<And>x. x \<in> set xs \<Longrightarrow> hoare (services I) (f x) (\<lambda>_. services I)) \<Longrightarrow>
    hoare (services I) (for_each xs f) (\<lambda>_. services I)"
  by (induction xs) (auto intro: services_pass services_then)

end
