(* ===== verification/Queue.thy ===== *)
theory Queue
  imports World
begin

text \<open>
  The Redis layer, \<^verbatim>\<open>internal/queue/queue.go\<close>: keys, enqueue, fetch, acknowledgement, retries,
  the dead-letter log, promotion of due envelopes, reaping of abandoned entries, cancel flags,
  depths and the leader lock. \<open>R\<close> is the Redis client, \<open>C\<close> the JSON codec of envelopes and
  \<open>q\<close> the \<^verbatim>\<open>Queue\<close> value.
\<close>

section \<open>Keys\<close>

definition Group :: string where "Group = ''calligraphy''"
definition ReaperConsumer :: string where "ReaperConsumer = ''calligraphy-reaper''"
definition dlqMaxLen :: nat where "dlqMaxLen = 10000"

record queue =
  k_prefix :: string
  k_queue :: string

definition queue_New :: "string \<Rightarrow> string \<Rightarrow> queue" where
  "queue_New cfg_prefix cfg_queue =
    \<lparr> k_prefix = (if cfg_prefix = [] then ''calligraphy'' else cfg_prefix),
      k_queue = (if cfg_queue = [] then DefaultQueue else cfg_queue) \<rparr>"

definition streamKey :: "queue \<Rightarrow> priority \<Rightarrow> key" where
  "streamKey q p = k_prefix q @ '':stream:'' @ k_queue q @ '':'' @ p"

definition delayedKey :: "queue \<Rightarrow> priority \<Rightarrow> key" where
  "delayedKey q p = k_prefix q @ '':delayed:'' @ k_queue q @ '':'' @ p"

definition dlqKey :: "queue \<Rightarrow> key" where
  "dlqKey q = k_prefix q @ '':dlq:'' @ k_queue q"

definition cancelKey :: "queue \<Rightarrow> string \<Rightarrow> key" where
  "cancelKey q i = k_prefix q @ '':cancel:'' @ i"

definition leaderKey :: "queue \<Rightarrow> string \<Rightarrow> key" where
  "leaderKey q role = k_prefix q @ '':leader:'' @ role"

text \<open>\<^verbatim>\<open>EnsureGroup\<close>: the answer \<open>False\<close> of the command is the error \<^verbatim>\<open>BUSYGROUP\<close>.\<close>

fun ensure_group :: "'r redis \<Rightarrow> queue \<Rightarrow> priority list \<Rightarrow> ('r, unit res) prog" where
  "ensure_group R q [] = pass (Inr ())"
| "ensure_group R q (p # ps) = do {
    r \<leftarrow> rcmd (xgroup_create R (streamKey q p) Group);
    (case r of
       Inl e \<Rightarrow> pass (Inl (ErrorfW (''queue: creating group on '' @ streamKey q p @ '': '') e))
     | Inr _ \<Rightarrow> ensure_group R q ps) }"

definition EnsureGroup :: "'r redis \<Rightarrow> queue \<Rightarrow> ('r, unit res) prog" where
  "EnsureGroup R q = ensure_group R q PriorityOrder"

section \<open>Enqueue\<close>

definition wrap_err :: "string \<Rightarrow> 'a res \<Rightarrow> 'a res" where
  "wrap_err prefix x = (case x of Inl e \<Rightarrow> Inl (ErrorfW prefix e) | Inr a \<Rightarrow> Inr a)"

definition Enqueue :: "'r redis \<Rightarrow> codec \<Rightarrow> queue \<Rightarrow> envelope \<Rightarrow> time \<Rightarrow> ('r, string res) prog" where
  "Enqueue R C q env ready =
    (case Encode C env of
       Inl e \<Rightarrow> pass (Inl e)
     | Inr encoded \<Rightarrow> do {
         now \<leftarrow> time_Now;
         if ready > now
         then do {
           r \<leftarrow> rcmd (zadd R (delayedKey q (e_Priority env)) (UnixMilli ready) encoded);
           pass (wrap_err ''queue: delayed enqueue: '' (map_sum id (\<lambda>_. ''delayed'') r)) }
         else do {
           r \<leftarrow> rcmd (xadd R (streamKey q (e_Priority env)) [(''j'', encoded)]);
           pass (wrap_err ''queue: enqueue: '' r) } })"

section \<open>Fetch\<close>

record delivery =
  dv_Env :: envelope
  dv_EntryID :: string
  dv_Priority :: priority

text \<open>The pipeline sends both commands; it fails if either does.\<close>

definition Ack :: "'r redis \<Rightarrow> queue \<Rightarrow> priority \<Rightarrow> string \<Rightarrow> ('r, unit res) prog" where
  "Ack R q p entryID = do {
    r1 \<leftarrow> rcmd (xack R (streamKey q p) Group entryID);
    r2 \<leftarrow> rcmd (xdel R (streamKey q p) entryID);
    pass (wrap_err (''queue: ack '' @ entryID @ '': '') (case r1 of Inl e \<Rightarrow> Inl e | Inr _ \<Rightarrow> r2)) }"

definition field :: "string \<Rightarrow> fields \<Rightarrow> string" where
  "field k f = (case map_of f k of None \<Rightarrow> [] | Some v \<Rightarrow> v)"

definition decodeMessage ::
  "'r redis \<Rightarrow> codec \<Rightarrow> queue \<Rightarrow> message \<Rightarrow> priority \<Rightarrow> ('r, delivery option) prog"
where
  "decodeMessage R C q m p =
    (case DecodeEnvelope C (field ''j'' (snd m)) of
       Inl err \<Rightarrow> do { _ \<leftarrow> Ack R q p (fst m); pass None }
     | Inr env \<Rightarrow> pass (Some \<lparr> dv_Env = env, dv_EntryID = fst m, dv_Priority = p \<rparr>))"

fun append_messages ::
  "'r redis \<Rightarrow> codec \<Rightarrow> queue \<Rightarrow> message list \<Rightarrow> priority \<Rightarrow> delivery list \<Rightarrow> ('r, delivery list) prog"
where
  "append_messages R C q [] p out = pass out"
| "append_messages R C q (m # ms) p out = do {
    d \<leftarrow> decodeMessage R C q m p;
    append_messages R C q ms p (case d of None \<Rightarrow> out | Some x \<Rightarrow> out @ [x]) }"

definition appendDeliveries ::
  "'r redis \<Rightarrow> codec \<Rightarrow> queue \<Rightarrow> delivery list \<Rightarrow> (key \<times> message list) list \<Rightarrow> priority \<Rightarrow> ('r, delivery list) prog"
where
  "appendDeliveries R C q out streams p = append_messages R C q (concat (map snd streams)) p out"

definition priorityOfStream :: "queue \<Rightarrow> key \<Rightarrow> priority" where
  "priorityOfStream q stream =
    (case find (\<lambda>p. streamKey q p = stream) PriorityOrder of None \<Rightarrow> PriorityDefault | Some p \<Rightarrow> p)"

text \<open>
  The non-blocking pass. The result is what \<^verbatim>\<open>Fetch\<close> has collected, its error, and whether it
  returned early.
\<close>

fun fetch_ready ::
  "'r redis \<Rightarrow> codec \<Rightarrow> queue \<Rightarrow> string \<Rightarrow> int \<Rightarrow> priority list \<Rightarrow> delivery list \<Rightarrow>
    ('r, delivery list \<times> error \<times> bool) prog"
where
  "fetch_ready R C q consumer mx [] out = pass (out, None, False)"
| "fetch_ready R C q consumer mx (p # ps) out =
    (if int (length out) \<ge> mx then pass (out, None, True)
     else do {
       r \<leftarrow> rcmd (xreadgroup R Group consumer [streamKey q p] (mx - int (length out)));
       (case r of
          Inl e \<Rightarrow> pass (out, Some (ErrorfW (''queue: fetch '' @ p @ '': '') e), True)
        | Inr streams \<Rightarrow> do {
            out' \<leftarrow> appendDeliveries R C q out streams p;
            fetch_ready R C q consumer mx ps out' }) })"

fun append_streams ::
  "'r redis \<Rightarrow> codec \<Rightarrow> queue \<Rightarrow> (key \<times> message list) list \<Rightarrow> delivery list \<Rightarrow> ('r, delivery list) prog"
where
  "append_streams R C q [] out = pass out"
| "append_streams R C q (s # ss) out = do {
    out' \<leftarrow> appendDeliveries R C q out [s] (priorityOfStream q (fst s));
    append_streams R C q ss out' }"

definition Fetch ::
  "'r redis \<Rightarrow> codec \<Rightarrow> queue \<Rightarrow> string \<Rightarrow> int \<Rightarrow> duration \<Rightarrow> ('r, delivery list \<times> error) prog"
where
  "Fetch R C q consumer mx block = do {
    x \<leftarrow> fetch_ready R C q consumer mx PriorityOrder [];
    (case x of (out, err, early) \<Rightarrow>
       if early \<or> length out > 0 \<or> block \<le> 0 then pass (out, err)
       else do {
         r \<leftarrow> rcmd (xreadgroup R Group consumer (map (streamKey q) PriorityOrder) mx);
         (case r of
            Inl e \<Rightarrow> pass (out, Some (ErrorfW ''queue: blocking fetch: '' e))
          | Inr streams \<Rightarrow> do {
              out' \<leftarrow> append_streams R C q streams out;
              pass (out', None) }) }) }"

definition Heartbeat :: "'r redis \<Rightarrow> queue \<Rightarrow> string \<Rightarrow> priority \<Rightarrow> string \<Rightarrow> ('r, unit res) prog" where
  "Heartbeat R q consumer p entryID = do {
    r \<leftarrow> rcmd (xclaim_justid R (streamKey q p) Group consumer entryID);
    pass (wrap_err (''queue: heartbeat '' @ entryID @ '': '') r) }"

section \<open>Retries and the dead-letter log\<close>

definition queue_ScheduleRetry :: "'r redis \<Rightarrow> codec \<Rightarrow> queue \<Rightarrow> envelope \<Rightarrow> time \<Rightarrow> ('r, unit res) prog" where
  "queue_ScheduleRetry R C q env ready =
    (case Encode C env of
       Inl e \<Rightarrow> pass (Inl e)
     | Inr encoded \<Rightarrow> do {
         r \<leftarrow> rcmd (zadd R (delayedKey q (e_Priority env)) (UnixMilli ready) encoded);
         pass (wrap_err ''queue: scheduling retry: '' r) })"

definition DeadLetter :: "'r redis \<Rightarrow> codec \<Rightarrow> queue \<Rightarrow> envelope \<Rightarrow> string \<Rightarrow> ('r, unit res) prog" where
  "DeadLetter R C q env errMsg =
    (case Encode C env of
       Inl e \<Rightarrow> pass (Inl e)
     | Inr encoded \<Rightarrow> do {
         now \<leftarrow> time_Now;
         r \<leftarrow> rcmd (xadd_maxlen R (dlqKey q) dlqMaxLen
                [(''j'', encoded), (''error'', errMsg), (''at'', RFC3339 now)]);
         pass (wrap_err ''queue: dead-lettering: '' (map_sum id (\<lambda>_. ()) r)) })"

record dlq_entry =
  dq_EntryID :: string
  dq_Env :: envelope
  dq_Error :: string
  dq_At :: string

definition dlq_of :: "codec \<Rightarrow> message \<Rightarrow> dlq_entry option" where
  "dlq_of C m =
    (case DecodeEnvelope C (field ''j'' (snd m)) of
       Inl _ \<Rightarrow> None
     | Inr env \<Rightarrow> Some \<lparr> dq_EntryID = fst m, dq_Env = env, dq_Error = field ''error'' (snd m),
         dq_At = field ''at'' (snd m) \<rparr>)"

definition ListDLQ :: "'r redis \<Rightarrow> codec \<Rightarrow> queue \<Rightarrow> nat \<Rightarrow> ('r, dlq_entry list res) prog" where
  "ListDLQ R C q limit = do {
    r \<leftarrow> rcmd (\<lambda>s. (take limit (rev (xrange R s (dlqKey q))), s));
    pass (wrap_err ''queue: listing dlq: '' (map_sum id (List.map_filter (dlq_of C)) r)) }"

section \<open>Promotion\<close>

text \<open>The Lua script, which Redis runs atomically.\<close>

definition promoteScript :: "'r redis \<Rightarrow> key \<Rightarrow> key \<Rightarrow> int \<Rightarrow> nat \<Rightarrow> 'r \<Rightarrow> string list \<times> 'r" where
  "promoteScript R delayed stream now batch s =
    (let due = zrangebyscore R delayed now batch s in
     (due, fold (\<lambda>member s. zrem R delayed member (snd (xadd R stream [(''j'', member)] s))) due s))"

definition decoded :: "codec \<Rightarrow> string list \<Rightarrow> envelope list" where
  "decoded C = List.map_filter (\<lambda>m. case DecodeEnvelope C m of Inl _ \<Rightarrow> None | Inr e \<Rightarrow> Some e)"

fun promote_all ::
  "'r redis \<Rightarrow> codec \<Rightarrow> queue \<Rightarrow> int \<Rightarrow> nat \<Rightarrow> priority list \<Rightarrow> envelope list \<Rightarrow> ('r, envelope list \<times> error) prog"
where
  "promote_all R C q now batch [] promoted = pass (promoted, None)"
| "promote_all R C q now batch (p # ps) promoted = do {
    r \<leftarrow> rcmd (promoteScript R (delayedKey q p) (streamKey q p) now batch);
    (case r of
       Inl e \<Rightarrow> pass (promoted, Some (ErrorfW (''queue: promoting '' @ p @ '': '') e))
     | Inr members \<Rightarrow> promote_all R C q now batch ps (promoted @ decoded C members)) }"

definition PromoteDue :: "'r redis \<Rightarrow> codec \<Rightarrow> queue \<Rightarrow> nat \<Rightarrow> ('r, envelope list \<times> error) prog" where
  "PromoteDue R C q batch = do {
    now \<leftarrow> time_Now;
    promote_all R C q (UnixMilli now) batch PriorityOrder [] }"

section \<open>Reaping\<close>

fun reap_streams ::
  "'r redis \<Rightarrow> codec \<Rightarrow> queue \<Rightarrow> duration \<Rightarrow> nat \<Rightarrow> priority list \<Rightarrow> delivery list \<Rightarrow> ('r, delivery list \<times> error) prog"
where
  "reap_streams R C q minIdle batch [] out = pass (out, None)"
| "reap_streams R C q minIdle batch (p # ps) out = do {
    r \<leftarrow> rcmd (xautoclaim R (streamKey q p) Group ReaperConsumer minIdle batch);
    (case r of
       Inl e \<Rightarrow> pass (out, Some (ErrorfW (''queue: autoclaim '' @ p @ '': '') e))
     | Inr msgs \<Rightarrow> do {
         out' \<leftarrow> append_messages R C q msgs p out;
         reap_streams R C q minIdle batch ps out' }) }"

definition ReapAbandoned ::
  "'r redis \<Rightarrow> codec \<Rightarrow> queue \<Rightarrow> duration \<Rightarrow> nat \<Rightarrow> ('r, delivery list \<times> error) prog"
where
  "ReapAbandoned R C q minIdle batch = reap_streams R C q minIdle batch PriorityOrder []"

section \<open>Cancel flags\<close>

definition RequestCancel :: "'r redis \<Rightarrow> queue \<Rightarrow> string \<Rightarrow> duration \<Rightarrow> ('r, unit res) prog" where
  "RequestCancel R q jobID ttl = do {
    r \<leftarrow> rcmd (kv_set R (cancelKey q jobID) ''1'' ttl);
    pass (wrap_err ''queue: requesting cancel: '' r) }"

definition IsCancelRequested :: "'r redis \<Rightarrow> queue \<Rightarrow> string \<Rightarrow> ('r, bool res) prog" where
  "IsCancelRequested R q jobID = do {
    r \<leftarrow> rcmd (\<lambda>s. (kv_get R s (cancelKey q jobID) \<noteq> None, s));
    pass (wrap_err ''queue: checking cancel: '' r) }"

section \<open>Depths\<close>

record depths =
  dp_Ready :: "(priority \<times> int) list"
  dp_Delayed :: "(priority \<times> int) list"
  dp_InFlight :: int
  dp_DLQ :: int

definition TotalReady :: "depths \<Rightarrow> int" where
  "TotalReady d = sum_list (map snd (dp_Ready d))"

definition read_depths :: "'r redis \<Rightarrow> queue \<Rightarrow> 'r \<Rightarrow> depths" where
  "read_depths R q s =
    (let xlen = (\<lambda>k. int (length (xrange R s k)));
         pending = (\<lambda>p. int (xpending R s (streamKey q p) Group)) in
     \<lparr> dp_Ready = map (\<lambda>p. let ready = xlen (streamKey q p) - pending p in
         (p, if ready < 0 then 0 else ready)) PriorityOrder,
       dp_Delayed = map (\<lambda>p. (p, int (length (zrange R s (delayedKey q p))))) PriorityOrder,
       dp_InFlight = sum_list (map pending PriorityOrder),
       dp_DLQ = xlen (dlqKey q) \<rparr>)"

definition Depths :: "'r redis \<Rightarrow> queue \<Rightarrow> ('r, depths res) prog" where
  "Depths R q = do {
    r \<leftarrow> rcmd (\<lambda>s. (read_depths R q s, s));
    pass (wrap_err ''queue: reading depths: '' r) }"

section \<open>The leader lock\<close>

definition releaseScript :: "'r redis \<Rightarrow> key \<Rightarrow> string \<Rightarrow> 'r \<Rightarrow> bool \<times> 'r" where
  "releaseScript R k i s = (if kv_get R s k = Some i then (True, kv_del R k s) else (False, s))"

definition renewScript :: "'r redis \<Rightarrow> key \<Rightarrow> string \<Rightarrow> int \<Rightarrow> 'r \<Rightarrow> bool \<times> 'r" where
  "renewScript R k i ms s = (if kv_get R s k = Some i then (True, kv_pexpire R k ms s) else (False, s))"

definition AcquireLeader :: "'r redis \<Rightarrow> queue \<Rightarrow> string \<Rightarrow> string \<Rightarrow> duration \<Rightarrow> ('r, bool res) prog" where
  "AcquireLeader R q role i ttl = do {
    r \<leftarrow> rcmd (kv_setnx R (leaderKey q role) i ttl);
    pass (wrap_err ''queue: acquiring leadership: '' r) }"

definition RenewLeader :: "'r redis \<Rightarrow> queue \<Rightarrow> string \<Rightarrow> string \<Rightarrow> duration \<Rightarrow> ('r, bool res) prog" where
  "RenewLeader R q role i ttl = do {
    r \<leftarrow> rcmd (renewScript R (leaderKey q role) i (ttl div millisecond));
    pass (wrap_err ''queue: renewing leadership: '' r) }"

definition ReleaseLeader :: "'r redis \<Rightarrow> queue \<Rightarrow> string \<Rightarrow> string \<Rightarrow> ('r, unit res) prog" where
  "ReleaseLeader R q role i = do {
    r \<leftarrow> rcmd (releaseScript R (leaderKey q role) i);
    pass (wrap_err ''queue: releasing leadership: '' (map_sum id (\<lambda>_. ()) r)) }"

end
