(* ===== verification/Runner.thy ===== *)
theory Runner
  imports Queue
begin

text \<open>
  Executing one delivery, \<^verbatim>\<open>internal/worker/runner.go\<close>, with the handler registry of
  \<^verbatim>\<open>internal/handler/handler.go\<close>. The recorder is a parameter \<open>rec\<close>, as the Go field of the
  interface type \<^verbatim>\<open>Recorder\<close> is; what the handler and everything else does between the claim
  and \<^verbatim>\<open>finish\<close> is the program \<open>during\<close>.
\<close>

section \<open>The registry\<close>

record registration =
  g_Type :: string
  g_hasHandler :: bool
  g_LeaseTTL :: duration
  g_ExecTimeout :: duration
  g_MaxAttempts :: int

type_synonym registry = "(string \<times> registration) list"

definition registry_Get :: "registry \<Rightarrow> string \<Rightarrow> registration option" where
  "registry_Get m jobType = map_of m jobType"

definition NewRegistry :: registry where
  "NewRegistry = []"

text \<open>The errors of \<^verbatim>\<open>Register\<close>, each with the name its message quotes.\<close>

datatype register_error =
    InvalidTypeName string
  | NilHandler string
  | DuplicateRegistration string

definition registry_Register :: "registry \<Rightarrow> registration \<Rightarrow> register_error + registry" where
  "registry_Register m reg =
    (if \<not> ValidName (g_Type reg) then Inl (InvalidTypeName (g_Type reg))
     else if \<not> g_hasHandler reg then Inl (NilHandler (g_Type reg))
     else if registry_Get m (g_Type reg) \<noteq> None then Inl (DuplicateRegistration (g_Type reg))
     else Inr (m @ [(g_Type reg, reg)]))"

definition registry_Types :: "registry \<Rightarrow> string list" where
  "registry_Types m = map fst m"

section \<open>The runner\<close>

record runner =
  n_Registry :: registry
  n_Base :: duration
  n_Cap :: duration
  n_WorkerID :: string
  n_LeaseTTL :: duration
  n_ExecTimeout :: duration

definition errLeaseLost :: go_error where
  "errLeaseLost = Sentinel ''worker.errLeaseLost'' ''worker: lease lost to the reaper''"

definition isPanic :: "error \<Rightarrow> bool" where
  "isPanic err = errors_As err is_PanicError"

text \<open>
  The calls of the interface \<^verbatim>\<open>Observer\<close>. A completion carries its execution time and its
  end-to-end time.
\<close>

datatype observation =
    JobStarted string
  | JobCompleted string duration duration
  | JobFailed string
  | JobRetried string
  | JobDeadLettered string
  | JobCancelled string
  | ClaimSkipped
  | WriteFenced

text \<open>What a handler does: return, or panic with a rendered value and stack.\<close>

datatype handler_exit = Returned string error | Panicked string

definition safeHandle :: "handler_exit \<Rightarrow> string \<times> error" where
  "safeHandle x =
    (case x of
       Returned result err \<Rightarrow> (result, err)
     | Panicked v \<Rightarrow> ([], Some (PanicError (Errorf (''worker: handler panicked: '' @ v)))))"

text \<open>The backoff draws from the generator.\<close>

definition backoff_delay :: "duration \<Rightarrow> duration \<Rightarrow> int \<Rightarrow> ('r, duration) prog" where
  "backoff_delay base cap n = do {
    u \<leftarrow> rand;
    pass (Delay \<lparr> p_base = base, p_cap = cap, p_rng = u \<rparr> n) }"

definition finish_outcome :: "error \<Rightarrow> error \<Rightarrow> outcome" where
  "finish_outcome handlerErr cause =
    (let oc = ClassifyError handlerErr cause;
         oc = (if oc = OutcomeRetryable \<and> isPanic handlerErr then OutcomePanicked else oc)
     in if handlerErr \<noteq> None \<and> errors_Is cause errLeaseLost then OutcomeLeaseExpired else oc)"

definition runner_ack :: "'r redis \<Rightarrow> queue \<Rightarrow> delivery \<Rightarrow> ('r, unit) prog" where
  "runner_ack R q d = do { _ \<leftarrow> Ack R q (dv_Priority d) (dv_EntryID d); pass () }"

text \<open>
  The switch of \<^verbatim>\<open>finish\<close> on the outcome: the recorder's answer and the notification. (The
  outcome of an expired lease returns before it and is not a case here.)
\<close>

definition finish_record ::
  "'r redis \<Rightarrow> codec \<Rightarrow> queue \<Rightarrow> runner \<Rightarrow> (op \<Rightarrow> db \<Rightarrow> bool res \<times> db) \<Rightarrow> delivery \<Rightarrow> claim \<Rightarrow>
    string \<Rightarrow> error \<Rightarrow> outcome \<Rightarrow> attempt \<Rightarrow> time \<Rightarrow> ('r, bool res \<times> observation) prog"
where
  "finish_record R C q n rec d cl result handlerErr oc att now =
    (let i = e_ID (dv_Env d); ep = c_Epoch cl; ty = e_Type (dv_Env d); msg = AttemptError handlerErr in
     if oc = OutcomeCompleted then do {
       x \<leftarrow> on_db (rec (op_Complete i ep result att));
       pass (x, JobCompleted ty (time_Sub now (c_StartedAt cl)) (time_Sub now (e_EnqueuedAt (dv_Env d)))) }
     else if oc = OutcomeFailed then do {
       x \<leftarrow> on_db (rec (op_Fail i ep msg att));
       pass (x, JobFailed ty) }
     else if oc = OutcomeCancelled then do {
       x \<leftarrow> on_db (rec (op_Cancelled i ep att));
       pass (x, JobCancelled ty) }
     else if c_Attempt cl \<ge> c_MaxAttempts cl then do {
       x \<leftarrow> on_db (rec (op_DeadLetter i ep msg att));
       (if x = Inr True then do { _ \<leftarrow> DeadLetter R C q (dv_Env d) msg; pass () } else pass ());
       pass (x, JobDeadLettered ty) }
     else do {
       delay \<leftarrow> (if oc = OutcomeInterrupted then pass 0
                else backoff_delay (n_Base n) (n_Cap n) (c_Attempt cl));
       x \<leftarrow> on_db (rec (op_Retry i ep msg (now + delay) att));
       (if x = Inr True
        then do {
          _ \<leftarrow> queue_ScheduleRetry R C q ((dv_Env d)\<lparr>e_Attempt := c_Attempt cl + 1\<rparr>) (now + delay);
          pass () }
        else pass ());
       pass (x, JobRetried ty) })"

definition finish ::
  "'r redis \<Rightarrow> codec \<Rightarrow> queue \<Rightarrow> runner \<Rightarrow> (op \<Rightarrow> db \<Rightarrow> bool res \<times> db) \<Rightarrow> delivery \<Rightarrow> claim \<Rightarrow>
    string \<Rightarrow> error \<Rightarrow> error \<Rightarrow> ('r, observation list) prog"
where
  "finish R C q n rec d cl result handlerErr cause = do {
    now \<leftarrow> time_Now;
    (let oc = finish_outcome handlerErr cause;
         att = \<lparr> a_JobID = e_ID (dv_Env d), a_Attempt = c_Attempt cl, a_WorkerID = n_WorkerID n,
                 a_StartedAt = c_StartedAt cl, a_FinishedAt = now, a_Outcome = oc,
                 a_Error = AttemptError handlerErr \<rparr>
     in if oc = OutcomeLeaseExpired
        then do { _ \<leftarrow> db1 (\<lambda>ft. RecordAttempt ft att); pass [] }
        else do {
          x \<leftarrow> finish_record R C q n rec d cl result handlerErr oc att now;
          (case x of
             (Inl _, _) \<Rightarrow> pass []
           | (Inr applied, notify) \<Rightarrow> do {
               runner_ack R q d;
               pass ((if applied then [] else [WriteFenced]) @ [notify]) }) }) }"

section \<open>Heartbeats\<close>

text \<open>One tick of \<^verbatim>\<open>heartbeat\<close>: the cause it cancels the execution with, if any.\<close>

definition heartbeat_tick ::
  "'r redis \<Rightarrow> queue \<Rightarrow> runner \<Rightarrow> delivery \<Rightarrow> claim \<Rightarrow> duration \<Rightarrow> ('r, error) prog"
where
  "heartbeat_tick R q n d cl leaseTTL = do {
    _ \<leftarrow> Heartbeat R q (n_WorkerID n) (dv_Priority d) (dv_EntryID d);
    stillOurs \<leftarrow> db1 (\<lambda>ft. ExtendLease ft (e_ID (dv_Env d)) (c_Epoch cl) leaseTTL);
    if stillOurs = Inr False then pass (Some errLeaseLost)
    else do {
      cancelled \<leftarrow> IsCancelRequested R q (e_ID (dv_Env d));
      pass (if cancelled = Inr True then Some ErrCancelRequested else None) } }"

text \<open>The loop, for the number of ticks that elapse before the handler returns.\<close>

fun heartbeat ::
  "'r redis \<Rightarrow> queue \<Rightarrow> runner \<Rightarrow> delivery \<Rightarrow> claim \<Rightarrow> duration \<Rightarrow> nat \<Rightarrow> ('r, error) prog"
where
  "heartbeat R q n d cl ttl 0 = pass None"
| "heartbeat R q n d cl ttl (Suc k) = do {
    c \<leftarrow> heartbeat_tick R q n d cl ttl;
    (case c of Some e \<Rightarrow> pass (Some e) | None \<Rightarrow> heartbeat R q n d cl ttl k) }"

section \<open>Run\<close>

definition lease_ttl :: "runner \<Rightarrow> string \<Rightarrow> duration" where
  "lease_ttl n ty =
    (case registry_Get (n_Registry n) ty of
       Some reg \<Rightarrow> if g_LeaseTTL reg > 0 then g_LeaseTTL reg else n_LeaseTTL n
     | None \<Rightarrow> n_LeaseTTL n)"

definition exec_timeout :: "runner \<Rightarrow> string \<Rightarrow> duration" where
  "exec_timeout n ty =
    (case registry_Get (n_Registry n) ty of
       Some reg \<Rightarrow> if g_ExecTimeout reg > 0 then g_ExecTimeout reg else n_ExecTimeout n
     | None \<Rightarrow> n_ExecTimeout n)"

text \<open>The job a handler sees: the fields \<^verbatim>\<open>Run\<close> does not set have Go's zero values.\<close>

definition run_job :: "delivery \<Rightarrow> claim \<Rightarrow> job" where
  "run_job d cl =
    \<lparr> j_ID = e_ID (dv_Env d), j_Type = e_Type (dv_Env d), j_Queue = e_Queue (dv_Env d),
      j_Status = StatusRunning, j_Priority = e_Priority (dv_Env d), j_Payload = e_Payload (dv_Env d),
      j_Result = [], j_Error = [], j_IdempotencyKey = [], j_AttemptCount = c_Attempt cl,
      j_MaxAttempts = c_MaxAttempts cl, j_LeaseEpoch = 0, j_LeaseExpiresAt = None, j_WorkerID = [],
      j_CreatedAt = zero_time, j_ScheduledAt = zero_time, j_StartedAt = None, j_CompletedAt = None \<rparr>"

text \<open>The part up to the execution: the claim, or \<open>None\<close> when there is nothing to execute.\<close>

definition Run_claim ::
  "'r redis \<Rightarrow> queue \<Rightarrow> runner \<Rightarrow> delivery \<Rightarrow> ('r, claim option \<times> observation list) prog"
where
  "Run_claim R q n d = do {
    r \<leftarrow> db1 (\<lambda>ft. ClaimJob ft (e_ID (dv_Env d)) (n_WorkerID n) (lease_ttl n (e_Type (dv_Env d))));
    (case r of
       Inl _ \<Rightarrow> pass (None, [])
     | Inr None \<Rightarrow> do { runner_ack R q d; pass (None, [ClaimSkipped]) }
     | Inr (Some cl) \<Rightarrow> pass (Some cl, [JobStarted (e_Type (dv_Env d))])) }"

text \<open>
  \<open>during\<close> is everything between the claim and \<^verbatim>\<open>finish\<close>: it is given the claim, the job, the
  lease and the time limit, and ends with what the handler did and the cancellation cause of its
  context.
\<close>

definition Run ::
  "'r redis \<Rightarrow> codec \<Rightarrow> queue \<Rightarrow> runner \<Rightarrow> (op \<Rightarrow> db \<Rightarrow> bool res \<times> db) \<Rightarrow>
    (claim \<Rightarrow> job \<Rightarrow> duration \<Rightarrow> duration \<Rightarrow> ('r, handler_exit \<times> error) prog) \<Rightarrow> delivery \<Rightarrow>
    ('r, observation list) prog"
where
  "Run R C q n rec during d = do {
    x \<leftarrow> Run_claim R q n d;
    (case x of
       (None, obs) \<Rightarrow> pass obs
     | (Some cl, obs) \<Rightarrow>
         if registry_Get (n_Registry n) (e_Type (dv_Env d)) = None
         then do { obs' \<leftarrow> finish R C q n rec d cl [] ErrNoHandler None; pass (obs @ obs') }
         else do {
           y \<leftarrow> during cl (run_job d cl) (lease_ttl n (e_Type (dv_Env d))) (exec_timeout n (e_Type (dv_Env d)));
           (case y of (ex, cause) \<Rightarrow> do {
              obs' \<leftarrow> finish R C q n rec d cl (fst (safeHandle ex)) (snd (safeHandle ex)) cause;
              pass (obs @ obs') }) }) }"

end
