(* ===== verification/Recovery.thy ===== *)
theory Recovery
  imports Runner
begin

text \<open>
  The recovery duties, \<^verbatim>\<open>internal/recovery/recovery.go\<close>: promotion, reaping by the pending list,
  the sweep of stale RUNNING rows, the two repairs, the sweep of workers, and one iteration of
  the leader's loop.
\<close>

definition leaderRole :: string where "leaderRole = ''recovery''"
definition leaderTTL :: duration where "leaderTTL = 15 * second"
definition promoteEvery :: int where "promoteEvery = 1"
definition reapEvery :: int where "reapEvery = 8"
definition sweepEvery :: int where "sweepEvery = 40"
definition batchSize :: nat where "batchSize = 256"

record leader =
  y_Base :: duration
  y_Cap :: duration
  y_ID :: string
  y_ReapMinIdle :: duration
  y_SweepGrace :: duration
  y_OrphanAge :: duration

section \<open>Promotion\<close>

definition promote :: "'r redis \<Rightarrow> codec \<Rightarrow> queue \<Rightarrow> ('r, unit) prog" where
  "promote R C q = do {
    x \<leftarrow> PromoteDue R C q batchSize;
    (case x of (envs, err) \<Rightarrow>
       if err \<noteq> None \<or> length envs = 0 then pass ()
       else do { _ \<leftarrow> db1 (\<lambda>ft. MarkPromoted ft (map e_ID envs)); pass () }) }"

section \<open>Reaping\<close>

definition recovery_ack :: "'r redis \<Rightarrow> queue \<Rightarrow> delivery \<Rightarrow> ('r, unit) prog" where
  "recovery_ack R q d = do { _ \<leftarrow> Ack R q (dv_Priority d) (dv_EntryID d); pass () }"

definition recordAttempt :: "attempt \<Rightarrow> ('r, unit) prog" where
  "recordAttempt a = do { _ \<leftarrow> db1 (\<lambda>ft. RecordAttempt ft a); pass () }"

definition AddEvent :: "string \<Rightarrow> string \<Rightarrow> detail option \<Rightarrow> ('r, unit) prog" where
  "AddEvent i ev dt = db1 (\<lambda>ft d. ((), addEvent ft i ev dt d))"

definition expired_attempt :: "string \<Rightarrow> reap_result \<Rightarrow> time \<Rightarrow> string \<Rightarrow> attempt" where
  "expired_attempt i res now msg =
    \<lparr> a_JobID = i, a_Attempt = rr_Attempt res, a_WorkerID = rr_PrevWorker res, a_StartedAt = now,
      a_FinishedAt = now, a_Outcome = OutcomeLeaseExpired, a_Error = msg \<rparr>"

definition ackUnreaped :: "'r redis \<Rightarrow> codec \<Rightarrow> queue \<Rightarrow> delivery \<Rightarrow> ('r, unit) prog" where
  "ackUnreaped R C q d = do {
    r \<leftarrow> db_read (\<lambda>ft. GetJob ft (e_ID (dv_Env d)));
    (case r of
       Inl _ \<Rightarrow> pass ()
     | Inr j \<Rightarrow>
         if j_Status j = StatusPending
         then do {
           now \<leftarrow> time_Now;
           x \<leftarrow> Enqueue R C q ((dv_Env d)\<lparr>e_Attempt := j_AttemptCount j + 1, e_EnqueuedAt := now\<rparr>) zero_time;
           (case x of
              Inl _ \<Rightarrow> pass ()
            | Inr _ \<Rightarrow> do {
                AddEvent (e_ID (dv_Env d)) ''requeued''
                  (Some (DObject [(''reason'', DText ''reaped before claim'')]));
                recovery_ack R q d }) }
         else recovery_ack R q d) }"

definition reapOne :: "'r redis \<Rightarrow> codec \<Rightarrow> queue \<Rightarrow> leader \<Rightarrow> delivery \<Rightarrow> ('r, unit) prog" where
  "reapOne R C q l d = do {
    delay \<leftarrow> backoff_delay (y_Base l) (y_Cap l) (max (e_Attempt (dv_Env d)) 1);
    r \<leftarrow> db2 (\<lambda>ft fe. ReapJob ft fe (e_ID (dv_Env d)) delay 0);
    (case r of
       Inl _ \<Rightarrow> pass ()
     | Inr None \<Rightarrow> ackUnreaped R C q d
     | Inr (Some res) \<Rightarrow> do {
         now \<leftarrow> time_Now;
         recordAttempt (expired_attempt (e_ID (dv_Env d)) res now ''lease expired: worker presumed dead'');
         (if rr_NewStatus res = StatusRetrying
          then do {
            delay2 \<leftarrow> backoff_delay (y_Base l) (y_Cap l) (rr_Attempt res);
            _ \<leftarrow> queue_ScheduleRetry R C q ((dv_Env d)\<lparr>e_Attempt := rr_Attempt res + 1\<rparr>) (now + delay2);
            pass () }
          else if rr_NewStatus res = StatusDeadLetter
          then do { _ \<leftarrow> DeadLetter R C q (dv_Env d) ''lease expired: attempts exhausted''; pass () }
          else pass ());
         recovery_ack R q d }) }"

definition reapAbandoned :: "'r redis \<Rightarrow> codec \<Rightarrow> queue \<Rightarrow> leader \<Rightarrow> ('r, unit) prog" where
  "reapAbandoned R C q l = do {
    x \<leftarrow> ReapAbandoned R C q (y_ReapMinIdle l) batchSize;
    (case x of (deliveries, err) \<Rightarrow>
       if err \<noteq> None then pass () else for_each deliveries (reapOne R C q l)) }"

section \<open>Sweeps and repairs\<close>

definition requeueEnvelope :: "requeueable \<Rightarrow> int \<Rightarrow> ('r, envelope) prog" where
  "requeueEnvelope r attempt = do {
    now \<leftarrow> time_Now;
    pass \<lparr> e_ID = q_ID r, e_Type = q_Type r, e_Queue = q_Queue r, e_Priority = q_Priority r,
           e_Attempt = attempt, e_Payload = q_Payload r, e_EnqueuedAt = now \<rparr> }"

definition sweepOne :: "'r redis \<Rightarrow> codec \<Rightarrow> queue \<Rightarrow> leader \<Rightarrow> requeueable \<Rightarrow> ('r, unit) prog" where
  "sweepOne R C q l r = do {
    delay \<leftarrow> backoff_delay (y_Base l) (y_Cap l) (max (q_Attempt r) 1);
    x \<leftarrow> db2 (\<lambda>ft fe. ReapJob ft fe (q_ID r) delay (y_SweepGrace l));
    (case x of
       Inl _ \<Rightarrow> pass ()
     | Inr None \<Rightarrow> pass ()
     | Inr (Some res) \<Rightarrow> do {
         now \<leftarrow> time_Now;
         recordAttempt (expired_attempt (q_ID r) res now ''lease expired: no queue entry survived'');
         env \<leftarrow> requeueEnvelope r (rr_Attempt res + 1);
         (if rr_NewStatus res = StatusRetrying
          then do {
            delay2 \<leftarrow> backoff_delay (y_Base l) (y_Cap l) (rr_Attempt res);
            _ \<leftarrow> queue_ScheduleRetry R C q env (now + delay2);
            pass () }
          else if rr_NewStatus res = StatusDeadLetter
          then do { _ \<leftarrow> DeadLetter R C q env ''lease expired: attempts exhausted''; pass () }
          else pass ()) }) }"

definition sweepStaleRunning :: "'r redis \<Rightarrow> codec \<Rightarrow> queue \<Rightarrow> leader \<Rightarrow> ('r, unit) prog" where
  "sweepStaleRunning R C q l = do {
    rows \<leftarrow> db_read (\<lambda>ft. ListExpiredRunning ft (y_SweepGrace l) batchSize);
    (case rows of Inl _ \<Rightarrow> pass () | Inr rs \<Rightarrow> for_each rs (sweepOne R C q l)) }"

definition repairOrphan :: "'r redis \<Rightarrow> codec \<Rightarrow> queue \<Rightarrow> requeueable \<Rightarrow> ('r, unit) prog" where
  "repairOrphan R C q r = do {
    env \<leftarrow> requeueEnvelope r (q_Attempt r + 1);
    x \<leftarrow> Enqueue R C q env zero_time;
    (case x of
       Inl _ \<Rightarrow> pass ()
     | Inr streamID \<Rightarrow> do {
         _ \<leftarrow> db1 (\<lambda>ft. SetEnqueued ft (q_ID r) streamID);
         AddEvent (q_ID r) ''requeued'' (Some (DObject [(''reason'', DText ''orphaned submit'')])) }) }"

definition repairUnenqueued :: "'r redis \<Rightarrow> codec \<Rightarrow> queue \<Rightarrow> leader \<Rightarrow> ('r, unit) prog" where
  "repairUnenqueued R C q l = do {
    rows \<leftarrow> db_read (\<lambda>ft. ListUnenqueued ft (y_OrphanAge l) batchSize);
    (case rows of Inl _ \<Rightarrow> pass () | Inr rs \<Rightarrow> for_each rs (repairOrphan R C q)) }"

definition repairStuck :: "'r redis \<Rightarrow> codec \<Rightarrow> queue \<Rightarrow> requeueable \<Rightarrow> ('r, unit) prog" where
  "repairStuck R C q r = do {
    env \<leftarrow> requeueEnvelope r (q_Attempt r + 1);
    x \<leftarrow> Enqueue R C q env zero_time;
    (case x of
       Inl _ \<Rightarrow> pass ()
     | Inr _ \<Rightarrow> do { _ \<leftarrow> db1 (\<lambda>ft. MarkPromoted ft [q_ID r]); pass () }) }"

definition repairStuckRetrying :: "'r redis \<Rightarrow> codec \<Rightarrow> queue \<Rightarrow> leader \<Rightarrow> ('r, unit) prog" where
  "repairStuckRetrying R C q l = do {
    rows \<leftarrow> db_read (\<lambda>ft. ListStuckRetrying ft (y_OrphanAge l) batchSize);
    (case rows of Inl _ \<Rightarrow> pass () | Inr rs \<Rightarrow> for_each rs (repairStuck R C q)) }"

definition sweepWorkers :: "('r, unit) prog" where
  "sweepWorkers = do { _ \<leftarrow> db1 (\<lambda>ft. MarkDeadWorkers ft (15 * second)); pass () }"

section \<open>The leader's loop\<close>

record leader_state =
  ls_isLeader :: bool
  ls_n :: int

definition leader_duties :: "'r redis \<Rightarrow> codec \<Rightarrow> queue \<Rightarrow> leader \<Rightarrow> int \<Rightarrow> ('r, unit) prog" where
  "leader_duties R C q l n = do {
    (if n mod promoteEvery = 0 then promote R C q else pass ());
    (if n mod reapEvery = 0 then reapAbandoned R C q l else pass ());
    (if n mod sweepEvery = 0
     then do {
       sweepStaleRunning R C q l;
       repairUnenqueued R C q l;
       repairStuckRetrying R C q l;
       sweepWorkers }
     else pass ()) }"

definition leader_tick :: "'r redis \<Rightarrow> codec \<Rightarrow> queue \<Rightarrow> leader \<Rightarrow> leader_state \<Rightarrow> ('r, leader_state) prog" where
  "leader_tick R C q l st = do {
    got \<leftarrow> (if ls_isLeader st then pass (Inr True)
           else AcquireLeader R q leaderRole (y_ID l) leaderTTL);
    (if got = Inr True
     then do {
       leader_duties R C q l (ls_n st + 1);
       pass \<lparr> ls_isLeader = True, ls_n = ls_n st + 1 \<rparr> }
     else pass st) }"

definition leader_renew :: "'r redis \<Rightarrow> queue \<Rightarrow> leader \<Rightarrow> leader_state \<Rightarrow> ('r, leader_state) prog" where
  "leader_renew R q l st =
    (if ls_isLeader st
     then do {
       still \<leftarrow> RenewLeader R q leaderRole (y_ID l) leaderTTL;
       pass (if still = Inr True then st else st\<lparr>ls_isLeader := False\<rparr>) }
     else pass st)"

definition leader_stop :: "'r redis \<Rightarrow> queue \<Rightarrow> leader \<Rightarrow> leader_state \<Rightarrow> ('r, unit) prog" where
  "leader_stop R q l st =
    (if ls_isLeader st
     then do { _ \<leftarrow> ReleaseLeader R q leaderRole (y_ID l); pass () }
     else pass ())"

end
