(* ===== verification/Api.thy ===== *)
theory Api
  imports Recovery "HOL-Library.List_Lexorder"
begin

text \<open>
  The HTTP handlers of \<^verbatim>\<open>internal/api/server.go\<close> that read or change jobs, and its
  authentication. A response is its status code and its body; the request body arrives decoded, or
  as one of the two decoding errors the handler distinguishes.
\<close>

section \<open>Requests and responses\<close>

datatype 'a decoded_body = TooLarge | BadJSON string | Decoded 'a

record submit_request =
  sq_Type :: string
  sq_Payload :: string
  sq_Queue :: string
  sq_Priority :: priority
  sq_MaxAttempts :: int
  sq_IdempotencyKey :: string
  sq_DelaySeconds :: int
  sq_ScheduledAt :: time

datatype api_body =
    ErrBody string string
  | InvalidJobBody new_error
  | UnknownTypeBody string "string list"
  | JobBody job
  | ResultBody string status string string
  | AttemptsBody string "attempt list"
  | CancelBody string string
  | RequeuedBody string
  | DepthsBody depths
  | JobsBody "job list"
  | WorkersBody "worker_row list"

definition sortedKeys :: "string list \<Rightarrow> string list" where
  "sortedKeys ks = sort_key (map (of_char :: char \<Rightarrow> nat)) (remdups ks)"

record response =
  rs_Status :: int
  rs_Body :: api_body

definition writeJSON :: "int \<Rightarrow> api_body \<Rightarrow> ('r, response) prog" where
  "writeJSON status b = pass \<lparr> rs_Status = status, rs_Body = b \<rparr>"

definition writeErr :: "int \<Rightarrow> string \<Rightarrow> string \<Rightarrow> ('r, response) prog" where
  "writeErr status code msg = writeJSON status (ErrBody code msg)"

record server =
  sv_KnownTypes :: "string list"
  sv_tokens :: "string list"
  sv_MaxPayloadBytes :: int

section \<open>Authentication\<close>

text \<open>
  \<open>sha256\<close> is \<^verbatim>\<open>crypto/sha256\<close>; the server keeps digests. \<open>auth_check\<close> gives the message of the refusal,
  \<open>None\<close> when the request goes through; \<open>auth\<close> wraps a handler, with \<open>refuse\<close> the response 401.
\<close>

definition bearer_prefix :: string where "bearer_prefix = ''Bearer ''"

definition NewServer_tokens :: "(string \<Rightarrow> string) \<Rightarrow> string list \<Rightarrow> string list" where
  "NewServer_tokens sha256 tokens = map sha256 tokens"

definition auth_check :: "(string \<Rightarrow> string) \<Rightarrow> server \<Rightarrow> string \<Rightarrow> string option" where
  "auth_check sha256 sv h =
    (if sv_tokens sv = [] then None
     else if length h \<le> length bearer_prefix \<or> take (length bearer_prefix) h \<noteq> bearer_prefix
     then Some ''Missing bearer token.''
     else if list_ex (\<lambda>want. sha256 (drop (length bearer_prefix) h) = want) (sv_tokens sv) then None
     else Some ''Unknown token.'')"

definition auth :: "(string \<Rightarrow> string) \<Rightarrow> server \<Rightarrow> string \<Rightarrow> (string \<Rightarrow> 'm) \<Rightarrow> 'm \<Rightarrow> 'm" where
  "auth sha256 sv h refuse next = (case auth_check sha256 sv h of None \<Rightarrow> next | Some msg \<Rightarrow> refuse msg)"

section \<open>Submission\<close>

definition submit_schedule :: "submit_request \<Rightarrow> time \<Rightarrow> time option" where
  "submit_schedule req now =
    (if sq_DelaySeconds req > 0 \<and> \<not> IsZero (sq_ScheduledAt req) then None
     else if sq_DelaySeconds req > 0 then Some (now + wrap64 (sq_DelaySeconds req * second))
     else if \<not> IsZero (sq_ScheduledAt req) then Some (sq_ScheduledAt req)
     else Some zero_time)"

text \<open>The handoff after the row is stored.\<close>

definition submit_handoff :: "'r redis \<Rightarrow> codec \<Rightarrow> queue \<Rightarrow> job \<Rightarrow> time \<Rightarrow> ('r, unit) prog" where
  "submit_handoff R C q j now = do {
    x \<leftarrow> Enqueue R C q (NewEnvelope j now) (j_ScheduledAt j);
    (case x of
       Inl _ \<Rightarrow> pass ()
     | Inr streamID \<Rightarrow> do { _ \<leftarrow> db1 (\<lambda>ft. SetEnqueued ft (j_ID j) streamID); pass () }) }"

definition handleSubmit ::
  "'r redis \<Rightarrow> codec \<Rightarrow> queue \<Rightarrow> server \<Rightarrow> (string \<Rightarrow> bool) \<Rightarrow> (string \<Rightarrow> string option) \<Rightarrow> string \<Rightarrow>
    submit_request decoded_body \<Rightarrow> ('r, response) prog"
where
  "handleSubmit R C q sv json_valid jsonb uuid body =
    (case body of
       TooLarge \<Rightarrow> writeErr 413 ''payload_too_large''
         (''Request body exceeds '' @ dec_of_int (sv_MaxPayloadBytes sv + 4096) @ '' bytes.'')
     | BadJSON e \<Rightarrow> writeErr 400 ''invalid_json'' (''Body must be valid JSON: '' @ e)
     | Decoded req \<Rightarrow>
         if sq_Type req \<notin> set (sv_KnownTypes sv)
         then writeJSON 400 (UnknownTypeBody (sq_Type req) (sortedKeys (sv_KnownTypes sv)))
         else if int (length (sq_Payload req)) > sv_MaxPayloadBytes sv
         then writeErr 413 ''payload_too_large''
           (''Payload is '' @ dec_of_nat (length (sq_Payload req)) @ '' bytes; the limit is ''
             @ dec_of_int (sv_MaxPayloadBytes sv) @ ''.'')
         else do {
           now \<leftarrow> time_Now;
           (case submit_schedule req now of
              None \<Rightarrow> writeErr 400 ''invalid_schedule'' ''Set delaySeconds or scheduledAt, not both.''
            | Some sched \<Rightarrow>
                (case New json_valid uuid (sq_Type req) (sq_Payload req)
                   \<lparr> o_Queue = sq_Queue req, o_Priority = sq_Priority req, o_MaxAttempts = sq_MaxAttempts req,
                     o_IdempotencyKey = sq_IdempotencyKey req, o_ScheduledAt = sched \<rparr> now of
                   Inl err \<Rightarrow> writeJSON 400 (InvalidJobBody err)
                 | Inr j \<Rightarrow> do {
                     created \<leftarrow> db2 (\<lambda>ft fe. CreateJob jsonb ft fe j);
                     (case created of
                        Inl _ \<Rightarrow> writeErr 503 ''storage_unavailable'' ''Could not persist the job.''
                      | Inr (existing, False) \<Rightarrow> writeJSON 200 (JobBody existing)
                      | Inr (_, True) \<Rightarrow> do {
                          submit_handoff R C q j now;
                          writeJSON 201 (JobBody j) }) })) })"

section \<open>Reads\<close>

definition loadJob :: "string \<Rightarrow> (job \<Rightarrow> ('r, response) prog) \<Rightarrow> ('r, response) prog" where
  "loadJob i k = do {
    r \<leftarrow> db_read (\<lambda>ft. GetJob ft i);
    (case r of
       Inl e \<Rightarrow>
         if errors_Is (Some e) ErrNotFound then writeErr 404 ''not_found'' ''No such job.''
         else writeErr 503 ''storage_unavailable'' (Error e)
     | Inr j \<Rightarrow> k j) }"

definition handleGetJob :: "string \<Rightarrow> ('r, response) prog" where
  "handleGetJob i = loadJob i (\<lambda>j. writeJSON 200 (JobBody j))"

definition handleGetResult :: "string \<Rightarrow> ('r, response) prog" where
  "handleGetResult i = loadJob i (\<lambda>j.
    writeJSON (if j_Status j = StatusCompleted \<or> j_Status j = StatusFailed
                  \<or> j_Status j = StatusDeadLetter \<or> j_Status j = StatusCancelled then 200 else 202)
      (ResultBody (j_ID j) (j_Status j) (j_Result j) (j_Error j)))"

definition handleGetAttempts :: "string \<Rightarrow> ('r, response) prog" where
  "handleGetAttempts i = loadJob i (\<lambda>j. do {
    r \<leftarrow> db_read (\<lambda>ft. ListAttempts ft (j_ID j));
    (case r of
       Inl e \<Rightarrow> writeErr 503 ''storage_unavailable'' (Error e)
     | Inr atts \<Rightarrow> writeJSON 200 (AttemptsBody (j_ID j) atts)) })"

definition handleDepths :: "'r redis \<Rightarrow> queue \<Rightarrow> ('r, response) prog" where
  "handleDepths R q = do {
    r \<leftarrow> Depths R q;
    (case r of
       Inl e \<Rightarrow> writeErr 503 ''queue_unavailable'' (Error e)
     | Inr d \<Rightarrow> writeJSON 200 (DepthsBody d)) }"

definition handleListDLQ :: "('r, response) prog" where
  "handleListDLQ = do {
    r \<leftarrow> db_read (\<lambda>ft. ListDeadLetters ft 50 0);
    (case r of
       Inl e \<Rightarrow> writeErr 503 ''storage_unavailable'' (Error e)
     | Inr js \<Rightarrow> writeJSON 200 (JobsBody js)) }"

definition handleWorkers :: "('r, response) prog" where
  "handleWorkers = do {
    r \<leftarrow> db_read ListWorkers;
    (case r of
       Inl e \<Rightarrow> writeErr 503 ''storage_unavailable'' (Error e)
     | Inr ws \<Rightarrow> writeJSON 200 (WorkersBody ws)) }"

section \<open>Cancellation and requeue\<close>

definition cancelTTL :: duration where "cancelTTL = 24 * 3600 * second"

definition handleCancel :: "'r redis \<Rightarrow> queue \<Rightarrow> string \<Rightarrow> ('r, response) prog" where
  "handleCancel R q i = loadJob i (\<lambda>j.
    if Terminal (j_Status j)
    then writeErr 409 ''already_terminal''
      (''Job is '' @ status_text (j_Status j) @ ''; there is nothing to cancel.'')
    else if j_Status j = StatusRunning
    then do {
      r \<leftarrow> RequestCancel R q (j_ID j) cancelTTL;
      (case r of
         Inl e \<Rightarrow> writeErr 503 ''queue_unavailable'' (Error e)
       | Inr _ \<Rightarrow> writeJSON 202 (CancelBody (j_ID j) ''requested'')) }
    else do {
      r \<leftarrow> db2 (\<lambda>ft fe. CancelJob ft fe (j_ID j));
      (case r of
         Inl e \<Rightarrow> writeErr 503 ''storage_unavailable'' (Error e)
       | Inr False \<Rightarrow> writeErr 409 ''race_lost'' ''The job changed state mid-cancel; fetch it again.''
       | Inr True \<Rightarrow> do {
           _ \<leftarrow> RequestCancel R q (j_ID j) cancelTTL;
           writeJSON 200 (CancelBody (j_ID j) ''done'') }) })"

definition handleRequeueDLQ :: "'r redis \<Rightarrow> codec \<Rightarrow> queue \<Rightarrow> string \<Rightarrow> ('r, response) prog" where
  "handleRequeueDLQ R C q i = do {
    r \<leftarrow> db2 (\<lambda>ft fe. RequeueDeadLetter ft fe i);
    (case r of
       Inl e \<Rightarrow> writeErr 503 ''storage_unavailable'' (Error e)
     | Inr None \<Rightarrow> writeErr 409 ''not_dead_lettered'' ''Job is not in the dead-letter queue.''
     | Inr (Some rq) \<Rightarrow> do {
         env \<leftarrow> requeueEnvelope rq 1;
         x \<leftarrow> Enqueue R C q env zero_time;
         (case x of
            Inl _ \<Rightarrow> pass ()
          | Inr streamID \<Rightarrow> do { _ \<leftarrow> db1 (\<lambda>ft. SetEnqueued ft i streamID); pass () });
         writeJSON 200 (RequeuedBody i) }) }"

end
