(* ===== verification/Coverage.thy ===== *)
theory Coverage
  imports Api
begin

text \<open>
  The bookkeeping behind the guarantee that no job is lost between Postgres and Redis. A job is
  \<open>carried\<close> when a stream entry that no running execution is about to acknowledge, or a member of
  a delayed set, holds its envelope. \<open>covered\<close> says that every obligation of the database is
  carried. The locale \<open>transport\<close> collects what the code relies on (Redis, the JSON codec) and
  shows, for each operation of the queue, that it keeps the coverage.
\<close>

section \<open>Definitions\<close>

definition names :: "codec \<Rightarrow> string \<Rightarrow> string \<Rightarrow> bool" where
  "names C str i = (case DecodeEnvelope C str of Inl _ \<Rightarrow> False | Inr e \<Rightarrow> e_ID e = i)"

text \<open>\<open>T\<close> holds the entries under execution, by priority and identifier.\<close>

definition carried ::
  "'r redis \<Rightarrow> codec \<Rightarrow> queue \<Rightarrow> (priority \<times> string) set \<Rightarrow> 'r \<Rightarrow> string \<Rightarrow> bool"
where
  "carried R C q T s i =
    (\<exists>p \<in> set PriorityOrder.
       (\<exists>m \<in> set (xrange R s (streamKey q p)). names C (field ''j'' (snd m)) i \<and> (p, fst m) \<notin> T)
       \<or> (\<exists>m \<in> zmembers R s (delayedKey q p). names C m i))"

definition queue_ok :: "'r redis \<Rightarrow> codec \<Rightarrow> queue \<Rightarrow> 'r \<Rightarrow> bool" where
  "queue_ok R C q s =
    (\<forall>p \<in> set PriorityOrder. distinct (map fst (xrange R s (streamKey q p)))
       \<and> (\<forall>m \<in> set (xrange R s (streamKey q p)). \<forall>e. DecodeEnvelope C (field ''j'' (snd m)) = Inr e \<longrightarrow> e_Priority e = p)
       \<and> (\<forall>m \<in> zmembers R s (delayedKey q p). \<forall>e. DecodeEnvelope C m = Inr e \<longrightarrow> e_Priority e = p))"

text \<open>A message read from a stream: its identifier stands for this content and no other.\<close>

definition message_ok ::
  "'r redis \<Rightarrow> codec \<Rightarrow> queue \<Rightarrow> ('r \<Rightarrow> key \<Rightarrow> string set) \<Rightarrow> 'r \<Rightarrow> priority \<Rightarrow> message \<Rightarrow> bool"
where
  "message_ok R C q issued s p m =
    (p \<in> set PriorityOrder \<and> fst m \<in> issued s (streamKey q p)
     \<and> (\<forall>m' \<in> set (xrange R s (streamKey q p)). fst m' = fst m \<longrightarrow> m' = m)
     \<and> (\<forall>e. DecodeEnvelope C (field ''j'' (snd m)) = Inr e \<longrightarrow> e_Priority e = p))"

definition held :: "codec \<Rightarrow> (priority \<times> message) set \<Rightarrow> delivery \<Rightarrow> bool" where
  "held C D x =
    (\<exists>m. (dv_Priority x, m) \<in> D \<and> fst m = dv_EntryID x \<and> DecodeEnvelope C (field ''j'' (snd m)) = Inr (dv_Env x))"

definition entry_keys :: "(priority \<times> message) set \<Rightarrow> (priority \<times> string) set" where
  "entry_keys D = (\<lambda>(p, m). (p, fst m)) ` D"

text \<open>\<open>K\<close> are jobs known to be carried, \<open>D\<close> the messages read so far.\<close>

definition covered ::
  "'r redis \<Rightarrow> codec \<Rightarrow> queue \<Rightarrow> ('r \<Rightarrow> key \<Rightarrow> string set) \<Rightarrow> (priority \<times> string) set \<Rightarrow>
    (priority \<times> message) set \<Rightarrow> string set \<Rightarrow> db \<Rightarrow> 'r \<Rightarrow> bool"
where
  "covered R C q issued T D K d s =
    (db_wf d \<and> queue_ok R C q s \<and> T \<subseteq> entry_keys D
     \<and> (\<forall>(p, m) \<in> D. message_ok R C q issued s p m)
     \<and> (\<forall>i \<in> K. carried R C q T s i)
     \<and> (\<forall>i r. job_at d i = Some r \<longrightarrow> obliged r \<longrightarrow> carried R C q T s i))"

lemma carriedE:
  assumes "carried R C q T s i"
  obtains (entry) p m where "p \<in> set PriorityOrder" "m \<in> set (xrange R s (streamKey q p))"
      "names C (field ''j'' (snd m)) i" "(p, fst m) \<notin> T"
    | (member) p m where "p \<in> set PriorityOrder" "m \<in> zmembers R s (delayedKey q p)" "names C m i"
  using assms unfolding carried_def by blast

lemma carried_entry:
  "p \<in> set PriorityOrder \<Longrightarrow> m \<in> set (xrange R s (streamKey q p)) \<Longrightarrow> names C (field ''j'' (snd m)) i \<Longrightarrow>
    (p, fst m) \<notin> T \<Longrightarrow> carried R C q T s i"
  unfolding carried_def by blast

lemma carried_member:
  "p \<in> set PriorityOrder \<Longrightarrow> m \<in> zmembers R s (delayedKey q p) \<Longrightarrow> names C m i \<Longrightarrow> carried R C q T s i"
  unfolding carried_def by blast

lemma covered_member_priority:
  "covered R C q issued T D K d s \<Longrightarrow> p \<in> set PriorityOrder \<Longrightarrow> m \<in> zmembers R s (delayedKey q p) \<Longrightarrow>
    DecodeEnvelope C m = Inr e \<Longrightarrow> e_Priority e = p"
  unfolding covered_def queue_ok_def by blast

lemma carried_mono: "carried R C q T s i \<Longrightarrow> T' \<subseteq> T \<Longrightarrow> carried R C q T' s i"
  unfolding carried_def by blast

lemma covered_weaken:
  "covered R C q issued T D K d s \<Longrightarrow> T' \<subseteq> T \<Longrightarrow> K' \<subseteq> K \<Longrightarrow> covered R C q issued T' D K' d s"
  unfolding covered_def by (blast intro: carried_mono)

lemma covered_carried: "covered R C q issued T D K d s \<Longrightarrow> i \<in> K \<Longrightarrow> carried R C q T s i"
  by (simp add: covered_def)

lemma covered_db:
  "covered R C q issued T D K d s \<Longrightarrow> store_run d d' \<Longrightarrow> quiet d d' \<Longrightarrow> covered R C q issued T D K d' s"
  unfolding covered_def quiet_def using store_run_wf by blast

text \<open>A call that obliges only jobs known to be carried.\<close>

lemma covered_oblige:
  assumes "covered R C q issued T D K d s" and "store_run d d'"
    and "\<And>i r'. job_at d' i = Some r' \<Longrightarrow> obliged r' \<Longrightarrow> i \<in> K \<or> (\<exists>r. job_at d i = Some r \<and> obliged r)"
  shows "covered R C q issued T D K d' s"
  using assms store_run_wf unfolding covered_def by blast

text \<open>An entry whose job is no obligation, or is carried otherwise, may be set aside.\<close>

lemma covered_set_aside:
  assumes "covered R C q issued T D K d s" and "held C D x"
    and "e_ID (dv_Env x) \<notin> K"
    and "\<And>r. job_at d (e_ID (dv_Env x)) = Some r \<Longrightarrow> obliged r \<Longrightarrow>
      carried R C q (insert (dv_Priority x, dv_EntryID x) T) s (e_ID (dv_Env x))"
  shows "covered R C q issued (insert (dv_Priority x, dv_EntryID x) T) D K d s"
proof -
  let ?T = "insert (dv_Priority x, dv_EntryID x) T"
  from assms(2) obtain m where m: "(dv_Priority x, m) \<in> D" "fst m = dv_EntryID x"
    "DecodeEnvelope C (field ''j'' (snd m)) = Inr (dv_Env x)" by (auto simp: held_def)
  have other: "carried R C q ?T s i" if "carried R C q T s i" and "i \<noteq> e_ID (dv_Env x)" for i
    unfolding carried_def
  proof -
    have "m' = m" if "m' \<in> set (xrange R s (streamKey q (dv_Priority x)))" "fst m' = dv_EntryID x" for m'
      using that assms(1) m(1,2) unfolding covered_def message_ok_def by fastforce
    then have "\<not> names C (field ''j'' (snd m')) i"
      if "m' \<in> set (xrange R s (streamKey q (dv_Priority x)))" "fst m' = dv_EntryID x" for m'
      using that m(3) \<open>i \<noteq> e_ID (dv_Env x)\<close> by (auto simp: names_def)
    then show "\<exists>p \<in> set PriorityOrder.
       (\<exists>m \<in> set (xrange R s (streamKey q p)). names C (field ''j'' (snd m)) i \<and> (p, fst m) \<notin> ?T)
       \<or> (\<exists>m \<in> zmembers R s (delayedKey q p). names C m i)"
      using \<open>carried R C q T s i\<close> unfolding carried_def by (metis insert_iff prod.inject)
  qed
  have "(dv_Priority x, dv_EntryID x) \<in> entry_keys D"
    using m by (force simp: entry_keys_def)
  with assms other show ?thesis
    unfolding covered_def by (metis insert_subset)
qed

section \<open>What the code relies on\<close>

text \<open>
  \<^verbatim>\<open>encoding/json\<close> reads back the identifier, type and priority it wrote (the payload may come back
  with its white space removed).
\<close>

locale envelope_codec =
  fixes C :: codec
  assumes marshal_unmarshal: "marshal C e = Inr str \<Longrightarrow>
    \<exists>e'. unmarshal C str = Inr e' \<and> e_ID e' = e_ID e \<and> e_Type e' = e_Type e \<and> e_Priority e' = e_Priority e"
begin

lemma Encode_decodes:
  assumes "Encode C e = Inr str" and "e_ID e \<noteq> []" and "e_Type e \<noteq> []"
  obtains e' where "DecodeEnvelope C str = Inr e'" "e_ID e' = e_ID e" "e_Priority e' = e_Priority e"
  using assms marshal_unmarshal [of e str]
  by (auto simp: Encode_def DecodeEnvelope_def split: sum.splits)

lemma Encode_priority:
  "Encode C e = Inr str \<Longrightarrow> DecodeEnvelope C str = Inr e' \<Longrightarrow> e_Priority e' = e_Priority e"
  using marshal_unmarshal [of e str] by (auto simp: Encode_def DecodeEnvelope_def split: sum.splits if_splits)

lemma Encode_names:
  "Encode C e = Inr str \<Longrightarrow> e_ID e \<noteq> [] \<Longrightarrow> e_Type e \<noteq> [] \<Longrightarrow> names C str (e_ID e)"
  by (auto simp: names_def elim: Encode_decodes)

end

locale transport = redis_service R issued + envelope_codec C
  for R :: "'r redis" and issued and C +
  fixes q :: queue
begin

abbreviation cov :: "(priority \<times> string) set \<Rightarrow> (priority \<times> message) set \<Rightarrow> string set \<Rightarrow> db \<Rightarrow> 'r \<Rightarrow> bool" where
  "cov \<equiv> covered R C q issued"

lemma keys_simps [simp]:
  "streamKey q p = streamKey q p' \<longleftrightarrow> p = p'"
  "delayedKey q p = delayedKey q p' \<longleftrightarrow> p = p'"
  "streamKey q p \<noteq> dlqKey q" "dlqKey q \<noteq> streamKey q p"
  by (simp_all add: streamKey_def delayedKey_def dlqKey_def)

text \<open>The commands keep the coverage.\<close>

lemma cov_same:
  assumes "cov T D K d s" and "same_queues R s s'" and "issued s' = issued s"
  shows "cov T D K d s'"
  using assms unfolding covered_def queue_ok_def message_ok_def carried_def same_queues_def zmembers_def
  by simp

text \<open>The frame of growing a stream or a delayed set.\<close>

definition grown :: "'r \<Rightarrow> 'r \<Rightarrow> bool" where
  "grown s s' =
    (\<forall>p \<in> set PriorityOrder. set (xrange R s (streamKey q p)) \<subseteq> set (xrange R s' (streamKey q p))
      \<and> zmembers R s (delayedKey q p) \<subseteq> zmembers R s' (delayedKey q p)
      \<and> issued s (streamKey q p) \<subseteq> issued s' (streamKey q p)
      \<and> (\<forall>m \<in> set (xrange R s' (streamKey q p)).
           m \<in> set (xrange R s (streamKey q p)) \<or> fst m \<notin> issued s (streamKey q p)))"

lemma grown_carried: "grown s s' \<Longrightarrow> carried R C q T s i \<Longrightarrow> carried R C q T s' i"
  unfolding grown_def carried_def by (meson subsetD)

lemma grown_message:
  assumes "grown s s'" and "message_ok R C q issued s p m"
  shows "message_ok R C q issued s' p m"
proof -
  have p: "p \<in> set PriorityOrder" and m: "fst m \<in> issued s (streamKey q p)"
    using assms(2) by (simp_all add: message_ok_def)
  with assms(1) have "fst m \<in> issued s' (streamKey q p)" by (auto simp: grown_def)
  moreover have "m' = m" if "m' \<in> set (xrange R s' (streamKey q p))" and "fst m' = fst m" for m'
  proof -
    from assms(1) p that(1) have "m' \<in> set (xrange R s (streamKey q p)) \<or> fst m' \<notin> issued s (streamKey q p)"
      unfolding grown_def by blast
    with that(2) m have "m' \<in> set (xrange R s (streamKey q p))" by simp
    with assms(2) that(2) show ?thesis by (auto simp: message_ok_def)
  qed
  ultimately show ?thesis using assms(2) by (auto simp: message_ok_def)
qed

lemma cov_grown:
  assumes "cov T D K d s" and "grown s s'" and "queue_ok R C q s'"
  shows "cov T D K d s'"
  using assms grown_carried [OF assms(2)] grown_message [OF assms(2)] unfolding covered_def by blast

lemma xadd_stream:
  assumes "xadd R (streamKey q p) [(''j'', str)] s = (i, s')" and "p \<in> set PriorityOrder"
    and "queue_ok R C q s" and "\<And>e. DecodeEnvelope C str = Inr e \<Longrightarrow> e_Priority e = p"
  shows "grown s s'" and "queue_ok R C q s'" and "(p, i) \<notin> {(p, i). i \<in> issued s (streamKey q p)}"
    and "(i, [(''j'', str)]) \<in> set (xrange R s' (streamKey q p))"
proof -
  note e = xadd_entries [OF assms(1)] and f = xadd_fresh [OF assms(1)]
  have ids: "fst ` set (xrange R s (streamKey q p)) \<subseteq> issued s (streamKey q p)"
    using ids_issued [of s "streamKey q p"] by (simp add: stream_ids_def)
  show "grown s s'"
    using e f by (auto simp: grown_def zmembers_def)
  have "i \<notin> fst ` set (xrange R s (streamKey q p))" using ids f by auto
  then show "queue_ok R C q s'"
    using assms(3,4) e unfolding queue_ok_def zmembers_def by (auto simp: field_def)
  show "(p, i) \<notin> {(p, i). i \<in> issued s (streamKey q p)}" using f by simp
  show "(i, [(''j'', str)]) \<in> set (xrange R s' (streamKey q p))" using e by simp
qed

lemma zadd_delayed:
  assumes "zadd R (delayedKey q p) sc str s = (u, s')" and "queue_ok R C q s"
    and "\<And>e. DecodeEnvelope C str = Inr e \<Longrightarrow> e_Priority e = p"
  shows "grown s s'" and "queue_ok R C q s'" and "str \<in> zmembers R s' (delayedKey q p)"
proof -
  note z = zadd_members [OF assms(1)]
  have zm: "zmembers R s' (delayedKey q p') = (if p' = p then insert str (zmembers R s (delayedKey q p))
      else zmembers R s (delayedKey q p'))" for p'
    using z by (auto simp: zmembers_def)
  show "grown s s'" using z by (auto simp: grown_def zm)
  show "queue_ok R C q s'" using assms(2,3) z by (auto simp: queue_ok_def zm)
  show "str \<in> zmembers R s' (delayedKey q p)" by (simp add: zm)
qed

lemma covered_T_issued:
  assumes "cov T D K d s" and "(p, i) \<in> entry_keys D"
  shows "i \<in> issued s (streamKey q p)"
  using assms by (auto simp: covered_def entry_keys_def message_ok_def)

text \<open>Adding an envelope's text to its stream or delayed set carries its job.\<close>

lemma cov_xadd:
  assumes "cov T D K d s" and "p \<in> set PriorityOrder"
    and "\<And>e. DecodeEnvelope C str = Inr e \<Longrightarrow> e_Priority e = p"
    and "xadd R (streamKey q p) [(''j'', str)] s = (i, s')"
  shows "cov T D K d s'" and "names C str k \<Longrightarrow> T' \<subseteq> entry_keys D \<Longrightarrow> carried R C q T' s' k"
proof -
  have "queue_ok R C q s" using assms(1) by (simp add: covered_def)
  note x = xadd_stream [OF assms(4,2) this assms(3)]
  show "cov T D K d s'" by (rule cov_grown [OF assms(1) x(1,2)])
  show "carried R C q T' s' k" if "names C str k" and "T' \<subseteq> entry_keys D"
  proof -
    have "(p, i) \<notin> T'" using that(2) x(3) covered_T_issued [OF assms(1)] by blast
    with x(4) that(1) assms(2) show ?thesis
      unfolding carried_def by (force simp: field_def)
  qed
qed

lemma cov_zadd:
  assumes "cov T D K d s" and "p \<in> set PriorityOrder"
    and "\<And>e. DecodeEnvelope C str = Inr e \<Longrightarrow> e_Priority e = p"
    and "zadd R (delayedKey q p) sc str s = (u, s')"
  shows "cov T D K d s'" and "names C str k \<Longrightarrow> carried R C q T' s' k"
proof -
  have "queue_ok R C q s" using assms(1) by (simp add: covered_def)
  note x = zadd_delayed [OF assms(4) this assms(3)]
  show "cov T D K d s'" by (rule cov_grown [OF assms(1) x(1,2)])
  show "carried R C q T' s' k" if "names C str k"
    using that x(3) assms(2) unfolding carried_def by blast
qed

text \<open>Deleting an entry that is set aside, or that holds no envelope.\<close>

lemma cov_xdel:
  assumes "cov T D K d s" and "xdel R (streamKey q p) i s = (u, s')"
    and "(p, i) \<in> T \<or> (\<forall>m \<in> set (xrange R s (streamKey q p)). fst m = i \<longrightarrow> (\<forall>k. \<not> names C (field ''j'' (snd m)) k))"
  shows "cov T D K d s'"
proof -
  note x = xdel_entries [OF assms(2)]
  have car: "carried R C q T s' k" if "carried R C q T s k" for k
  proof -
    from that obtain p' where p': "p' \<in> set PriorityOrder"
      and c: "(\<exists>m \<in> set (xrange R s (streamKey q p')). names C (field ''j'' (snd m)) k \<and> (p', fst m) \<notin> T)
        \<or> (\<exists>m \<in> zmembers R s (delayedKey q p'). names C m k)"
      unfolding carried_def by blast
    have "m \<in> set (xrange R s' (streamKey q p'))"
      if "m \<in> set (xrange R s (streamKey q p'))" "names C (field ''j'' (snd m)) k" "(p', fst m) \<notin> T" for m
      using that x assms(3) by auto
    moreover have "zmembers R s' = zmembers R s" using x by (simp add: zmembers_def fun_eq_iff)
    ultimately show ?thesis using p' c unfolding carried_def by metis
  qed
  have "queue_ok R C q s'"
    using assms(1) x unfolding covered_def queue_ok_def zmembers_def
    by (auto simp: distinct_map inj_on_def)
  moreover have "message_ok R C q issued s' p' m" if "message_ok R C q issued s p' m" for p' m
    using that x by (auto simp: message_ok_def)
  ultimately show ?thesis using assms(1) car unfolding covered_def by blast
qed

text \<open>Reading messages from streams.\<close>

definition messages_of :: "(key \<times> message list) list \<Rightarrow> (priority \<times> message) set" where
  "messages_of res = {(p, m). p \<in> set PriorityOrder \<and> (\<exists>ms. (streamKey q p, ms) \<in> set res \<and> m \<in> set ms)}"

lemma cov_read:
  assumes "cov T D K d s" and "\<And>p m. (p, m) \<in> N \<Longrightarrow> p \<in> set PriorityOrder \<and> m \<in> set (xrange R s (streamKey q p))"
  shows "cov T (D \<union> N) K d s"
proof -
  have "message_ok R C q issued s p m" if "(p, m) \<in> N" for p m
  proof -
    have pm: "p \<in> set PriorityOrder" "m \<in> set (xrange R s (streamKey q p))" using assms(2) [OF that] by auto
    then have "fst m \<in> issued s (streamKey q p)"
      using ids_issued [of s "streamKey q p"] by (auto simp: stream_ids_def)
    with pm assms(1) show ?thesis
      by (auto simp: covered_def queue_ok_def message_ok_def distinct_map inj_on_def)
  qed
  with assms(1) show ?thesis by (auto simp: covered_def entry_keys_def)
qed

lemma cov_readgroup:
  assumes "cov T D K d s" and "xreadgroup R g c ks n s = (res, s')"
  shows "cov T (D \<union> messages_of res) K d s'"
proof -
  have keeps: "same_queues R s s'" "issued s' = issued s" using xreadgroup_keeps [OF assms(2)] by auto
  have "cov T (D \<union> messages_of res) K d s"
    using xreadgroup_msgs [OF assms(2)] by (intro cov_read [OF assms(1)]) (auto simp: messages_of_def)
  then show ?thesis by (rule cov_same [OF _ keeps])
qed

lemma cov_autoclaim:
  assumes "cov T D K d s" and "xautoclaim R (streamKey q p) g c idle n s = (ms, s')" and "p \<in> set PriorityOrder"
  shows "cov T (D \<union> {p} \<times> set ms) K d s'"
proof -
  have keeps: "same_queues R s s'" "issued s' = issued s" using xautoclaim_keeps [OF assms(2)] by auto
  have "cov T (D \<union> {p} \<times> set ms) K d s"
    using xautoclaim_msgs [OF assms(2)] assms(3) by (intro cov_read [OF assms(1)]) auto
  then show ?thesis by (rule cov_same [OF _ keeps])
qed

lemma held_mono: "held C D x \<Longrightarrow> D \<subseteq> D' \<Longrightarrow> held C D' x"
  unfolding held_def by blast

text \<open>One iteration of the promotion script.\<close>

lemma cov_promote_member:
  assumes "cov T D K d s" and "p \<in> set PriorityOrder"
    and "\<And>e. DecodeEnvelope C m = Inr e \<Longrightarrow> e_Priority e = p"
  shows "cov T D (K \<union> {i. names C m i}) d
    (zrem R (delayedKey q p) m (snd (xadd R (streamKey q p) [(''j'', m)] s)))"
proof -
  obtain i s1 where x: "xadd R (streamKey q p) [(''j'', m)] s = (i, s1)" by fastforce
  let ?s2 = "zrem R (delayedKey q p) m s1"
  note c1 = cov_xadd [OF assms x]
  have T: "T \<subseteq> entry_keys D" using assms(1) by (simp add: covered_def)
  have st: "(i, [(''j'', m)]) \<in> set (xrange R s1 (streamKey q p))" using xadd_entries [OF x] by simp
  have fresh: "(p, i) \<notin> T"
    using T covered_T_issued [OF assms(1), of p i] xadd_fresh [OF x] by blast
  have rest: "xrange R ?s2 = xrange R s1" "issued ?s2 = issued s1" using zrem_rest by auto
  have zm: "zmembers R ?s2 (delayedKey q p') = (if p' = p then zmembers R s1 (delayedKey q p) - {m}
      else zmembers R s1 (delayedKey q p'))" for p'
    using zrem_members [of "delayedKey q p" m s1] zrem_other [of "delayedKey q p'" "delayedKey q p" m s1]
    by (auto simp: zmembers_def)
  have new: "carried R C q T ?s2 k" if "names C m k" for k
    unfolding carried_def rest using that st fresh assms(2) by (force simp: field_def)
  have car: "carried R C q T ?s2 k" if "carried R C q T s1 k" for k
    using that
  proof (cases rule: carriedE)
    case (entry p' m')
    then show ?thesis by (intro carried_entry [of p' m']) (simp_all add: rest)
  next
    case (member p' m')
    show ?thesis
    proof (cases "m' = m")
      case False
      with member show ?thesis by (intro carried_member [of p' m']) (auto simp: zm)
    qed (use member new in simp)
  qed
  have "queue_ok R C q ?s2" using c1(1) unfolding covered_def queue_ok_def rest zm by auto
  moreover have "message_ok R C q issued ?s2 = message_ok R C q issued s1"
    by (simp add: fun_eq_iff message_ok_def rest)
  ultimately show ?thesis using c1(1) car new unfolding covered_def x by auto
qed

lemma cov_promote:
  assumes "cov T D K d s" and "p \<in> set PriorityOrder"
    and "\<And>m e. m \<in> set due \<Longrightarrow> DecodeEnvelope C m = Inr e \<Longrightarrow> e_Priority e = p"
  shows "cov T D (K \<union> {i. \<exists>m \<in> set due. names C m i}) d
    (fold (\<lambda>m s. zrem R (delayedKey q p) m (snd (xadd R (streamKey q p) [(''j'', m)] s))) due s)"
  using assms
proof (induction due arbitrary: s K)
  case (Cons m due)
  have "cov T D (K \<union> {i. names C m i}) d
      (zrem R (delayedKey q p) m (snd (xadd R (streamKey q p) [(''j'', m)] s)))"
    using Cons.prems by (intro cov_promote_member) auto
  from Cons.IH [OF this Cons.prems(2)] Cons.prems(3)
  have "cov T D ((K \<union> {i. names C m i}) \<union> {i. \<exists>m \<in> set due. names C m i}) d
    (fold (\<lambda>m s. zrem R (delayedKey q p) m (snd (xadd R (streamKey q p) [(''j'', m)] s))) due
      (zrem R (delayedKey q p) m (snd (xadd R (streamKey q p) [(''j'', m)] s))))" by auto
  moreover have "(K \<union> {i. names C m i}) \<union> {i. \<exists>m \<in> set due. names C m i} = K \<union> {i. \<exists>m \<in> set (m # due). names C m i}"
    by auto
  ultimately show ?case by simp
qed simp

lemma cov_promoteScript:
  assumes "cov T D K d s" and "p \<in> set PriorityOrder"
    and "promoteScript R (delayedKey q p) (streamKey q p) now batch s = (due, s')"
  shows "cov T D (K \<union> {i. \<exists>m \<in> set due. names C m i}) d s'"
proof -
  have due: "due = zrangebyscore R (delayedKey q p) now batch s"
    and s': "s' = fold (\<lambda>m s. zrem R (delayedKey q p) m (snd (xadd R (streamKey q p) [(''j'', m)] s))) due s"
    using assms(3) by (auto simp: promoteScript_def Let_def)
  have "m \<in> zmembers R s (delayedKey q p)" if "m \<in> set due" for m
    using zrangebyscore_due that unfolding due zmembers_def by force
  then show ?thesis
    unfolding s' using covered_member_priority [OF assms(1,2)] by (intro cov_promote [OF assms(1,2)]) blast
qed

lemma cov_dlq:
  assumes "cov T D K d s" and "xadd_maxlen R (dlqKey q) n f s = (i, s')"
  shows "cov T D K d s'"
proof -
  have "xrange R s' (streamKey q p) = xrange R s (streamKey q p)"
    "issued s' (streamKey q p) = issued s (streamKey q p)" for p
    using xadd_maxlen_other [OF assms(2), of "streamKey q p"] by simp_all
  moreover have "zmembers R s' = zmembers R s"
    using xadd_maxlen_rest [OF assms(2)] by (simp add: zmembers_def fun_eq_iff)
  ultimately show ?thesis
    using assms(1) unfolding covered_def queue_ok_def message_ok_def carried_def by simp
qed

text \<open>
  The programs of the queue. \<open>F\<close> is any fact about the database, which they do not touch.
\<close>

lemma Encode_priority':
  "Encode C e = Inr str \<Longrightarrow> e_Priority e = p \<Longrightarrow> DecodeEnvelope C str = Inr e' \<Longrightarrow> e_Priority e' = p"
  using Encode_priority by blast

lemma rcmd_zadd:
  assumes "Encode C env = Inr str" and "e_Priority env \<in> set PriorityOrder"
  shows "hoare (services (\<lambda>d s. cov T D K d s \<and> F d)) (rcmd (zadd R (delayedKey q (e_Priority env)) sc str))
    (\<lambda>x. services (\<lambda>d s. cov T D K d s \<and> F d \<and> (\<forall>u k. x = Inr u \<longrightarrow> names C str k \<longrightarrow> carried R C q T' s k)))"
proof (rule services_rcmd)
  fix d s assume "cov T D K d s \<and> F d"
  moreover obtain s' where z: "zadd R (delayedKey q (e_Priority env)) sc str s = ((), s')"
    by (cases "zadd R (delayedKey q (e_Priority env)) sc str s") auto
  note c = cov_zadd [OF _ assms(2) Encode_priority [OF assms(1)] z]
  ultimately show "cov T D K d (snd (zadd R (delayedKey q (e_Priority env)) sc str s)) \<and> F d \<and>
      (\<forall>u k. Inr (fst (zadd R (delayedKey q (e_Priority env)) sc str s)) = Inr u \<longrightarrow> names C str k \<longrightarrow>
        carried R C q T' (snd (zadd R (delayedKey q (e_Priority env)) sc str s)) k)"
    and "\<And>e. cov T D K d (snd (zadd R (delayedKey q (e_Priority env)) sc str s)) \<and> F d \<and>
      (\<forall>u k. Inl e = Inr u \<longrightarrow> names C str k \<longrightarrow>
        carried R C q T' (snd (zadd R (delayedKey q (e_Priority env)) sc str s)) k)"
    using c by (auto simp: z)
qed simp

lemma rcmd_xadd:
  assumes "Encode C env = Inr str" and "e_Priority env \<in> set PriorityOrder" and "T' \<subseteq> entry_keys D"
  shows "hoare (services (\<lambda>d s. cov T D K d s \<and> F d)) (rcmd (xadd R (streamKey q (e_Priority env)) [(''j'', str)]))
    (\<lambda>x. services (\<lambda>d s. cov T D K d s \<and> F d \<and> (\<forall>u k. x = Inr u \<longrightarrow> names C str k \<longrightarrow> carried R C q T' s k)))"
proof (rule services_rcmd)
  fix d s assume "cov T D K d s \<and> F d"
  moreover obtain u s' where z: "xadd R (streamKey q (e_Priority env)) [(''j'', str)] s = (u, s')" by fastforce
  note c = cov_xadd [OF _ assms(2) Encode_priority [OF assms(1)] z]
  ultimately show "cov T D K d (snd (xadd R (streamKey q (e_Priority env)) [(''j'', str)] s)) \<and> F d \<and>
      (\<forall>u k. Inr (fst (xadd R (streamKey q (e_Priority env)) [(''j'', str)] s)) = Inr u \<longrightarrow> names C str k \<longrightarrow>
        carried R C q T' (snd (xadd R (streamKey q (e_Priority env)) [(''j'', str)] s)) k)"
    and "\<And>e. cov T D K d (snd (xadd R (streamKey q (e_Priority env)) [(''j'', str)] s)) \<and> F d \<and>
      (\<forall>u k. Inl e = Inr u \<longrightarrow> names C str k \<longrightarrow>
        carried R C q T' (snd (xadd R (streamKey q (e_Priority env)) [(''j'', str)] s)) k)"
    using c assms(3) by (auto simp: z)
qed simp

lemma Enqueue_cov:
  assumes "e_ID env \<noteq> []" and "e_Type env \<noteq> []" and "e_Priority env \<in> set PriorityOrder"
    and "T' \<subseteq> entry_keys D"
  shows "hoare (services (\<lambda>d s. cov T D K d s \<and> F d)) (Enqueue R C q env ready)
    (\<lambda>x. services (\<lambda>d s. cov T D K d s \<and> F d \<and> (\<forall>u. x = Inr u \<longrightarrow> carried R C q T' s (e_ID env))))"
proof (cases "Encode C env")
  case (Inl e)
  then show ?thesis by (simp add: Enqueue_def services_pass)
next
  case (Inr str)
  note n = Encode_names [OF Inr assms(1,2)]
  show ?thesis
    unfolding Enqueue_def Inr sum.case
    by (rule hoare_bind [OF services_time_Now], rule hoare_if;
        rule hoare_bind [OF rcmd_zadd [OF Inr assms(3)]] hoare_bind [OF rcmd_xadd [OF Inr assms(3,4)]];
        rule services_pass)
      (use n in \<open>auto simp: wrap_err_def map_sum_eq_Inr split: sum.splits\<close>)
qed

lemma ScheduleRetry_cov:
  assumes "e_Priority env \<in> set PriorityOrder"
  shows "hoare (services (\<lambda>d s. cov T D K d s \<and> F d)) (queue_ScheduleRetry R C q env ready)
    (\<lambda>_. services (\<lambda>d s. cov T D K d s \<and> F d))"
proof (cases "Encode C env")
  case (Inl e)
  then show ?thesis by (simp add: queue_ScheduleRetry_def services_pass)
next
  case (Inr str)
  show ?thesis
    unfolding queue_ScheduleRetry_def Inr sum.case
    by (rule hoare_bind [OF rcmd_zadd [OF Inr assms, of T D K F _ T]], rule services_pass) simp
qed

lemma rcmd_cov:
  assumes "\<And>d s. cov T D K d s \<Longrightarrow> cov T D K d (snd (f s))"
  shows "hoare (services (\<lambda>d s. cov T D K d s \<and> F d)) (rcmd f) (\<lambda>_. services (\<lambda>d s. cov T D K d s \<and> F d))"
  by (rule services_rcmd) (use assms in auto)

lemma DeadLetter_cov:
  "hoare (services (\<lambda>d s. cov T D K d s \<and> F d)) (DeadLetter R C q env msg)
    (\<lambda>_. services (\<lambda>d s. cov T D K d s \<and> F d))"
proof (cases "Encode C env")
  case (Inr str)
  show ?thesis
    unfolding DeadLetter_def Inr sum.case
    by (rule hoare_bind [OF services_time_Now], rule hoare_bind [OF rcmd_cov], rule cov_dlq, assumption,
        rule prod.collapse [symmetric], rule services_pass)
qed (simp add: DeadLetter_def services_pass)

text \<open>Acknowledging an entry that is set aside, or that holds no envelope.\<close>

lemma Ack_cov:
  assumes "(p, i) \<in> T \<or> (\<exists>m. (p, m) \<in> D \<and> fst m = i \<and> (\<forall>k. \<not> names C (field ''j'' (snd m)) k))"
  shows "hoare (services (\<lambda>d s. cov T D K d s \<and> F d)) (Ack R q p i) (\<lambda>_. services (\<lambda>d s. cov T D K d s \<and> F d))"
proof -
  have a: "cov T D K d (snd (xack R (streamKey q p) Group i s))" if "cov T D K d s" for d s
    using xack_keeps [OF prod.collapse [symmetric]] by (intro cov_same [OF that]) auto
  have x: "cov T D K d (snd (xdel R (streamKey q p) i s))" if c: "cov T D K d s" for d s
  proof (rule cov_xdel [OF c prod.collapse [symmetric]])
    have "m' = m" if "(p, m) \<in> D" "m' \<in> set (xrange R s (streamKey q p))" "fst m' = fst m" for m m'
      using c that by (auto simp: covered_def message_ok_def)
    then show "(p, i) \<in> T \<or> (\<forall>m \<in> set (xrange R s (streamKey q p)). fst m = i \<longrightarrow> (\<forall>k. \<not> names C (field ''j'' (snd m)) k))"
      using assms by metis
  qed
  show ?thesis
    unfolding Ack_def
    by (rule hoare_bind [OF rcmd_cov [OF a]], assumption, rule hoare_bind [OF rcmd_cov [OF x]], assumption,
        rule services_pass)
qed

end

end
