(* ===== verification/Handlers.thy ===== *)
theory Handlers
  imports Coverage
begin

text \<open>
  Every handler of the program keeps the coverage of \<open>Coverage\<close>, for every outcome of every
  remote call it makes: fetching, claiming, finishing, promoting, reaping, sweeping, repairing,
  submitting, cancelling, requeueing. \<open>Fleet\<close> interleaves these handlers for any number
  of processes, with crashes.
\<close>

text \<open>Programs that touch neither service.\<close>

lemma services_backoff: "hoare (services I) (backoff_delay b c n) (\<lambda>_. services I)"
  unfolding backoff_delay_def by (rule hoare_bind [OF services_rand services_pass])

lemma writeJSON_keeps: "hoare (services I) (writeJSON st b) (\<lambda>_. services I)"
  unfolding writeJSON_def by (rule services_pass)

lemma writeErr_keeps: "hoare (services I) (writeErr st c m) (\<lambda>_. services I)"
  unfolding writeErr_def by (rule writeJSON_keeps)

lemmas write_keeps = writeJSON_keeps writeErr_keeps

lemma loadJob_keeps:
  assumes "\<And>j. hoare (services I) (k j) (\<lambda>_. services I)"
  shows "hoare (services I) (loadJob i k) (\<lambda>_. services I)"
  unfolding loadJob_def
  by (rule hoare_bind [OF services_db_read], assumption, intro hoare_res hoare_if write_keeps assms)

context transport
begin

lemma append_messages_cov:
  assumes "\<And>m. m \<in> set ms \<Longrightarrow> (p, m) \<in> D" and "\<And>x. x \<in> set out \<Longrightarrow> held C D x"
  shows "hoare (services (\<lambda>d s. cov T D K d s \<and> F d)) (append_messages R C q ms p out)
    (\<lambda>out'. services (\<lambda>d s. (\<forall>x \<in> set out'. held C D x) \<and> cov T D K d s \<and> F d))"
  using assms
proof (induction ms arbitrary: out)
  case Nil
  then show ?case by (simp add: services_pass)
next
  case (Cons m ms)
  show ?case
  proof (cases "DecodeEnvelope C (field ''j'' (snd m))")
    case (Inl e)
    then have "\<forall>k. \<not> names C (field ''j'' (snd m)) k" by (simp add: names_def)
    then have poison: "(p, fst m) \<in> T \<or> (\<exists>m'. (p, m') \<in> D \<and> fst m' = fst m \<and> (\<forall>k. \<not> names C (field ''j'' (snd m')) k))"
      using Cons.prems(1) [of m] by (intro disjI2 exI [of _ m]) simp
    have "hoare (services (\<lambda>d s. cov T D K d s \<and> F d)) (append_messages R C q ms p out)
      (\<lambda>out'. services (\<lambda>d s. (\<forall>x \<in> set out'. held C D x) \<and> cov T D K d s \<and> F d))"
      by (rule Cons.IH) (use Cons.prems in auto)
    then show ?thesis
      using Inl services_then [OF Ack_cov [OF poison]] by (simp add: decodeMessage_def pass_def)
  next
    case (Inr e)
    let ?x = "\<lparr>dv_Env = e, dv_EntryID = fst m, dv_Priority = p\<rparr>"
    have "held C D ?x" using Cons.prems(1) [of m] Inr unfolding held_def by (intro exI [of _ m]) simp
    then have "hoare (services (\<lambda>d s. cov T D K d s \<and> F d)) (append_messages R C q ms p (out @ [?x]))
      (\<lambda>out'. services (\<lambda>d s. (\<forall>x \<in> set out'. held C D x) \<and> cov T D K d s \<and> F d))"
      using Cons.prems by (intro Cons.IH) auto
    then show ?thesis using Inr by (simp add: decodeMessage_def pass_def)
  qed
qed

lemma rcmd_read:
  "hoare (services (\<lambda>d s. cov T D K d s \<and> F d)) (rcmd (xreadgroup R g c ks n))
    (\<lambda>x. services (\<lambda>d s. (\<forall>res. x = Inr res \<longrightarrow> fst ` set res \<subseteq> set ks)
      \<and> cov T (D \<union> (case x of Inl _ \<Rightarrow> {} | Inr res \<Rightarrow> messages_of res)) K d s \<and> F d))"
proof (rule services_rcmd)
  fix d s assume c: "cov T D K d s \<and> F d"
  obtain res s' where r: "xreadgroup R g c ks n s = (res, s')" by fastforce
  have "fst ` set res \<subseteq> set ks" using xreadgroup_msgs [OF r] by force
  with c cov_readgroup [of T D K d s g c ks n res s'] r
  show "(\<forall>res. Inr (fst (xreadgroup R g c ks n s)) = Inr res \<longrightarrow> fst ` set res \<subseteq> set ks)
      \<and> cov T (D \<union> (case Inr (fst (xreadgroup R g c ks n s)) of Inl _ \<Rightarrow> {} | Inr res \<Rightarrow> messages_of res)) K d
        (snd (xreadgroup R g c ks n s)) \<and> F d" by simp
  have "cov T D K d s'" using c xreadgroup_keeps [OF r] by (blast intro: cov_same)
  with c r show "\<And>e. (\<forall>res. Inl e = Inr res \<longrightarrow> fst ` set res \<subseteq> set ks)
      \<and> cov T (D \<union> (case Inl e of Inl _ \<Rightarrow> {} | Inr res \<Rightarrow> messages_of res)) K d
        (snd (xreadgroup R g c ks n s)) \<and> F d" by simp
qed simp

text \<open>What reading leaves: more messages held, the deliveries among them.\<close>

definition reads ::
  "(priority \<times> string) set \<Rightarrow> (priority \<times> message) set \<Rightarrow> delivery list \<Rightarrow> db \<Rightarrow> 'r \<Rightarrow> bool"
where
  "reads T D out d s = (\<exists>D'. D \<subseteq> D' \<and> (\<forall>x \<in> set out. held C D' x) \<and> cov T D' {} d s)"

lemma readsI: "cov T D' {} d s \<Longrightarrow> D \<subseteq> D' \<Longrightarrow> (\<forall>x \<in> set out. held C D' x) \<Longrightarrow> reads T D out d s"
  unfolding reads_def by blast

lemma hoare_reads:
  assumes "\<And>D'. D \<subseteq> D' \<Longrightarrow> (\<forall>x \<in> set out. held C D' x) \<Longrightarrow>
    hoare (services (\<lambda>d s. cov T D' {} d s \<and> True)) m (\<lambda>a. services (reads T D' (f a)))"
  shows "hoare (services (reads T D out)) m (\<lambda>a. services (reads T D (f a)))"
proof -
  have "hoare (services (\<lambda>d s. D \<subseteq> D' \<and> (\<forall>x \<in> set out. held C D' x) \<and> cov T D' {} d s)) m
      (\<lambda>a. services (reads T D (f a)))" for D'
  proof (intro services_fact)
    assume "D \<subseteq> D'" and h: "\<forall>x \<in> set out. held C D' x"
    then show "hoare (services (cov T D' {})) m (\<lambda>a. services (reads T D (f a)))"
      using assms [OF \<open>D \<subseteq> D'\<close> h]
      by (rule_tac services_mono [of "\<lambda>d s. cov T D' {} d s \<and> True" m "\<lambda>a. reads T D' (f a)"])
        (auto simp: reads_def)
  qed
  then show ?thesis unfolding reads_def by (rule services_ex)
qed

lemma append_messages_reads:
  assumes "\<And>m. m \<in> set ms \<Longrightarrow> (p, m) \<in> D" and "\<And>x. x \<in> set out \<Longrightarrow> held C D x"
  shows "hoare (services (\<lambda>d s. cov T D {} d s \<and> True)) (append_messages R C q ms p out)
    (\<lambda>out'. services (reads T D out'))"
  by (rule services_mono [OF append_messages_cov [OF assms]]) (auto simp: reads_def)

lemma fetch_ready_reads:
  assumes "set ps \<subseteq> set PriorityOrder"
  shows "hoare (services (reads T D out)) (fetch_ready R C q consumer mx ps out) (\<lambda>a. services (reads T D (fst a)))"
  using assms
proof (induction ps arbitrary: D out)
  case Nil
  then show ?case by (simp add: services_pass)
next
  case (Cons p ps)
  have step: "hoare (services (\<lambda>d s. cov T D' {} d s \<and> True))
      (do { r \<leftarrow> rcmd (xreadgroup R Group consumer [streamKey q p] (mx - int (length out)));
            (case r of
               Inl e \<Rightarrow> pass (out, Some (ErrorfW (''queue: fetch '' @ p @ '': '') e), True)
             | Inr streams \<Rightarrow> do {
                 out' \<leftarrow> appendDeliveries R C q out streams p;
                 fetch_ready R C q consumer mx ps out' }) })
      (\<lambda>a. services (reads T D' (fst a)))"
    if h: "\<forall>x \<in> set out. held C D' x" for D'
  proof (rule hoare_bind [OF rcmd_read], rule hoare_res)
    fix r :: "(key \<times> message list) list res" and e
    assume "r = Inl e"
    then show "hoare (services (\<lambda>d s. (\<forall>res. r = Inr res \<longrightarrow> fst ` set res \<subseteq> set [streamKey q p])
        \<and> cov T (D' \<union> (case r of Inl _ \<Rightarrow> {} | Inr res \<Rightarrow> messages_of res)) {} d s \<and> True))
      (pass (out, Some (ErrorfW (''queue: fetch '' @ p @ '': '') e), True)) (\<lambda>a. services (reads T D' (fst a)))"
      using h by (auto intro!: services_pass readsI)
  next
    fix r :: "(key \<times> message list) list res" and res
    assume r: "r = Inr res"
    let ?D = "D' \<union> messages_of res"
    have app: "hoare (services (\<lambda>d s. cov T ?D {} d s \<and> True)) (appendDeliveries R C q out res p)
        (\<lambda>out'. services (reads T ?D out'))" if keys: "fst ` set res \<subseteq> {streamKey q p}"
      unfolding appendDeliveries_def
    proof (rule append_messages_reads)
      fix m assume "m \<in> set (concat (map snd res))"
      with keys Cons.prems show "(p, m) \<in> ?D" by (force simp: messages_of_def)
    qed (use h held_mono in blast)
    have "hoare (services (\<lambda>d s. cov T ?D {} d s \<and> True))
        (do { out' \<leftarrow> appendDeliveries R C q out res p; fetch_ready R C q consumer mx ps out' })
        (\<lambda>a. services (reads T D' (fst a)))" if "fst ` set res \<subseteq> {streamKey q p}"
      by (rule services_mono [OF hoare_bind [OF app [OF that] Cons.IH]])
        (use Cons.prems in \<open>auto simp: reads_def\<close>)
    then show "hoare (services (\<lambda>d s. (\<forall>res. r = Inr res \<longrightarrow> fst ` set res \<subseteq> set [streamKey q p])
        \<and> cov T (D' \<union> (case r of Inl _ \<Rightarrow> {} | Inr res \<Rightarrow> messages_of res)) {} d s \<and> True))
      (do { out' \<leftarrow> appendDeliveries R C q out res p; fetch_ready R C q consumer mx ps out' })
      (\<lambda>a. services (reads T D' (fst a)))"
      using r by (intro services_fact) simp
  qed
  show ?case
  proof (cases "int (length out) \<ge> mx")
    case True
    then show ?thesis by (simp add: services_pass)
  next
    case False
    show ?thesis unfolding fetch_ready.simps if_not_P [OF False] by (rule hoare_reads [OF step])
  qed
qed

lemma priorityOfStream_streamKey: "p \<in> set PriorityOrder \<Longrightarrow> priorityOfStream q (streamKey q p) = p"
  by (auto simp: priorityOfStream_def PriorityOrder_def)

lemma messages_of_Cons:
  "p \<in> set PriorityOrder \<Longrightarrow> m \<in> set ms \<Longrightarrow> (p, m) \<in> messages_of ((streamKey q p, ms) # ss)"
  "messages_of ss \<subseteq> messages_of (s # ss)"
  by (auto simp: messages_of_def)

lemma append_streams_reads:
  assumes "fst ` set ss \<subseteq> streamKey q ` set PriorityOrder" and "messages_of ss \<subseteq> D"
    and "\<forall>x \<in> set out. held C D x"
  shows "hoare (services (\<lambda>d s. cov T D {} d s \<and> True)) (append_streams R C q ss out) (\<lambda>out'. services (reads T D out'))"
  using assms
proof (induction ss arbitrary: out D)
  case Nil
  then show ?case by (auto intro!: services_pass readsI)
next
  case (Cons sm ss)
  obtain p ms where p: "p \<in> set PriorityOrder" and sm: "sm = (streamKey q p, ms)"
    using Cons.prems(1) by (cases sm) auto
  have app: "hoare (services (\<lambda>d s. cov T D {} d s \<and> True)) (appendDeliveries R C q out [sm] p)
      (\<lambda>out'. services (reads T D out'))"
    unfolding appendDeliveries_def
    by (rule append_messages_reads) (use Cons.prems p messages_of_Cons in \<open>auto simp: sm\<close>)
  have rest: "hoare (services (reads T D out')) (append_streams R C q ss out') (\<lambda>out''. services (reads T D out''))" for out'
  proof (rule hoare_reads [where f = "\<lambda>x. x"])
    fix D' assume "D \<subseteq> D'" and "\<forall>x \<in> set out'. held C D' x"
    then show "hoare (services (\<lambda>d s. cov T D' {} d s \<and> True)) (append_streams R C q ss out')
        (\<lambda>out''. services (reads T D' out''))"
      using Cons.prems messages_of_Cons(2) [of ss sm] by (intro Cons.IH) auto
  qed
  show ?case
    unfolding append_streams.simps sm fst_conv priorityOfStream_streamKey [OF p]
    by (rule hoare_bind [OF app [unfolded sm] rest])
qed

lemma Fetch_reads:
  "hoare (services (reads T D [])) (Fetch R C q consumer mx block) (\<lambda>a. services (reads T D (fst a)))"
proof -
  have blocking: "hoare (services (\<lambda>d s. cov T D' {} d s \<and> True))
      (do { r \<leftarrow> rcmd (xreadgroup R Group consumer (map (streamKey q) PriorityOrder) mx);
            (case r of
               Inl e \<Rightarrow> pass (out, Some (ErrorfW ''queue: blocking fetch: '' e))
             | Inr streams \<Rightarrow> do { out' \<leftarrow> append_streams R C q streams out; pass (out', None) }) })
      (\<lambda>a. services (reads T D' (fst a)))"
    if h: "\<forall>x \<in> set out. held C D' x" for D' and out :: "delivery list"
  proof (rule hoare_bind [OF rcmd_read], rule hoare_res)
    fix r :: "(key \<times> message list) list res" and e
    assume "r = Inl e"
    then show "hoare (services (\<lambda>d s. (\<forall>res. r = Inr res \<longrightarrow> fst ` set res \<subseteq> set (map (streamKey q) PriorityOrder))
        \<and> cov T (D' \<union> (case r of Inl _ \<Rightarrow> {} | Inr res \<Rightarrow> messages_of res)) {} d s \<and> True))
      (pass (out, Some (ErrorfW ''queue: blocking fetch: '' e))) (\<lambda>a. services (reads T D' (fst a)))"
      using h by (auto intro!: services_pass readsI)
  next
    fix r :: "(key \<times> message list) list res" and res
    assume r: "r = Inr res"
    let ?D = "D' \<union> messages_of res"
    have "hoare (services (\<lambda>d s. cov T ?D {} d s \<and> True))
        (do { out' \<leftarrow> append_streams R C q res out; pass (out', None) }) (\<lambda>a. services (reads T D' (fst a)))"
      if keys: "fst ` set res \<subseteq> set (map (streamKey q) PriorityOrder)"
    proof (rule hoare_bind [OF append_streams_reads])
      show "\<forall>x \<in> set out. held C ?D x" using h held_mono by blast
      show "hoare (services (reads T ?D out')) (pass (out', None)) (\<lambda>a. services (reads T D' (fst a)))" for out'
        by (rule services_pass) (auto simp: reads_def)
    qed (use keys in auto)
    then show "hoare (services (\<lambda>d s. (\<forall>res. r = Inr res \<longrightarrow> fst ` set res \<subseteq> set (map (streamKey q) PriorityOrder))
        \<and> cov T (D' \<union> (case r of Inl _ \<Rightarrow> {} | Inr res \<Rightarrow> messages_of res)) {} d s \<and> True))
      (do { out' \<leftarrow> append_streams R C q res out; pass (out', None) }) (\<lambda>a. services (reads T D' (fst a)))"
      using r by (intro services_fact) simp
  qed
  show ?thesis
    unfolding Fetch_def
  proof (rule hoare_bind [OF fetch_ready_reads])
    fix a :: "delivery list \<times> error \<times> bool"
    obtain out err early where a: "a = (out, err, early)" by (cases a)
    show "hoare (services (reads T D (fst a)))
        (case a of (out, err, early) \<Rightarrow>
           if early \<or> length out > 0 \<or> block \<le> 0 then pass (out, err)
           else do {
             r \<leftarrow> rcmd (xreadgroup R Group consumer (map (streamKey q) PriorityOrder) mx);
             (case r of
                Inl e \<Rightarrow> pass (out, Some (ErrorfW ''queue: blocking fetch: '' e))
              | Inr streams \<Rightarrow> do { out' \<leftarrow> append_streams R C q streams out; pass (out', None) }) })
        (\<lambda>a. services (reads T D (fst a)))"
      unfolding a prod.case fst_conv
      by (rule hoare_if, rule services_pass, simp, rule hoare_reads [OF blocking])
  qed simp
qed

lemma rcmd_autoclaim:
  assumes "p \<in> set PriorityOrder"
  shows "hoare (services (\<lambda>d s. cov T D K d s \<and> F d)) (rcmd (xautoclaim R (streamKey q p) g c idle n))
    (\<lambda>x. services (\<lambda>d s. cov T (D \<union> (case x of Inl _ \<Rightarrow> {} | Inr ms \<Rightarrow> {p} \<times> set ms)) K d s \<and> F d))"
proof (rule services_rcmd)
  fix d s assume c: "cov T D K d s \<and> F d"
  obtain ms s' where r: "xautoclaim R (streamKey q p) g c idle n s = (ms, s')" by fastforce
  with c assms show "cov T (D \<union> (case Inr (fst (xautoclaim R (streamKey q p) g c idle n s)) of Inl _ \<Rightarrow> {} | Inr ms \<Rightarrow> {p} \<times> set ms)) K d
      (snd (xautoclaim R (streamKey q p) g c idle n s)) \<and> F d"
    using cov_autoclaim [OF _ r assms] by simp
  have "cov T D K d s'" using c xautoclaim_keeps [OF r] by (blast intro: cov_same)
  with c r show "\<And>e. cov T (D \<union> (case Inl e of Inl _ \<Rightarrow> {} | Inr ms \<Rightarrow> {p} \<times> set ms)) K d
      (snd (xautoclaim R (streamKey q p) g c idle n s)) \<and> F d" by simp
qed simp

lemma reap_streams_reads:
  assumes "set ps \<subseteq> set PriorityOrder"
  shows "hoare (services (reads T D out)) (reap_streams R C q minIdle batch ps out) (\<lambda>a. services (reads T D (fst a)))"
  using assms
proof (induction ps arbitrary: D out)
  case Nil
  then show ?case by (simp add: services_pass)
next
  case (Cons p ps)
  have p: "p \<in> set PriorityOrder" using Cons.prems by simp
  show ?case
    unfolding reap_streams.simps
  proof (rule hoare_reads, rule hoare_bind [OF rcmd_autoclaim [OF p]], rule hoare_res)
    fix D' and r :: "message list res" and e assume h: "\<forall>x \<in> set out. held C D' x" and "r = Inl e"
    then show "hoare (services (\<lambda>d s. cov T (D' \<union> (case r of Inl _ \<Rightarrow> {} | Inr ms \<Rightarrow> {p} \<times> set ms)) {} d s \<and> True))
        (pass (out, Some (ErrorfW (''queue: autoclaim '' @ p @ '': '') e))) (\<lambda>a. services (reads T D' (fst a)))"
      by (auto intro!: services_pass readsI)
  next
    fix D' and r :: "message list res" and ms assume h: "\<forall>x \<in> set out. held C D' x" and r: "r = Inr ms"
    let ?D = "D' \<union> {p} \<times> set ms"
    have app: "hoare (services (\<lambda>d s. cov T ?D {} d s \<and> True)) (append_messages R C q ms p out)
        (\<lambda>out'. services (reads T ?D out'))"
      by (rule append_messages_reads) (use h held_mono in auto)
    have "hoare (services (\<lambda>d s. cov T ?D {} d s \<and> True))
        (do { out' \<leftarrow> append_messages R C q ms p out; reap_streams R C q minIdle batch ps out' })
        (\<lambda>a. services (reads T D' (fst a)))"
      by (rule services_mono [OF hoare_bind [OF app Cons.IH]]) (use Cons.prems in \<open>auto simp: reads_def\<close>)
    then show "hoare (services (\<lambda>d s. cov T (D' \<union> (case r of Inl _ \<Rightarrow> {} | Inr ms \<Rightarrow> {p} \<times> set ms)) {} d s \<and> True))
        (do { out' \<leftarrow> append_messages R C q ms p out; reap_streams R C q minIdle batch ps out' })
        (\<lambda>a. services (reads T D' (fst a)))"
      by (simp add: r)
  qed
qed

section \<open>Promotion\<close>

text \<open>Store calls that oblige nothing.\<close>

lemma quiet_call1:
  assumes "\<And>ft d. store_step d (snd (f ft d))" and "\<And>ft d. quiet d (snd (f ft d))"
  shows "hoare (services (cov T D K)) (db1 f) (\<lambda>_. services (cov T D K))"
  by (rule services_db1) (rule covered_db [OF _ store_run_1 [OF assms(1)] assms(2)])

lemma quiet_call2:
  assumes "\<And>ft fe d. store_step d (snd (f ft fe d))" and "\<And>ft fe d. quiet d (snd (f ft fe d))"
  shows "hoare (services (cov T D K)) (db2 f) (\<lambda>_. services (cov T D K))"
  by (rule services_db2) (rule covered_db [OF _ store_run_1 [OF assms(1)] assms(2)])

lemma promoted_call:
  assumes "set ids \<subseteq> K"
  shows "hoare (services (cov T D K)) (db1 (\<lambda>ft. MarkPromoted ft ids)) (\<lambda>_. services (cov T D K))"
proof (rule services_db1)
  fix ft d s assume "cov T D K d s"
  then show "cov T D K (snd (MarkPromoted ft ids d)) s"
    using MarkPromoted_obliges assms by (intro covered_oblige [OF _ store_run_1 [OF step_MarkPromoted]]) blast+
qed

lemma enqueued_call:
  "hoare (services (cov T D {i})) (db1 (\<lambda>ft. SetEnqueued ft i sid)) (\<lambda>_. services (cov T D {i}))"
proof (rule services_db1)
  fix ft d s assume "cov T D {i} d s"
  then show "cov T D {i} (snd (SetEnqueued ft i sid d)) s"
    using SetEnqueued_obliges by (intro covered_oblige [OF _ store_run_1 [OF step_SetEnqueued]]) blast+
qed

lemma decoded_names: "e \<in> set (decoded C ms) \<Longrightarrow> \<exists>m \<in> set ms. names C m (e_ID e)"
  by (induction ms) (auto simp: decoded_def names_def List.map_filter_simps split: sum.splits option.splits)

lemma promote_all_cov:
  assumes "set ps \<subseteq> set PriorityOrder"
  shows "hoare (services (cov T D (e_ID ` set promoted))) (promote_all R C q now batch ps promoted)
    (\<lambda>a. services (cov T D (e_ID ` set (fst a))))"
  using assms
proof (induction ps arbitrary: promoted)
  case Nil
  then show ?case by (simp add: services_pass)
next
  case (Cons p ps)
  let ?K = "e_ID ` set promoted"
  have "hoare (services (cov T D ?K)) (rcmd (promoteScript R (delayedKey q p) (streamKey q p) now batch))
    (\<lambda>r. services (cov T D (case r of Inl _ \<Rightarrow> ?K | Inr ms \<Rightarrow> e_ID ` set (promoted @ decoded C ms))))"
  proof (rule services_rcmd)
    fix d s assume c: "cov T D ?K d s"
    obtain due s' where r: "promoteScript R (delayedKey q p) (streamKey q p) now batch s = (due, s')" by fastforce
    have "cov T D (?K \<union> {i. \<exists>m \<in> set due. names C m i}) d s'"
      using Cons.prems by (intro cov_promoteScript [OF c _ r]) simp
    then have new: "cov T D (e_ID ` set (promoted @ decoded C due)) d s'"
      by (rule covered_weaken) (use decoded_names in auto)
    then have "cov T D ?K d s'" by (rule covered_weaken) auto
    with new show "cov T D (case Inr (fst (promoteScript R (delayedKey q p) (streamKey q p) now batch s)) of
          Inl _ \<Rightarrow> ?K | Inr ms \<Rightarrow> e_ID ` set (promoted @ decoded C ms)) d
        (snd (promoteScript R (delayedKey q p) (streamKey q p) now batch s))"
      and "\<And>e. cov T D (case Inl e of Inl _ \<Rightarrow> ?K | Inr ms \<Rightarrow> e_ID ` set (promoted @ decoded C ms)) d
        (snd (promoteScript R (delayedKey q p) (streamKey q p) now batch s))"
      by (simp_all add: r)
  qed simp
  then show ?case
    unfolding promote_all.simps
    by (rule hoare_bind, intro hoare_res) (use Cons in \<open>auto intro: services_pass simp del: set_append\<close>)
qed

lemma promote_cov: "hoare (services (cov T D {})) (promote R C q) (\<lambda>_. services (cov T D {}))"
proof -
  have envs: "hoare (services (cov T D (e_ID ` set envs)))
      (if err \<noteq> None \<or> length envs = 0 then pass ()
       else do { _ \<leftarrow> db1 (\<lambda>ft. MarkPromoted ft (map e_ID envs)); pass () }) (\<lambda>_. services (cov T D {}))" for envs and err :: error
    by (rule hoare_if, rule services_pass, erule covered_weaken, simp_all,
        rule services_then [OF promoted_call services_pass], simp, erule covered_weaken) simp_all
  show ?thesis
    unfolding promote_def PromoteDue_def
  proof (rule hoare_bind)
    show "hoare (services (cov T D {})) (do { now \<leftarrow> time_Now; promote_all R C q (UnixMilli now) batchSize PriorityOrder [] })
        (\<lambda>a. services (cov T D (e_ID ` set (fst a))))"
      by (rule hoare_bind [OF services_time_Now]) (use promote_all_cov [where promoted = "[]"] in simp)
    show "hoare (services (cov T D (e_ID ` set (fst a))))
        (case a of (envs, err) \<Rightarrow> if err \<noteq> None \<or> length envs = 0 then pass ()
           else do { _ \<leftarrow> db1 (\<lambda>ft. MarkPromoted ft (map e_ID envs)); pass () })
        (\<lambda>_. services (cov T D {}))" for a :: "envelope list \<times> error"
      using envs [of "fst a" "snd a"] by (simp only: case_prod_beta)
  qed
qed

section \<open>Reaping\<close>

lemma cov_True: "services (\<lambda>d s. cov T D K d s \<and> True) = services (cov T D K)"
  by simp

lemmas Ack_keeps = Ack_cov [where F = "\<lambda>_. True", unfolded cov_True]
lemmas ScheduleRetry_keeps = ScheduleRetry_cov [where F = "\<lambda>_. True", unfolded cov_True]
lemmas DeadLetter_keeps = DeadLetter_cov [where F = "\<lambda>_. True", unfolded cov_True]
lemmas rcmd_keeps = rcmd_cov [where F = "\<lambda>_. True", unfolded cov_True]

lemma Enqueue_keeps:
  assumes "e_ID env \<noteq> []" and "e_Type env \<noteq> []" and "e_Priority env \<in> set PriorityOrder" and "T' \<subseteq> entry_keys D"
  shows "hoare (services (cov T D K)) (Enqueue R C q env ready)
    (\<lambda>x. services (\<lambda>d s. cov T D K d s \<and> (\<forall>u. x = Inr u \<longrightarrow> carried R C q T' s (e_ID env))))"
  using Enqueue_cov [where F = "\<lambda>_. True", OF assms] by simp

lemma AddEvent_cov: "hoare (services (cov T D K)) (AddEvent i ev dt) (\<lambda>_. services (cov T D K))"
  unfolding AddEvent_def by (rule quiet_call1) (simp_all add: step_AddEvent quiet_addEvent)

lemma recordAttempt_cov: "hoare (services (cov T D K)) (recordAttempt a) (\<lambda>_. services (cov T D K))"
  unfolding recordAttempt_def
  by (rule services_then [OF quiet_call1 services_pass]) (simp_all add: step_RecordAttempt quiet_RecordAttempt)

text \<open>What a delivery that was read says about its envelope.\<close>

definition entry_key :: "delivery \<Rightarrow> priority \<times> string" where
  "entry_key x = (dv_Priority x, dv_EntryID x)"

definition good_envelope :: "envelope \<Rightarrow> bool" where
  "good_envelope e = (e_ID e \<noteq> [] \<and> e_Type e \<noteq> [] \<and> e_Priority e \<in> set PriorityOrder)"

lemma DecodeEnvelope_good: "DecodeEnvelope C str = Inr e \<Longrightarrow> e_ID e \<noteq> [] \<and> e_Type e \<noteq> []"
  by (auto simp: DecodeEnvelope_def split: sum.splits if_splits)

lemma held_good:
  assumes "held C D x" and "cov T D K d s"
  shows "good_envelope (dv_Env x) \<and> insert (entry_key x) T \<subseteq> entry_keys D"
proof -
  from assms(1) obtain m where m: "(dv_Priority x, m) \<in> D" "fst m = dv_EntryID x"
    "DecodeEnvelope C (field ''j'' (snd m)) = Inr (dv_Env x)" by (auto simp: held_def)
  then have "message_ok R C q issued s (dv_Priority x) m" and T: "T \<subseteq> entry_keys D"
    using assms(2) by (auto simp: covered_def)
  with m(3) have "e_Priority (dv_Env x) \<in> set PriorityOrder" by (auto simp: message_ok_def)
  moreover have "entry_key x \<in> entry_keys D" using m(1,2) by (force simp: entry_keys_def entry_key_def)
  ultimately show ?thesis using DecodeEnvelope_good [OF m(3)] T by (simp add: good_envelope_def)
qed

lemma set_aside:
  assumes "cov T D {} d s" and "held C D x"
    and "\<And>r. job_at d (e_ID (dv_Env x)) = Some r \<Longrightarrow> obliged r \<Longrightarrow>
      carried R C q (insert (entry_key x) T) s (e_ID (dv_Env x))"
  shows "cov (insert (entry_key x) T) D {} d s"
  using covered_set_aside [OF assms(1,2)] assms(3) by (simp add: entry_key_def)

lemma ack_cov:
  "hoare (services (cov (insert (entry_key x) T) D {})) (Ack R q (dv_Priority x) (dv_EntryID x))
    (\<lambda>_. services (cov T D {}))"
  by (rule hoare_post [OF Ack_keeps]) (auto simp: entry_key_def services_def intro: covered_weaken)

lemma recovery_ack_cov:
  "hoare (services (cov (insert (entry_key x) T) D {})) (recovery_ack R q x) (\<lambda>_. services (cov T D {}))"
  unfolding recovery_ack_def by (rule services_then [OF ack_cov services_pass])

lemma runner_ack_cov:
  "hoare (services (cov (insert (entry_key x) T) D {})) (runner_ack R q x) (\<lambda>_. services (cov T D {}))"
  unfolding runner_ack_def by (rule services_then [OF ack_cov services_pass])

lemma GetJob_status:
  assumes "GetJob ft i d = Inr j"
  obtains r where "job_at d i = Some r" and "j_Status j = r_status r"
  using assms by (cases ft) (auto simp: GetJob_def getJobBy_def job_at_def find_row_def scanJob_def split: option.splits)

lemma ackUnreaped_cov:
  assumes "held C D x"
  shows "hoare (services (cov T D {})) (ackUnreaped R C q x) (\<lambda>_. services (cov T D {}))"
proof (rule services_implied [OF held_good [OF assms]], assumption)
  assume g: "good_envelope (dv_Env x) \<and> insert (entry_key x) T \<subseteq> entry_keys D"
  let ?i = "e_ID (dv_Env x)" and ?T = "insert (entry_key x) T"
  let ?J = "\<lambda>r d s. cov T D {} d s \<and> (\<forall>j. r = Inr j \<longrightarrow> (\<exists>w. job_at d ?i = Some w \<and> j_Status j = r_status w))"
  have get: "hoare (services (cov T D {})) (db_read (\<lambda>ft. GetJob ft ?i)) (\<lambda>r. services (?J r))"
    by (rule services_db_read) (auto elim: GetJob_status)
  have other: "hoare (services (?J (Inr j))) (recovery_ack R q x) (\<lambda>_. services (cov T D {}))"
    if "j_Status j \<noteq> StatusPending" for j
    by (rule services_pre [OF _ recovery_ack_cov], rule set_aside) (use that assms in \<open>auto simp: obliged_def\<close>)
  have pending: "hoare (services (?J (Inr j)))
      (do { now \<leftarrow> time_Now;
            y \<leftarrow> Enqueue R C q ((dv_Env x)\<lparr>e_Attempt := j_AttemptCount j + 1, e_EnqueuedAt := now\<rparr>) zero_time;
            (case y of
               Inl _ \<Rightarrow> pass ()
             | Inr _ \<Rightarrow> do {
                 AddEvent ?i ''requeued'' (Some (DObject [(''reason'', DText ''reaped before claim'')]));
                 recovery_ack R q x }) })
      (\<lambda>_. services (cov T D {}))" for j
  proof (rule hoare_bind [OF services_time_Now], rule services_pre [where I = "cov T D {}"])
    fix now
    let ?env = "(dv_Env x)\<lparr>e_Attempt := j_AttemptCount j + 1, e_EnqueuedAt := now\<rparr>"
    let ?E = "\<lambda>y d s. cov T D {} d s \<and> (\<forall>u. y = Inr u \<longrightarrow> carried R C q ?T s ?i)"
    have enq: "hoare (services (cov T D {})) (Enqueue R C q ?env zero_time) (\<lambda>y. services (?E y))"
      using Enqueue_keeps [of ?env ?T D T "{}"] g by (simp add: good_envelope_def)
    have fin: "hoare (services (?E (Inr u))) (do { AddEvent ?i ''requeued'' dt; recovery_ack R q x })
        (\<lambda>_. services (cov T D {}))" for u :: string and dt
      by (rule services_pre [OF _ services_then [OF AddEvent_cov recovery_ack_cov]], rule set_aside)
        (use assms in auto)
    show "hoare (services (cov T D {}))
      (do { y \<leftarrow> Enqueue R C q ?env zero_time;
            (case y of
               Inl _ \<Rightarrow> pass ()
             | Inr _ \<Rightarrow> do {
                 AddEvent ?i ''requeued'' (Some (DObject [(''reason'', DText ''reaped before claim'')]));
                 recovery_ack R q x }) })
      (\<lambda>_. services (cov T D {}))"
      by (rule hoare_bind [OF enq], intro hoare_res services_pass) (simp, simp only: fin)
  qed simp
  show ?thesis
    unfolding ackUnreaped_def
    by (rule hoare_bind [OF get], intro hoare_res services_pass) (simp, rule hoare_if, simp only: pending, hypsubst, rule other)
qed

lemma reap_call:
  "hoare (services (cov T D {})) (db2 (\<lambda>ft fe. ReapJob ft fe i delay grace))
    (\<lambda>r. services (\<lambda>d s. cov T D {} d s
      \<and> (\<forall>res w. r = Inr (Some res) \<longrightarrow> job_at d i = Some w \<longrightarrow> \<not> obliged w)))"
proof (rule services_db2)
  fix ft fe d s assume c: "cov T D {} d s"
  then have "cov T D {} (snd (ReapJob ft fe i delay grace d)) s"
    by (rule covered_db [OF _ store_run_1 [OF step_ReapJob] quiet_ReapJob])
  moreover have "\<not> obliged w" if "fst (ReapJob ft fe i delay grace d) = Inr (Some res)"
    and w: "job_at (snd (ReapJob ft fe i delay grace d)) i = Some w" for res w
  proof -
    have "ReapJob ft fe i delay grace d = (Inr (Some res), snd (ReapJob ft fe i delay grace d))"
      using that(1) by (simp add: prod_eq_iff)
    moreover have "db_wf d" using c by (simp add: covered_def)
    ultimately obtain r where "job_at (snd (ReapJob ft fe i delay grace d)) i = Some (reap_set delay (db_now d) r)"
      using ReapJob_Some by metis
    with w show ?thesis by (auto simp: obliged_def reap_set_def Let_def split: if_splits)
  qed
  ultimately show "cov T D {} (snd (ReapJob ft fe i delay grace d)) s
      \<and> (\<forall>res w. fst (ReapJob ft fe i delay grace d) = Inr (Some res) \<longrightarrow>
        job_at (snd (ReapJob ft fe i delay grace d)) i = Some w \<longrightarrow> \<not> obliged w)" by blast
qed

text \<open>The handoff after a reap: a delayed retry or a line of the dead-letter log.\<close>

lemma handoff_cov:
  assumes "e_Priority env \<in> set PriorityOrder"
  shows "hoare (services (cov T D K))
    (if st = StatusRetrying
     then do {
       delay2 \<leftarrow> backoff_delay b c n;
       _ \<leftarrow> queue_ScheduleRetry R C q env (now + delay2);
       pass () }
     else if st = StatusDeadLetter
     then do { _ \<leftarrow> DeadLetter R C q env' msg; pass () }
     else pass ()) (\<lambda>_. services (cov T D K))"
  by (intro hoare_if services_pass hoare_bind [OF services_backoff] services_then [OF ScheduleRetry_keeps [OF assms]]
      services_then [OF DeadLetter_keeps])

lemma reapOne_cov:
  assumes "held C D x"
  shows "hoare (services (cov T D {})) (reapOne R C q l x) (\<lambda>_. services (cov T D {}))"
proof (rule services_implied [OF held_good [OF assms]], assumption)
  assume g: "good_envelope (dv_Env x) \<and> insert (entry_key x) T \<subseteq> entry_keys D"
  let ?i = "e_ID (dv_Env x)"
  let ?J = "\<lambda>r d s. cov T D {} d s \<and> (\<forall>res w. r = Inr (Some res) \<longrightarrow> job_at d ?i = Some w \<longrightarrow> \<not> obliged w)"
  have reaped: "hoare (services (?J (Inr (Some res))))
      (do { now \<leftarrow> time_Now;
            recordAttempt (expired_attempt ?i res now msg);
            (if rr_NewStatus res = StatusRetrying
             then do {
               delay2 \<leftarrow> backoff_delay (y_Base l) (y_Cap l) (rr_Attempt res);
               _ \<leftarrow> queue_ScheduleRetry R C q ((dv_Env x)\<lparr>e_Attempt := rr_Attempt res + 1\<rparr>) (now + delay2);
               pass () }
             else if rr_NewStatus res = StatusDeadLetter
             then do { _ \<leftarrow> DeadLetter R C q (dv_Env x) msg'; pass () }
             else pass ());
            recovery_ack R q x })
      (\<lambda>_. services (cov T D {}))" for res msg msg'
    by (rule services_pre [OF _ hoare_bind [OF services_time_Now services_then [OF recordAttempt_cov
          services_then [OF handoff_cov recovery_ack_cov]]]], rule set_aside)
      (use assms g in \<open>auto simp: good_envelope_def\<close>)
  show ?thesis
    unfolding reapOne_def
    by (rule hoare_bind [OF services_backoff], rule hoare_bind [OF reap_call], intro hoare_res hoare_option services_pass)
      (simp, hypsubst, rule services_pre [OF _ ackUnreaped_cov [OF assms]], simp, hypsubst, rule reaped)
qed

text \<open>A program that keeps the coverage under all messages read keeps what has been read.\<close>

lemma keeps_reads:
  assumes "\<And>D'. D \<subseteq> D' \<Longrightarrow> \<forall>x \<in> set out. held C D' x \<Longrightarrow>
    hoare (services (cov T D' {})) m (\<lambda>_. services (cov T D' {}))"
  shows "hoare (services (reads T D out)) m (\<lambda>_. services (reads T D []))"
proof (rule hoare_reads [where f = "\<lambda>_. []"])
  fix D' assume "D \<subseteq> D'" "\<forall>x \<in> set out. held C D' x"
  from assms [OF this] show "hoare (services (\<lambda>d s. cov T D' {} d s \<and> True)) m (\<lambda>_. services (reads T D' []))"
    by (rule services_mono) (auto intro: readsI)
qed

lemma reapAbandoned_reads: "hoare (services (reads T D [])) (reapAbandoned R C q l) (\<lambda>_. services (reads T D []))"
proof -
  have "hoare (services (reads T D (fst a)))
      (case a of (deliveries, err) \<Rightarrow>
         if err \<noteq> None then pass () else for_each deliveries (reapOne R C q l))
      (\<lambda>_. services (reads T D []))" for a :: "delivery list \<times> error"
    unfolding case_prod_beta
    by (intro hoare_if services_pass keeps_reads services_for_each reapOne_cov)
      (auto simp: reads_def)
  then show ?thesis
    unfolding reapAbandoned_def ReapAbandoned_def by (intro hoare_bind [OF reap_streams_reads]) simp
qed

section \<open>Sweeps and repairs\<close>

definition good_row :: "requeueable \<Rightarrow> bool" where
  "good_row r = (q_ID r \<noteq> [] \<and> q_Type r \<noteq> [] \<and> q_Priority r \<in> set PriorityOrder)"

lemma scanRequeueable_ID [simp]: "q_ID (scanRequeueable r) = r_id r"
  by (simp add: scanRequeueable_def)

lemma scanRequeueable_good: "row_wf r \<Longrightarrow> good_row (scanRequeueable r)"
  by (auto simp: good_row_def scanRequeueable_def row_wf_def Priority_Valid_def PriorityOrder_def)

lemma list_requeueables_good:
  assumes "list_requeueables ft m p n d = Inr rs" and "db_wf d" and "r \<in> set rs"
  shows "good_row r"
proof -
  have "rs = map scanRequeueable (select_limit (p (db_now d)) n (jobs d))"
    using assms(1) by (cases ft) (simp_all add: list_requeueables_def exec_stmt_def)
  with assms(3) obtain w where w: "w \<in> set (select_limit (p (db_now d)) n (jobs d))" "r = scanRequeueable w"
    by auto
  then have "w \<in> set (jobs d)" using select_limit_sound [of w] by blast
  with assms(2) have "row_wf w" by (simp add: db_wf_def list_all_iff)
  with w show ?thesis by (simp add: scanRequeueable_good)
qed

text \<open>A sweep: the program runs for every listed row.\<close>

lemma sweep_cov:
  assumes "\<And>r. good_row r \<Longrightarrow> hoare (services (cov T D {})) (f r) (\<lambda>_. services (cov T D {}))"
  shows "hoare (services (cov T D {}))
    (do { rows \<leftarrow> db_read (\<lambda>ft. list_requeueables ft m p n);
          (case rows of Inl _ \<Rightarrow> pass () | Inr rs \<Rightarrow> for_each rs f) })
    (\<lambda>_. services (cov T D {}))"
proof (rule hoare_bind)
  show "hoare (services (cov T D {})) (db_read (\<lambda>ft. list_requeueables ft m p n))
    (\<lambda>rows. services (\<lambda>d s. (\<forall>rs. rows = Inr rs \<longrightarrow> (\<forall>r \<in> set rs. good_row r)) \<and> cov T D {} d s))"
    by (rule services_db_read) (use list_requeueables_good in \<open>auto simp: covered_def\<close>)
  show "hoare (services (\<lambda>d s. (\<forall>rs. rows = Inr rs \<longrightarrow> (\<forall>r \<in> set rs. good_row r)) \<and> cov T D {} d s))
      (case rows of Inl _ \<Rightarrow> pass () | Inr rs \<Rightarrow> for_each rs f) (\<lambda>_. services (cov T D {}))"
    for rows :: "requeueable list res"
    by (rule services_fact, intro hoare_res services_pass services_for_each assms) simp_all
qed

lemma requeueEnvelope_spec:
  "hoare (services I) (requeueEnvelope r n)
    (\<lambda>env. services (\<lambda>d s. (e_ID env = q_ID r \<and> e_Type env = q_Type r \<and> e_Priority env = q_Priority r) \<and> I d s))"
  unfolding requeueEnvelope_def by (rule hoare_bind [OF services_time_Now services_pass]) simp

lemma sweepOne_cov:
  assumes "good_row r"
  shows "hoare (services (cov T D {})) (sweepOne R C q l r) (\<lambda>_. services (cov T D {}))"
proof -
  have reaped: "hoare (services (cov T D {}))
      (do { now \<leftarrow> time_Now;
            recordAttempt (expired_attempt (q_ID r) res now msg);
            env \<leftarrow> requeueEnvelope r (rr_Attempt res + 1);
            (if rr_NewStatus res = StatusRetrying
             then do {
               delay2 \<leftarrow> backoff_delay (y_Base l) (y_Cap l) (rr_Attempt res);
               _ \<leftarrow> queue_ScheduleRetry R C q env (now + delay2);
               pass () }
             else if rr_NewStatus res = StatusDeadLetter
             then do { _ \<leftarrow> DeadLetter R C q env msg'; pass () }
             else pass ()) })
      (\<lambda>_. services (cov T D {}))" for res msg msg'
    by (rule hoare_bind [OF services_time_Now services_then [OF recordAttempt_cov hoare_bind [OF requeueEnvelope_spec]]],
        rule services_fact, rule handoff_cov)
      (use assms in \<open>simp add: good_row_def\<close>)
  show ?thesis
    unfolding sweepOne_def
    by (rule hoare_bind [OF services_backoff], rule hoare_bind [OF reap_call], intro hoare_res hoare_option services_pass)
      (simp, simp, rule services_pre [OF _ reaped], simp)
qed

text \<open>Enqueueing a rebuilt envelope makes its job carried, so that it may be obliged.\<close>

lemma carried_insert: "cov T D K d s \<Longrightarrow> carried R C q T s i \<Longrightarrow> cov T D (insert i K) d s"
  by (simp add: covered_def)

lemma enqueue_then:
  assumes "good_envelope env"
    and "\<And>u. hoare (services (cov T D {e_ID env})) (k u) (\<lambda>_. services (cov T D {e_ID env}))"
  shows "hoare (services (cov T D {})) (do { x \<leftarrow> Enqueue R C q env ready; (case x of Inl _ \<Rightarrow> pass () | Inr u \<Rightarrow> k u) })
    (\<lambda>_. services (cov T D {}))"
proof (rule services_implied)
  show "T \<subseteq> entry_keys D" if "cov T D {} d s" for d s using that by (simp add: covered_def)
  assume T: "T \<subseteq> entry_keys D"
  have enq: "hoare (services (cov T D {})) (Enqueue R C q env ready)
      (\<lambda>x. services (\<lambda>d s. cov T D {} d s \<and> (\<forall>u. x = Inr u \<longrightarrow> carried R C q T s (e_ID env))))"
    by (rule Enqueue_keeps) (use assms(1) T in \<open>simp_all add: good_envelope_def\<close>)
  have k: "hoare (services (\<lambda>d s. cov T D {} d s \<and> carried R C q T s (e_ID env))) (k u) (\<lambda>_. services (cov T D {}))" for u
    by (rule services_mono [OF assms(2)]) (auto intro: carried_insert covered_weaken)
  show "hoare (services (cov T D {})) (do { x \<leftarrow> Enqueue R C q env ready; (case x of Inl _ \<Rightarrow> pass () | Inr u \<Rightarrow> k u) })
    (\<lambda>_. services (cov T D {}))"
    by (rule hoare_bind [OF enq], intro hoare_res services_pass) (simp, rule services_pre [OF _ k], simp)
qed

lemma good_row_envelope:
  "good_row r \<Longrightarrow> e_ID env = q_ID r \<and> e_Type env = q_Type r \<and> e_Priority env = q_Priority r \<Longrightarrow> good_envelope env"
  by (simp add: good_row_def good_envelope_def)

lemma repairOrphan_cov:
  assumes "good_row r"
  shows "hoare (services (cov T D {})) (repairOrphan R C q r) (\<lambda>_. services (cov T D {}))"
  unfolding repairOrphan_def
proof (rule hoare_bind [OF requeueEnvelope_spec], rule services_fact, rule enqueue_then)
  fix env :: envelope and u assume e: "e_ID env = q_ID r \<and> e_Type env = q_Type r \<and> e_Priority env = q_Priority r"
  then show "good_envelope env" by (rule good_row_envelope [OF assms])
  show "hoare (services (cov T D {e_ID env}))
      (do { _ \<leftarrow> db1 (\<lambda>ft. SetEnqueued ft (q_ID r) u); AddEvent (q_ID r) ''requeued''
          (Some (DObject [(''reason'', DText ''orphaned submit'')])) })
      (\<lambda>_. services (cov T D {e_ID env}))"
    unfolding e [THEN conjunct1] by (rule services_then [OF enqueued_call AddEvent_cov])
qed

lemma repairStuck_cov:
  assumes "good_row r"
  shows "hoare (services (cov T D {})) (repairStuck R C q r) (\<lambda>_. services (cov T D {}))"
  unfolding repairStuck_def
proof (rule hoare_bind [OF requeueEnvelope_spec], rule services_fact, rule enqueue_then)
  fix env :: envelope and u :: string assume e: "e_ID env = q_ID r \<and> e_Type env = q_Type r \<and> e_Priority env = q_Priority r"
  then show "good_envelope env" by (rule good_row_envelope [OF assms])
  show "hoare (services (cov T D {e_ID env})) (do { _ \<leftarrow> db1 (\<lambda>ft. MarkPromoted ft [q_ID r]); pass () })
      (\<lambda>_. services (cov T D {e_ID env}))"
    unfolding e [THEN conjunct1] by (rule services_then [OF promoted_call services_pass]) simp
qed

lemma sweepWorkers_cov: "hoare (services (cov T D {})) sweepWorkers (\<lambda>_. services (cov T D {}))"
  unfolding sweepWorkers_def
  by (rule services_then [OF quiet_call1 services_pass]) (simp_all add: step_MarkDeadWorkers quiet_MarkDeadWorkers)

lemma reads_seq:
  "hoare (services (reads T D out)) m (\<lambda>_. services (reads T D out)) \<Longrightarrow>
    hoare (services (reads T D out)) k Q \<Longrightarrow> hoare (services (reads T D out)) (m \<bind> (\<lambda>_. k)) Q"
  by (rule services_then)

lemma leader_duties_reads: "hoare (services (reads T D [])) (leader_duties R C q l n) (\<lambda>_. services (reads T D []))"
  unfolding leader_duties_def
proof (intro reads_seq hoare_if services_pass reapAbandoned_reads)
  show "hoare (services (reads T D [])) (promote R C q) (\<lambda>_. services (reads T D []))"
    by (rule keeps_reads, rule promote_cov)
  show "hoare (services (reads T D [])) (sweepStaleRunning R C q l) (\<lambda>_. services (reads T D []))"
    unfolding sweepStaleRunning_def ListExpiredRunning_def by (rule keeps_reads, rule sweep_cov, rule sweepOne_cov)
  show "hoare (services (reads T D [])) (repairUnenqueued R C q l) (\<lambda>_. services (reads T D []))"
    unfolding repairUnenqueued_def ListUnenqueued_def by (rule keeps_reads, rule sweep_cov, rule repairOrphan_cov)
  show "hoare (services (reads T D [])) (repairStuckRetrying R C q l) (\<lambda>_. services (reads T D []))"
    unfolding repairStuckRetrying_def ListStuckRetrying_def by (rule keeps_reads, rule sweep_cov, rule repairStuck_cov)
  show "hoare (services (reads T D [])) sweepWorkers (\<lambda>_. services (reads T D []))"
    by (rule keeps_reads, rule sweepWorkers_cov)
qed simp_all

section \<open>The leader lock and heartbeats\<close>

lemma AcquireLeader_cov: "hoare (services (cov T D K)) (AcquireLeader R q role i ttl) (\<lambda>_. services (cov T D K))"
  unfolding AcquireLeader_def
  by (rule hoare_bind [OF rcmd_keeps services_pass], rule cov_same) (use kv_setnx_keeps [OF prod.collapse [symmetric]] in auto)

lemma RenewLeader_cov: "hoare (services (cov T D K)) (RenewLeader R q role i ttl) (\<lambda>_. services (cov T D K))"
  unfolding RenewLeader_def renewScript_def
  by (rule hoare_bind [OF rcmd_keeps services_pass]) (use kv_pexpire_keeps in \<open>auto intro: cov_same\<close>)

lemma ReleaseLeader_cov: "hoare (services (cov T D K)) (ReleaseLeader R q role i) (\<lambda>_. services (cov T D K))"
  unfolding ReleaseLeader_def releaseScript_def
  by (rule hoare_bind [OF rcmd_keeps services_pass]) (use kv_del_keeps in \<open>auto intro: cov_same\<close>)

lemma leader_tick_reads: "hoare (services (reads T D [])) (leader_tick R C q l st) (\<lambda>_. services (reads T D []))"
proof -
  have got: "hoare (services (reads T D []))
      (if ls_isLeader st then pass (Inr True) else AcquireLeader R q leaderRole (y_ID l) leaderTTL)
      (\<lambda>_. services (reads T D []))"
    by (intro hoare_if services_pass keeps_reads AcquireLeader_cov)
  show ?thesis
    unfolding leader_tick_def
    by (rule hoare_bind [OF got], intro hoare_if reads_seq [OF leader_duties_reads] services_pass)
qed

lemma leader_renew_cov: "hoare (services (cov T D {})) (leader_renew R q l st) (\<lambda>_. services (cov T D {}))"
  unfolding leader_renew_def by (intro hoare_if hoare_bind [OF RenewLeader_cov] services_pass)

lemma leader_stop_cov: "hoare (services (cov T D {})) (leader_stop R q l st) (\<lambda>_. services (cov T D {}))"
  unfolding leader_stop_def by (intro hoare_if services_then [OF ReleaseLeader_cov] services_pass)

lemma Heartbeat_cov: "hoare (services (cov T D K)) (Heartbeat R q c p i) (\<lambda>_. services (cov T D K))"
  unfolding Heartbeat_def
  by (rule hoare_bind [OF rcmd_keeps services_pass], rule cov_same) (use xclaim_keeps [OF prod.collapse [symmetric]] in auto)

lemma RequestCancel_cov: "hoare (services (cov T D K)) (RequestCancel R q i ttl) (\<lambda>_. services (cov T D K))"
  unfolding RequestCancel_def
  by (rule hoare_bind [OF rcmd_keeps services_pass], rule cov_same) (use kv_set_keeps [OF prod.collapse [symmetric]] in auto)

lemma IsCancelRequested_cov: "hoare (services (cov T D K)) (IsCancelRequested R q i) (\<lambda>_. services (cov T D K))"
  unfolding IsCancelRequested_def by (rule hoare_bind [OF rcmd_keeps services_pass]) simp_all

lemma heartbeat_tick_cov: "hoare (services (cov T D {})) (heartbeat_tick R q n x cl ttl) (\<lambda>_. services (cov T D {}))"
proof -
  have ext: "hoare (services (cov T D {})) (db1 (\<lambda>ft. ExtendLease ft i e ttl)) (\<lambda>_. services (cov T D {}))" for i e
    by (rule quiet_call1) (use quiet_owner_call [where w = "WExtend ttl"] in \<open>simp_all add: step_ExtendLease\<close>)
  show ?thesis
    unfolding heartbeat_tick_def
    by (intro services_then [OF Heartbeat_cov] hoare_bind [OF ext] hoare_if services_pass
        hoare_bind [OF IsCancelRequested_cov])
qed

section \<open>Running a delivery\<close>

lemma ClaimJob_None:
  assumes "ClaimJob ft i w ttl d = (Inr None, d')" and "job_at d' i = Some r"
  shows "\<not> obliged r"
proof -
  have no: "filter (claim_where i) (jobs d) = []" and d': "jobs d' = update_where (claim_where i) (claim_set w ttl (db_now d)) (jobs d)"
    using exec_stmt_Inr [OF assms(1) [unfolded ClaimJob_def]]
    by (auto simp: update_jobs_returning_def split: list.splits)
  have "jobs d' = jobs d"
    unfolding d' update_where_def using no by (intro map_idI) (auto simp: filter_empty_conv)
  with assms(2) have "r \<in> set (jobs d)" "r_id r = i" by (auto simp: job_at_def dest: find_row_Some)
  with no show ?thesis by (auto simp: filter_empty_conv claim_where_def obliged_def)
qed

lemma Run_claim_cov:
  assumes "held C D x"
  shows "hoare (services (cov T D {})) (Run_claim R q n x)
    (\<lambda>a. services (cov (if fst a = None then T else insert (entry_key x) T) D {}))"
proof -
  let ?i = "e_ID (dv_Env x)"
  let ?J = "\<lambda>(r :: claim option res) d s. cov T D {} d s \<and> (\<forall>w. (r = Inr None \<or> (\<exists>cl. r = Inr (Some cl))) \<longrightarrow> job_at d ?i = Some w \<longrightarrow> \<not> obliged w)"
  have claim: "hoare (services (cov T D {})) (db1 (\<lambda>ft. ClaimJob ft ?i (n_WorkerID n) ttl)) (\<lambda>r. services (?J r))" for ttl
  proof (rule services_db1)
    fix ft d s assume c: "cov T D {} d s"
    let ?x = "ClaimJob ft ?i (n_WorkerID n) ttl d"
    have "cov T D {} (snd ?x) s" by (rule covered_db [OF c store_run_1 [OF step_ClaimJob] quiet_ClaimJob])
    moreover have "\<not> obliged w" if "fst ?x = Inr None" "job_at (snd ?x) ?i = Some w" for w
      using ClaimJob_None [OF _ that(2)] that(1) by (metis prod.collapse)
    moreover have "\<not> obliged w" if f: "fst ?x = Inr (Some cl)" and j: "job_at (snd ?x) ?i = Some w" for w cl
    proof -
      have "?x = (Inr (Some cl), snd ?x)" using f by (simp add: prod_eq_iff)
      moreover have "db_wf d" using c by (simp add: covered_def)
      ultimately obtain r where "job_at (snd ?x) ?i = Some (claim_set (n_WorkerID n) ttl (db_now d) r)"
        using ClaimJob_Some by metis
      with j show ?thesis by (auto simp: obliged_def claim_set_def)
    qed
    ultimately show "?J (fst ?x) (snd ?x) s" by blast
  qed
  have aside: "cov (insert (entry_key x) T) D {} d s" if "?J (Inr y) d s" for d s y
    using that assms by (cases y) (auto intro!: set_aside)
  show ?thesis
    unfolding Run_claim_def
  proof (rule hoare_bind [OF claim], intro hoare_res hoare_option)
    fix r :: "claim option res" and e assume "r = Inl e"
    then show "hoare (services (?J r)) (pass (None, [])) (\<lambda>a. services (cov (if fst a = None then T else insert (entry_key x) T) D {}))"
      by (intro services_pass) simp
  next
    fix r :: "claim option res" and o' assume r: "r = Inr o'" and "o' = None"
    then show "hoare (services (?J r)) (do { runner_ack R q x; pass (None, [ClaimSkipped]) })
        (\<lambda>a. services (cov (if fst a = None then T else insert (entry_key x) T) D {}))"
      by (intro services_pre [OF _ services_then [OF runner_ack_cov services_pass]]) (use aside in auto)
  next
    fix r :: "claim option res" and o' cl assume r: "r = Inr o'" and "o' = Some cl"
    then show "hoare (services (?J r)) (pass (Some cl, [JobStarted (e_Type (dv_Env x))]))
        (\<lambda>a. services (cov (if fst a = None then T else insert (entry_key x) T) D {}))"
      by (intro services_pass) (use aside in auto)
  qed
qed

lemma finish_record_cov:
  assumes "quiet_recorder rec" and "good_envelope (dv_Env x)"
  shows "hoare (services (cov T D {})) (finish_record R C q n rec x cl result herr oc att now) (\<lambda>_. services (cov T D {}))"
proof -
  have r: "hoare (services (cov T D {})) (on_db (rec p)) (\<lambda>_. services (cov T D {}))" for p
    by (rule services_on_db) (rule covered_db [OF _ recorder.rec_run [OF quiet_recorder.axioms(1) [OF assms(1)]]
        quiet_recorder.rec_quiet [OF assms(1)]])
  have e: "e_Priority ((dv_Env x)\<lparr>e_Attempt := k\<rparr>) \<in> set PriorityOrder" for k
    using assms(2) by (simp add: good_envelope_def)
  have delay: "hoare (services (cov T D {}))
      (if oc = OutcomeInterrupted then pass 0 else backoff_delay b c k) (\<lambda>_. services (cov T D {}))" for b c k
    by (intro hoare_if services_pass services_backoff)
  have dlq: "hoare (services (cov T D {})) (if b then do { _ \<leftarrow> DeadLetter R C q env msg; pass () } else pass ())
      (\<lambda>_. services (cov T D {}))" for b env msg
    by (intro hoare_if services_pass services_then [OF DeadLetter_keeps])
  have retry: "hoare (services (cov T D {}))
      (if b then do { _ \<leftarrow> queue_ScheduleRetry R C q ((dv_Env x)\<lparr>e_Attempt := k\<rparr>) t; pass () } else pass ())
      (\<lambda>_. services (cov T D {}))" for b k t
    by (intro hoare_if services_pass services_then [OF ScheduleRetry_keeps [OF e]])
  show ?thesis
    unfolding finish_record_def Let_def
    by (intro hoare_if hoare_bind [OF r] hoare_bind [OF delay] services_then [OF dlq] services_then [OF retry] services_pass)
qed

lemma finish_cov:
  assumes "held C D x" and "quiet_recorder rec"
  shows "hoare (services (cov (insert (entry_key x) T) D {})) (finish R C q n rec x cl result herr cause)
    (\<lambda>_. services (cov T D {}))"
proof (rule services_implied [OF held_good [OF assms(1)]], assumption)
  assume g: "good_envelope (dv_Env x) \<and> insert (entry_key x) (insert (entry_key x) T) \<subseteq> entry_keys D"
  let ?T = "insert (entry_key x) T"
  have drop: "cov T D {} d s" if "cov ?T D {} d s" for d s
    using that by (rule covered_weaken) auto
  have expired: "hoare (services (cov ?T D {})) (do { _ \<leftarrow> db1 (\<lambda>ft. RecordAttempt ft att); pass [] })
      (\<lambda>_. services (cov T D {}))" for att
    by (rule services_then [OF quiet_call1 services_pass])
      (simp_all add: step_RecordAttempt quiet_RecordAttempt drop)
  show ?thesis
    unfolding finish_def Let_def
    by (rule hoare_bind [OF services_time_Now], rule hoare_if, rule expired,
        rule hoare_bind [OF finish_record_cov [OF assms(2)]], use g in simp)
      (auto split: prod.split sum.split intro!: services_pass drop services_then [OF runner_ack_cov])
qed

section \<open>The HTTP handlers\<close>

lemma handleCancel_cov: "hoare (services (cov T D {})) (handleCancel R q i) (\<lambda>_. services (cov T D {}))"
proof -
  have c: "hoare (services (cov T D {})) (db2 (\<lambda>ft fe. CancelJob ft fe k)) (\<lambda>_. services (cov T D {}))" for k
    by (rule quiet_call2) (simp_all add: step_CancelJob quiet_CancelJob)
  have b: "hoare (services I) (case y of False \<Rightarrow> m | True \<Rightarrow> m') Q"
    if "hoare (services I) m Q" "hoare (services I) m' Q" for I :: "db \<Rightarrow> 'r \<Rightarrow> bool" and m m' :: "('r, response) prog" and Q y
    using that by (cases y) simp_all
  show ?thesis
    unfolding handleCancel_def
    by (intro loadJob_keeps hoare_if hoare_bind [OF RequestCancel_cov] hoare_bind [OF c] hoare_res b write_keeps)
qed

lemma Priority_Valid_order: "Priority_Valid p \<Longrightarrow> p \<in> set PriorityOrder"
  by (auto simp: Priority_Valid_def PriorityOrder_def)

lemma handleSubmit_cov:
  assumes "uuid \<noteq> []"
  shows "hoare (services (cov T D {})) (handleSubmit R C q sv json_valid jsonb uuid body) (\<lambda>_. services (cov T D {}))"
proof -
  have hand: "hoare (services (cov T D {})) (submit_handoff R C q j now) (\<lambda>_. services (cov T D {}))"
    if j: "New json_valid uuid ty pl opts t = Inr j" for j now ty pl opts t
  proof -
    have g: "good_envelope (NewEnvelope j now)" and i: "e_ID (NewEnvelope j now) = j_ID j"
      using New_Inr [OF j] assms ValidName_nonempty Priority_Valid_order
      by (auto simp: good_envelope_def NewEnvelope_def)
    show ?thesis
      unfolding submit_handoff_def
      by (rule enqueue_then [OF g], unfold i, rule services_then [OF enqueued_call services_pass])
  qed
  have create: "hoare (services (cov T D {})) (db2 (\<lambda>ft fe. CreateJob jsonb ft fe j)) (\<lambda>_. services (cov T D {}))"
    if j: "New json_valid uuid ty pl opts t = Inr j" for j ty pl opts t
    by (rule quiet_call2, rule step_CreateJob)
      (use New_Inr [OF j] assms ValidName_nonempty in \<open>auto simp: quiet_CreateJob\<close>)
  have answered: "hoare (services (cov T D {}))
      (case created of
         Inl _ \<Rightarrow> writeErr 503 ''storage_unavailable'' ''Could not persist the job.''
       | Inr (existing, False) \<Rightarrow> writeJSON 200 (JobBody existing)
       | Inr (_, True) \<Rightarrow> do { submit_handoff R C q j now; writeJSON 201 (JobBody j) })
      (\<lambda>_. services (cov T D {}))"
    if "New json_valid uuid ty pl opts t = Inr j" for j now ty pl opts t and created :: "(job \<times> bool) res"
    using write_keeps services_then [OF hand [OF that] writeJSON_keeps] by (auto split: sum.split prod.split bool.split)
  show ?thesis
    unfolding handleSubmit_def
    by (cases body)
      (auto intro!: write_keeps hoare_bind [OF services_time_Now] hoare_bind [OF create] answered split: option.split sum.split)
qed

lemma handleRequeueDLQ_cov: "hoare (services (cov T D {})) (handleRequeueDLQ R C q i) (\<lambda>_. services (cov T D {}))"
proof -
  let ?B = "\<lambda>r. \<forall>rq. r = Inr (Some rq) \<longrightarrow> good_row rq \<and> q_ID rq = i"
  have call: "hoare (services (cov T D {})) (db2 (\<lambda>ft fe. RequeueDeadLetter ft fe i))
      (\<lambda>r. services (\<lambda>d s. ?B r \<and> cov T D {} d s))"
  proof (rule services_db2)
    fix ft fe d s assume c: "cov T D {} d s"
    let ?x = "RequeueDeadLetter ft fe i d"
    have c': "cov T D {} (snd ?x) s"
      by (rule covered_db [OF c store_run_1 [OF step_RequeueDeadLetter] quiet_RequeueDeadLetter])
    have "good_row rq \<and> q_ID rq = i" if "fst ?x = Inr (Some rq)" for rq
    proof -
      have "?x = (Inr (Some rq), snd ?x)" using that by (simp add: prod_eq_iff)
      moreover have "db_wf d" using c by (simp add: covered_def)
      ultimately obtain r where j: "job_at (snd ?x) i = Some (requeue_set (db_now d) r)"
        and rq: "rq = scanRequeueable (requeue_set (db_now d) r)" using RequeueDeadLetter_Some by metis
      from j have "requeue_set (db_now d) r \<in> set (jobs (snd ?x))" and i: "r_id (requeue_set (db_now d) r) = i"
        by (auto simp: job_at_def dest: find_row_Some)
      with c' have "row_wf (requeue_set (db_now d) r)" by (auto simp: covered_def db_wf_def list_all_iff)
      with i show ?thesis by (simp add: rq scanRequeueable_good)
    qed
    with c' show "?B (fst ?x) \<and> cov T D {} (snd ?x) s" by blast
  qed
  have deliver: "hoare (services (cov T D {}))
      (do { env \<leftarrow> requeueEnvelope rq 1;
            x \<leftarrow> Enqueue R C q env zero_time;
            (case x of
               Inl _ \<Rightarrow> pass ()
             | Inr streamID \<Rightarrow> do { _ \<leftarrow> db1 (\<lambda>ft. SetEnqueued ft i streamID); pass () });
            writeJSON 200 (RequeuedBody i) })
      (\<lambda>_. services (cov T D {}))" if "good_row rq \<and> q_ID rq = i" for rq
  proof (rule hoare_bind [OF requeueEnvelope_spec], rule services_fact)
    fix env :: envelope assume e: "e_ID env = q_ID rq \<and> e_Type env = q_Type rq \<and> e_Priority env = q_Priority rq"
    have "hoare (services (cov T D {}))
      (do { x \<leftarrow> Enqueue R C q env zero_time;
            (case x of
               Inl _ \<Rightarrow> pass ()
             | Inr streamID \<Rightarrow> do { _ \<leftarrow> db1 (\<lambda>ft. SetEnqueued ft i streamID); pass () }) })
      (\<lambda>_. services (cov T D {}))"
      by (rule enqueue_then [OF good_row_envelope [OF _ e]], use that in simp, use that e in simp,
          rule services_then [OF enqueued_call services_pass])
    from services_then [OF this writeJSON_keeps]
    show "hoare (services (cov T D {}))
      (do { x \<leftarrow> Enqueue R C q env zero_time;
            (case x of
               Inl _ \<Rightarrow> pass ()
             | Inr streamID \<Rightarrow> do { _ \<leftarrow> db1 (\<lambda>ft. SetEnqueued ft i streamID); pass () });
            writeJSON 200 (RequeuedBody i) })
      (\<lambda>_. services (cov T D {}))" by simp
  qed
  show ?thesis
    unfolding handleRequeueDLQ_def
    by (rule hoare_bind [OF call], rule services_fact, intro hoare_res hoare_option write_keeps deliver) simp
qed

end

end
