(* ===== verification/Demo.thy ===== *)
theory Demo
  imports Coverage
begin

text \<open>
  A concrete setting for the witnesses: a text format for envelopes that satisfies
  \<open>envelope_codec\<close>, an empty world over the in-memory Redis, and one submission.
\<close>

section \<open>A text format for envelopes\<close>

text \<open>A frame is a string behind its length in unary.\<close>

definition frame :: "string \<Rightarrow> string" where
  "frame s = replicate (length s) CHR ''.'' @ CHR ''#'' # s"

fun unframe :: "nat \<Rightarrow> string \<Rightarrow> (string \<times> string) option" where
  "unframe n [] = None"
| "unframe n (c # cs) =
    (if c = CHR ''.'' then unframe (Suc n) cs
     else if c = CHR ''#'' \<and> n \<le> length cs then Some (take n cs, drop n cs) else None)"

lemma unframe_dots: "unframe k (replicate n CHR ''.'' @ u) = unframe (k + n) u"
  by (induction n arbitrary: k) simp_all

lemma unframe_frame [simp]: "unframe 0 (frame s @ rest) = Some (s, rest)"
  by (simp add: frame_def unframe_dots)

fun unframes :: "nat \<Rightarrow> string \<Rightarrow> string list option" where
  "unframes 0 u = (if u = [] then Some [] else None)"
| "unframes (Suc n) u =
    (case unframe 0 u of None \<Rightarrow> None | Some (s, rest) \<Rightarrow> map_option ((#) s) (unframes n rest))"

lemma unframes_frames: "unframes (length xs) (concat (map frame xs)) = Some xs"
  by (induction xs) simp_all

definition tally :: "int \<Rightarrow> string" where
  "tally n = (if n < 0 then ''-'' else []) @ replicate (nat \<bar>n\<bar>) CHR ''I''"

definition untally :: "string \<Rightarrow> int" where
  "untally s = (case s of [] \<Rightarrow> 0 | c # cs \<Rightarrow> if c = CHR ''-'' then - int (length cs) else int (length s))"

lemma untally_tally [simp]: "untally (tally n) = n"
proof (cases "n < 0")
  case False
  then show ?thesis by (cases "nat n") (auto simp: tally_def untally_def)
qed (simp add: tally_def untally_def)

definition frame_codec :: codec where
  "frame_codec =
    \<lparr> marshal = (\<lambda>e. Inr (concat (map frame
        [e_ID e, e_Type e, e_Queue e, e_Priority e, e_Payload e, tally (e_Attempt e), tally (e_EnqueuedAt e)]))),
      unmarshal = (\<lambda>s. case unframes 7 s of
        Some [i, t, qu, p, pl, a, at'] \<Rightarrow>
          Inr \<lparr> e_ID = i, e_Type = t, e_Queue = qu, e_Priority = p, e_Attempt = untally a, e_Payload = pl,
                e_EnqueuedAt = untally at' \<rparr>
      | _ \<Rightarrow> Inl (Errorf ''not an envelope'')) \<rparr>"

lemma frame_codec_roundtrip: "marshal frame_codec e = Inr str \<Longrightarrow> unmarshal frame_codec str = Inr e"
  using unframes_frames [of "[e_ID e, e_Type e, e_Queue e, e_Priority e, e_Payload e, tally (e_Attempt e), tally (e_EnqueuedAt e)]"]
  by (auto simp add: frame_codec_def numeral_eq_Suc)

interpretation frames: envelope_codec frame_codec
  by unfold_locales (use frame_codec_roundtrip in blast)

section \<open>An empty world\<close>

definition demo_queue :: queue where
  "demo_queue = queue_New [] []"

definition demo_world :: "mem world" where
  "demo_world = \<lparr> w_db = \<lparr> jobs = [], job_attempts = [], job_events = [], workers = [], db_now = 100 \<rparr>,
     w_rd = mem_empty, w_faults = (\<lambda>_. Good), w_clock = (\<lambda>_. 7), w_rand = (\<lambda>_. 0) \<rparr>"

definition demo_server :: server where
  "demo_server = \<lparr> sv_KnownTypes = [''mail''], sv_tokens = [], sv_MaxPayloadBytes = 64 \<rparr>"

definition demo_request :: submit_request where
  "demo_request = \<lparr> sq_Type = ''mail'', sq_Payload = ''{}'', sq_Queue = [], sq_Priority = [], sq_MaxAttempts = 2,
     sq_IdempotencyKey = [], sq_DelaySeconds = 0, sq_ScheduledAt = zero_time \<rparr>"

definition demo_submit :: "(mem, response) prog" where
  "demo_submit = handleSubmit redis_mem frame_codec demo_queue demo_server (\<lambda>_. True) Some ''j1'' (Decoded demo_request)"

section \<open>Evaluation\<close>

lemmas prog_eval = pass_def pop_fault_def time_Now_def rand_def on_db_def on_rd_def db1_def db2_def
  db_read_def rcmd_def

lemmas table_eval = job_at_def addEvent_def insert_event_def update_jobs_def update_jobs_returning_def
  update_where_def rows_affected_def exec_stmt_def

lemmas submit_eval = handleSubmit_def submit_schedule_def New_def submit_handoff_def Enqueue_def
  NewEnvelope_def Encode_def writeJSON_def writeErr_def CreateJob_def insert_job_def new_row_def
  key_conflict_def SetEnqueued_def wrap_err_def ValidName_def is_alnum_def is_name_char_def
  MaxPayloadBytes_def DefaultQueue_def Priority_Valid_def MaxAttemptsCeiling_def PriorityDefault_def
  IsZero_def zero_time_def Let_def

lemma mem_eval:
  "xadd redis_mem = mem_xadd" "xrange redis_mem = mem_xrange" "zrange redis_mem = m_zsets"
  "xreadgroup redis_mem = mem_xreadgroup" "xack redis_mem = mem_xack" "xdel redis_mem = mem_xdel"
  "zadd redis_mem = mem_zadd" "zrangebyscore redis_mem = mem_zrangebyscore" "zrem redis_mem = mem_zrem"
  by (simp_all add: redis_mem_def)

lemma marshal_eval:
  "marshal frame_codec e = Inr (concat (map frame
    [e_ID e, e_Type e, e_Queue e, e_Priority e, e_Payload e, tally (e_Attempt e), tally (e_EnqueuedAt e)]))"
  by (simp add: frame_codec_def)

lemmas demo_eval = demo_world_def demo_queue_def demo_server_def demo_request_def queue_New_def
  mem_empty_def streamKey_def delayedKey_def

text \<open>The world after the submission.\<close>

definition demo_pending_row :: job_row where
  "demo_pending_row =
    \<lparr> r_id = ''j1'', r_type = ''mail'', r_queue = ''default'', r_status = StatusPending,
      r_priority = ''default'', r_payload = ''{}'', r_result = None, r_error = None, r_idempotency_key = None,
      r_attempt_count = 0, r_max_attempts = 2, r_lease_epoch = 0, r_lease_expires_at = None, r_worker_id = None,
      r_enqueued_stream_id = Some (entry_id 0), r_created_at = 7, r_scheduled_at = 7, r_started_at = None,
      r_completed_at = None, r_updated_at = 100 \<rparr>"

definition demo_submitted :: "mem world" where
  "demo_submitted = snd (run_state demo_submit demo_world)"

lemma demo_submit_status: "rs_Status (fst (run_state demo_submit demo_world)) = 201"
  by (simp add: demo_submit_def prog_eval submit_eval table_eval demo_eval mem_eval marshal_eval mem_xadd_def)

lemma demo_submitted_job: "job_at (w_db demo_submitted) ''j1'' = Some demo_pending_row"
  by (simp add: demo_submitted_def demo_pending_row_def demo_submit_def prog_eval submit_eval table_eval demo_eval
      mem_eval marshal_eval mem_xadd_def)

end
