(* ===== verification/Fleet.thy ===== *)
theory Fleet
  imports Handlers Demo
begin

text \<open>
  The running system: API servers, workers and recovery leaders share one database and one Redis.
  A step is one handler of some process, from its first remote call to its last, with any outcome
  of each call; between two handlers anything may happen, so an execution (claim, heartbeats,
  finish) is interleaved with every other process. A process that dies inside a handler is that
  handler with every later call failing, and a process that dies between handlers forgets its
  deliveries or its executions.
\<close>

section \<open>The transition system\<close>

text \<open>
  \<open>f_inbox\<close> are the deliveries some worker holds unclaimed, \<open>f_tasks\<close> the executions. \<open>W\<close> are the recorders
  the workers may use, given the executions under way: a batch writes what several of them ask for.
\<close>

record 'r fleet =
  f_world :: "'r world"
  f_inbox :: "delivery list"
  f_tasks :: "(delivery \<times> claim) list"

type_synonym workers = "(delivery \<times> claim) list \<Rightarrow> (op \<Rightarrow> db \<Rightarrow> bool res \<times> db) \<Rightarrow> bool"

inductive fleet_step ::
  "'r redis \<Rightarrow> ('r \<Rightarrow> key \<Rightarrow> string set) \<Rightarrow> codec \<Rightarrow> queue \<Rightarrow> workers \<Rightarrow> 'r fleet \<Rightarrow> 'r fleet \<Rightarrow> bool"
  for R issued C q W
where
  submit: "uuid \<noteq> [] \<Longrightarrow> run_state (handleSubmit R C q sv json_valid jsonb uuid body) (f_world f) = (resp, w) \<Longrightarrow>
    fleet_step R issued C q W f (f\<lparr>f_world := w\<rparr>)"
| cancel: "run_state (handleCancel R q i) (f_world f) = (resp, w) \<Longrightarrow>
    fleet_step R issued C q W f (f\<lparr>f_world := w\<rparr>)"
| requeue: "run_state (handleRequeueDLQ R C q i) (f_world f) = (resp, w) \<Longrightarrow>
    fleet_step R issued C q W f (f\<lparr>f_world := w\<rparr>)"
| fetch: "run_state (Fetch R C q consumer mx block) (f_world f) = ((out, err), w) \<Longrightarrow>
    fleet_step R issued C q W f (f\<lparr>f_world := w, f_inbox := f_inbox f @ out\<rparr>)"
| claim: "x \<in> set (f_inbox f) \<Longrightarrow> run_state (Run_claim R q n x) (f_world f) = ((Some cl, obs), w) \<Longrightarrow>
    fleet_step R issued C q W f (f\<lparr>f_world := w, f_inbox := remove1 x (f_inbox f), f_tasks := (x, cl) # f_tasks f\<rparr>)"
| skip: "x \<in> set (f_inbox f) \<Longrightarrow> run_state (Run_claim R q n x) (f_world f) = ((None, obs), w) \<Longrightarrow>
    fleet_step R issued C q W f (f\<lparr>f_world := w, f_inbox := remove1 x (f_inbox f)\<rparr>)"
| beat: "(x, cl) \<in> set (f_tasks f) \<Longrightarrow> run_state (heartbeat_tick R q n x cl ttl) (f_world f) = (cause, w) \<Longrightarrow>
    fleet_step R issued C q W f (f\<lparr>f_world := w\<rparr>)"
| finish: "(x, cl) \<in> set (f_tasks f) \<Longrightarrow> W (f_tasks f) rec \<Longrightarrow>
    run_state (finish R C q n rec x cl result herr cause) (f_world f) = (obs, w) \<Longrightarrow>
    fleet_step R issued C q W f (f\<lparr>f_world := w, f_tasks := remove1 (x, cl) (f_tasks f)\<rparr>)"
| lead: "run_state (leader_tick R C q l st) (f_world f) = (st', w) \<Longrightarrow>
    fleet_step R issued C q W f (f\<lparr>f_world := w\<rparr>)"
| renew: "run_state (leader_renew R q l st) (f_world f) = (st', w) \<Longrightarrow>
    fleet_step R issued C q W f (f\<lparr>f_world := w\<rparr>)"
| stop: "run_state (leader_stop R q l st) (f_world f) = (u, w) \<Longrightarrow>
    fleet_step R issued C q W f (f\<lparr>f_world := w\<rparr>)"
| lose_delivery: "fleet_step R issued C q W f (f\<lparr>f_inbox := remove1 x (f_inbox f)\<rparr>)"
| lose_task: "fleet_step R issued C q W f (f\<lparr>f_tasks := remove1 t (f_tasks f)\<rparr>)"
| time_passes: "w_db w = (w_db (f_world f))\<lparr>db_now := now\<rparr> \<Longrightarrow> same_queues R (w_rd (f_world f)) (w_rd w) \<Longrightarrow>
    issued (w_rd w) = issued (w_rd (f_world f)) \<Longrightarrow> fleet_step R issued C q W f (f\<lparr>f_world := w\<rparr>)"

inductive fleet_run ::
  "'r redis \<Rightarrow> ('r \<Rightarrow> key \<Rightarrow> string set) \<Rightarrow> codec \<Rightarrow> queue \<Rightarrow> workers \<Rightarrow> 'r fleet \<Rightarrow> 'r fleet \<Rightarrow> bool"
  for R issued C q W
where
  fleet_start: "fleet_run R issued C q W f f"
| fleet_next: "fleet_run R issued C q W f f' \<Longrightarrow> fleet_step R issued C q W f' f'' \<Longrightarrow> fleet_run R issued C q W f f''"

definition quiet_workers :: "workers \<Rightarrow> bool" where
  "quiet_workers W = (\<forall>T rec. W T rec \<longrightarrow> quiet_recorder rec)"

lemma quiet_workersD: "quiet_workers W \<Longrightarrow> W T rec \<Longrightarrow> quiet_recorder rec"
  by (simp add: quiet_workers_def)

text \<open>A system that has just been set up: no jobs, no entries, nothing fetched.\<close>

definition fleet_empty :: "'r redis \<Rightarrow> queue \<Rightarrow> 'r fleet \<Rightarrow> bool" where
  "fleet_empty R q f =
    (jobs (w_db (f_world f)) = [] \<and> job_attempts (w_db (f_world f)) = [] \<and> f_inbox f = [] \<and> f_tasks f = []
     \<and> list_all (\<lambda>p. xrange R (w_rd (f_world f)) (streamKey q p) = [] \<and> zrange R (w_rd (f_world f)) (delayedKey q p) = [])
         PriorityOrder)"

section \<open>The invariant\<close>

definition executing :: "'r fleet \<Rightarrow> (priority \<times> string) set" where
  "executing f = (\<lambda>(x, _). (dv_Priority x, dv_EntryID x)) ` set (f_tasks f)"

definition fleet_ok :: "'r redis \<Rightarrow> ('r \<Rightarrow> key \<Rightarrow> string set) \<Rightarrow> codec \<Rightarrow> queue \<Rightarrow> 'r fleet \<Rightarrow> bool" where
  "fleet_ok R issued C q f =
    (\<exists>D. covered R C q issued (executing f) D {} (w_db (f_world f)) (w_rd (f_world f))
       \<and> (\<forall>x \<in> set (f_inbox f) \<union> fst ` set (f_tasks f). held C D x))"

lemma insert_remove1: "y \<in> set xs \<Longrightarrow> set xs = insert y (set (remove1 y xs))"
  by (induction xs) auto

context transport
begin

lemma fleet_okI:
  "cov T D {} (w_db (f_world f)) (w_rd (f_world f)) \<Longrightarrow> executing f \<subseteq> T \<Longrightarrow>
    (\<And>x. x \<in> set (f_inbox f) \<union> fst ` set (f_tasks f) \<Longrightarrow> held C D x) \<Longrightarrow> fleet_ok R issued C q f"
  unfolding fleet_ok_def by (rule exI [of _ D]) (auto intro: covered_weaken)

lemma covered_run:
  assumes "hoare (services (cov T D {})) m (\<lambda>a. services (cov (T' a) D {}))"
    and "cov T D {} (w_db w) (w_rd w)" and "run_state m w = (a, w')"
  shows "cov (T' a) D {} (w_db w') (w_rd w')"
  using hoareD [OF assms(1) _ assms(3)] assms(2) by (simp add: services_def)

lemma reads_run:
  assumes "hoare (services (reads T D [])) m (\<lambda>a. services (reads T D (g a)))"
    and "cov T D {} (w_db w) (w_rd w)" and "run_state m w = (a, w')"
  obtains D' where "D \<subseteq> D'" "cov T D' {} (w_db w') (w_rd w')" "\<And>x. x \<in> set (g a) \<Longrightarrow> held C D' x"
proof -
  have "services (reads T D []) w" using assms(2) by (simp add: services_def reads_def) blast
  from hoareD [OF assms(1) this assms(3)] show ?thesis
    using that by (auto simp: services_def reads_def)
qed

text \<open>A handler that only changes the world.\<close>

lemma fleet_ok_world:
  assumes "fleet_ok R issued C q f" and "run_state m (f_world f) = (a, w)"
    and "\<And>T D. hoare (services (cov T D {})) m (\<lambda>_. services (cov T D {}))"
  shows "fleet_ok R issued C q (f\<lparr>f_world := w\<rparr>)"
proof -
  from assms(1) obtain D where c: "cov (executing f) D {} (w_db (f_world f)) (w_rd (f_world f))"
    and h: "\<And>x. x \<in> set (f_inbox f) \<union> fst ` set (f_tasks f) \<Longrightarrow> held C D x" unfolding fleet_ok_def by blast
  have "cov (executing f) D {} (w_db w) (w_rd w)" by (rule covered_run [OF assms(3) c assms(2)])
  with h show ?thesis by (intro fleet_okI [of "executing f" D]) (auto simp: executing_def)
qed

lemma fleet_ok_reads:
  assumes "fleet_ok R issued C q f" and "run_state m (f_world f) = (a, w)"
    and "\<And>T D. hoare (services (reads T D [])) m (\<lambda>a. services (reads T D (g a)))"
  shows "fleet_ok R issued C q (f\<lparr>f_world := w, f_inbox := f_inbox f @ g a\<rparr>)"
proof -
  from assms(1) obtain D where c: "cov (executing f) D {} (w_db (f_world f)) (w_rd (f_world f))"
    and h: "\<And>x. x \<in> set (f_inbox f) \<union> fst ` set (f_tasks f) \<Longrightarrow> held C D x" unfolding fleet_ok_def by blast
  from reads_run [OF assms(3) c assms(2)] obtain D' where "D \<subseteq> D'" "cov (executing f) D' {} (w_db w) (w_rd w)"
    "\<And>x. x \<in> set (g a) \<Longrightarrow> held C D' x" by blast
  with h show ?thesis by (intro fleet_okI [of "executing f" D']) (auto simp: executing_def intro: held_mono)
qed

lemma fleet_ok_claim:
  assumes "fleet_ok R issued C q f" and "x \<in> set (f_inbox f)"
    and "run_state (Run_claim R q n x) (f_world f) = ((c, obs), w)"
  shows "fleet_ok R issued C q (f\<lparr>f_world := w, f_inbox := remove1 x (f_inbox f),
    f_tasks := (case c of None \<Rightarrow> f_tasks f | Some cl \<Rightarrow> (x, cl) # f_tasks f)\<rparr>)"
proof -
  from assms(1) obtain D where cv: "cov (executing f) D {} (w_db (f_world f)) (w_rd (f_world f))"
    and h: "\<And>x. x \<in> set (f_inbox f) \<union> fst ` set (f_tasks f) \<Longrightarrow> held C D x" unfolding fleet_ok_def by blast
  have "held C D x" using h assms(2) by blast
  from covered_run [OF Run_claim_cov [OF this] cv assms(3)]
  have "cov (if c = None then executing f else insert (entry_key x) (executing f)) D {} (w_db w) (w_rd w)" by simp
  with h assms(2) show ?thesis
    by (rule_tac fleet_okI)
      (auto simp: executing_def entry_key_def split: option.splits dest: in_set_remove1 [THEN iffD1, rotated] notin_set_remove1)
qed

lemma executing_finish:
  "(x, cl) \<in> set (f_tasks f) \<Longrightarrow>
    executing f = insert (entry_key x) (executing (f\<lparr>f_tasks := remove1 (x, cl) (f_tasks f)\<rparr>))"
proof -
  assume "(x, cl) \<in> set (f_tasks f)"
  then have "set (f_tasks f) = insert (x, cl) (set (remove1 (x, cl) (f_tasks f)))"
    by (rule insert_remove1)
  then show ?thesis by (auto simp: executing_def entry_key_def)
qed

lemma fleet_ok_finish:
  assumes "fleet_ok R issued C q f" and "(x, cl) \<in> set (f_tasks f)" and "quiet_recorder rec"
    and "run_state (finish R C q n rec x cl result herr cause) (f_world f) = (obs, w)"
  shows "fleet_ok R issued C q (f\<lparr>f_world := w, f_tasks := remove1 (x, cl) (f_tasks f)\<rparr>)"
proof -
  let ?T = "executing (f\<lparr>f_tasks := remove1 (x, cl) (f_tasks f)\<rparr>)"
  from assms(1) obtain D where c: "cov (insert (entry_key x) ?T) D {} (w_db (f_world f)) (w_rd (f_world f))"
    and h: "\<And>x. x \<in> set (f_inbox f) \<union> fst ` set (f_tasks f) \<Longrightarrow> held C D x"
    unfolding fleet_ok_def executing_finish [OF assms(2)] by blast
  have "held C D x" using h [of x] assms(2) by force
  from covered_run [OF finish_cov [OF this assms(3)] c assms(4)] have "cov ?T D {} (w_db w) (w_rd w)" .
  moreover have "held C D y" if "y \<in> set (f_inbox f) \<union> fst ` set (remove1 (x, cl) (f_tasks f))" for y
    using that h [of y] set_remove1_subset [of "(x, cl)" "f_tasks f"] by blast
  ultimately show ?thesis by (intro fleet_okI [of ?T D]) (auto simp: executing_def)
qed

lemma fleet_ok_forget:
  assumes "fleet_ok R issued C q f" and "set inbox \<subseteq> set (f_inbox f)" and "set tasks \<subseteq> set (f_tasks f)"
  shows "fleet_ok R issued C q (f\<lparr>f_inbox := inbox, f_tasks := tasks\<rparr>)"
proof -
  from assms(1) obtain D where c: "cov (executing f) D {} (w_db (f_world f)) (w_rd (f_world f))"
    and h: "\<And>x. x \<in> set (f_inbox f) \<union> fst ` set (f_tasks f) \<Longrightarrow> held C D x" unfolding fleet_ok_def by blast
  then show ?thesis using assms(2,3) by (intro fleet_okI [of "executing f" D]) (auto simp: executing_def)
qed

lemma fleet_ok_time:
  assumes "fleet_ok R issued C q f" and "w_db w = (w_db (f_world f))\<lparr>db_now := now\<rparr>"
    and "same_queues R (w_rd (f_world f)) (w_rd w)" and "issued (w_rd w) = issued (w_rd (f_world f))"
  shows "fleet_ok R issued C q (f\<lparr>f_world := w\<rparr>)"
proof -
  from assms(1) obtain D where c: "cov (executing f) D {} (w_db (f_world f)) (w_rd (f_world f))"
    and h: "\<And>x. x \<in> set (f_inbox f) \<union> fst ` set (f_tasks f) \<Longrightarrow> held C D x" unfolding fleet_ok_def by blast
  have "cov (executing f) D {} (w_db w) (w_rd (f_world f))"
    unfolding assms(2) by (rule covered_db [OF c store_run_1 [OF step_clock]]) (simp add: quiet_same_jobs)
  then have "cov (executing f) D {} (w_db w) (w_rd w)" by (rule cov_same) (use assms in simp_all)
  with h show ?thesis by (intro fleet_okI [of "executing f" D]) (auto simp: executing_def)
qed

lemma fleet_step_ok:
  assumes "fleet_step R issued C q W f f'" and ok: "fleet_ok R issued C q f"
    and W: "quiet_workers W"
  shows "fleet_ok R issued C q f'"
  using assms(1)
proof (cases rule: fleet_step.cases)
  case (submit uuid sv json_valid jsonb body resp w)
  then show ?thesis using fleet_ok_world [OF ok submit(3)] handleSubmit_cov by blast
next
  case (cancel i resp w)
  then show ?thesis using fleet_ok_world [OF ok cancel(2)] handleCancel_cov by blast
next
  case (requeue i resp w)
  then show ?thesis using fleet_ok_world [OF ok requeue(2)] handleRequeueDLQ_cov by blast
next
  case (fetch consumer mx block out err w)
  then show ?thesis using fleet_ok_reads [OF ok fetch(2), of fst] Fetch_reads by simp
next
  case (claim x n cl obs w)
  then show ?thesis using fleet_ok_claim [OF ok claim(2,3)] by simp
next
  case (skip x n obs w)
  then show ?thesis using fleet_ok_claim [OF ok skip(2,3)] by simp
next
  case (beat x cl n ttl cause w)
  then show ?thesis using fleet_ok_world [OF ok beat(3)] heartbeat_tick_cov by blast
next
  case (finish x cl rec n result herr cause obs w)
  then show ?thesis using fleet_ok_finish [OF ok finish(2) quiet_workersD [OF W finish(3)] finish(4)] by simp
next
  case (lead l st st' w)
  then show ?thesis using fleet_ok_reads [OF ok lead(2), of "\<lambda>_. []"] leader_tick_reads by simp
next
  case (renew l st st' w)
  then show ?thesis using fleet_ok_world [OF ok renew(2)] leader_renew_cov by blast
next
  case (stop l st u w)
  then show ?thesis using fleet_ok_world [OF ok stop(2)] leader_stop_cov by blast
next
  case (lose_delivery x)
  then show ?thesis using fleet_ok_forget [OF ok, of "remove1 x (f_inbox f)" "f_tasks f"] by (simp add: set_remove1_subset)
next
  case (lose_task t)
  then show ?thesis using fleet_ok_forget [OF ok, of "f_inbox f" "remove1 t (f_tasks f)"] by (simp add: set_remove1_subset)
next
  case (time_passes w now)
  then show ?thesis using fleet_ok_time [OF ok] by blast
qed

lemma fleet_run_ok:
  "fleet_run R issued C q W f f' \<Longrightarrow> quiet_workers W \<Longrightarrow> fleet_ok R issued C q f \<Longrightarrow>
    fleet_ok R issued C q f'"
  by (induction rule: fleet_run.induct) (blast intro: fleet_step_ok)+

lemma fleet_empty_ok:
  assumes "fleet_empty R q f"
  shows "fleet_ok R issued C q f"
proof -
  have "db_wf (w_db (f_world f))" using assms by (simp add: fleet_empty_def db_wf_def)
  moreover have "queue_ok R C q (w_rd (f_world f))"
    using assms by (simp add: fleet_empty_def queue_ok_def zmembers_def list_all_iff)
  ultimately have "cov (executing f) {} {} (w_db (f_world f)) (w_rd (f_world f))"
    using assms by (simp add: fleet_empty_def covered_def executing_def job_at_def)
  then show ?thesis by (rule fleet_okI) (use assms in \<open>auto simp: fleet_empty_def\<close>)
qed

end

section \<open>No job is lost\<close>

text \<open>The sweeps' queries, at a time of the database.\<close>

definition sweep_sees :: "duration \<Rightarrow> duration \<Rightarrow> time \<Rightarrow> job_row \<Rightarrow> bool" where
  "sweep_sees grace age now r = (expired_running now grace r \<or> unenqueued_due age now r \<or> stuck_retrying age now r)"

lemma sweep_sees_eventually:
  assumes "row_wf r" and "\<not> Terminal (r_status r)" and "\<not> obliged r"
  shows "\<exists>t. \<forall>now \<ge> t. sweep_sees grace age now r"
proof (cases "r_status r")
  case StatusPending
  with assms(3) have "r_enqueued_stream_id r = None" by (simp add: obliged_def)
  with StatusPending have "\<forall>now \<ge> max (r_scheduled_at r) (r_created_at r + age + 1). sweep_sees grace age now r"
    by (auto simp: sweep_sees_def unenqueued_due_def)
  then show ?thesis by blast
next
  case StatusRunning
  with assms(1) obtain t where "r_lease_expires_at r = Some t" by (auto simp: row_wf_def)
  with StatusRunning have "\<forall>now \<ge> t + grace + 1. sweep_sees grace age now r"
    by (auto simp: sweep_sees_def expired_running_def)
  then show ?thesis by blast
next
  case StatusRetrying
  then have "\<forall>now \<ge> r_scheduled_at r + age + 1. sweep_sees grace age now r"
    by (auto simp: sweep_sees_def stuck_retrying_def)
  then show ?thesis by blast
qed (use assms(2) in \<open>simp_all add: Terminal_def\<close>)

lemma reachable_fleet_ok:
  assumes "redis_service R issued" and "envelope_codec C" and "fleet_empty R q f0"
    and "fleet_run R issued C q W f0 f" and "quiet_workers W"
  shows "fleet_ok R issued C q f"
proof -
  have tr: "transport R issued C" using assms(1,2) by (rule transport.intro)
  show ?thesis
    using transport.fleet_run_ok [OF tr assms(4,5)] transport.fleet_empty_ok [OF tr assms(3)] by blast
qed

text \<open>
  C1. No job is ever lost. From an empty system, after any interleaving of submissions,
  cancellations, dead-letter requeues, fetches, claims, heartbeats, finishes, leader ticks and
  crashes, with any outcome of every remote call and any recorder that obliges nothing (both of
  the program's do), every stored job is finished, or is carried by a stream entry that no
  execution is about to acknowledge or by a delayed envelope, or is found by one of the three
  sweep queries from some time on.
\<close>

theorem no_job_lost:
  assumes "redis_service R issued" and "envelope_codec C"
    and "fleet_empty R q f0" and "fleet_run R issued C q W f0 f" and "quiet_workers W"
    and "job_at (w_db (f_world f)) i = Some r"
  shows "Terminal (r_status r) \<or> carried R C q (executing f) (w_rd (f_world f)) i
    \<or> (\<exists>t. \<forall>now \<ge> t. sweep_sees grace age now r)"
proof -
  have "fleet_ok R issued C q f" by (rule reachable_fleet_ok [OF assms(1-5)])
  then obtain D where c: "covered R C q issued (executing f) D {} (w_db (f_world f)) (w_rd (f_world f))"
    unfolding fleet_ok_def by blast
  have "row_wf r"
    using c assms(6) by (auto simp: covered_def db_wf_def list_all_iff job_at_def dest: find_row_Some)
  moreover have "carried R C q (executing f) (w_rd (f_world f)) i" if "obliged r"
    using c assms(6) that unfolding covered_def by blast
  ultimately show ?thesis using sweep_sees_eventually by blast
qed

text \<open>Workers that write at once, and what other workers' recorders have to satisfy.\<close>

definition sync_workers :: workers where
  "sync_workers T rec = (\<exists>jsonb F. rec = SyncRecorder jsonb F)"

lemma sync_workers_quiet: "quiet_workers sync_workers"
  by (auto simp: quiet_workers_def sync_workers_def intro: sync.quiet_recorder_axioms)

definition demo_fleet :: "mem fleet" where
  "demo_fleet = \<lparr> f_world = demo_world, f_inbox = [], f_tasks = [] \<rparr>"

lemma demo_fleet_empty: "fleet_empty redis_mem demo_queue demo_fleet"
  by (simp add: fleet_empty_def demo_fleet_def demo_world_def mem_eval mem_empty_def mem_xrange_def list_all_iff)

lemma demo_fleet_submitted: "fleet_run redis_mem mem_issued frame_codec demo_queue W demo_fleet (demo_fleet\<lparr>f_world := demo_submitted\<rparr>)"
  by (rule fleet_next [OF fleet_start submit [of "''j1''"]])
    (simp_all add: demo_submitted_def demo_submit_def demo_fleet_def prod_eq_iff)

theorem no_job_lost_witness:
  "\<exists>f. fleet_run redis_mem mem_issued frame_codec demo_queue sync_workers demo_fleet f
     \<and> job_at (w_db (f_world f)) ''j1'' = Some demo_pending_row
     \<and> carried redis_mem frame_codec demo_queue (executing f) (w_rd (f_world f)) ''j1''"
proof -
  let ?f = "demo_fleet\<lparr>f_world := demo_submitted\<rparr>"
  have job: "job_at (w_db (f_world ?f)) ''j1'' = Some demo_pending_row" by (simp add: demo_submitted_job)
  from no_job_lost [OF mem.redis_service_axioms frames.envelope_codec_axioms demo_fleet_empty demo_fleet_submitted
      sync_workers_quiet job, of 0 0]
  have "carried redis_mem frame_codec demo_queue (executing ?f) (w_rd (f_world ?f)) ''j1''"
    by (auto simp: demo_pending_row_def Terminal_def sweep_sees_def expired_running_def unenqueued_due_def
        stuck_retrying_def)
  with demo_fleet_submitted job show ?thesis by blast
qed

section \<open>Why promotion has to be one step\<close>

text \<open>
  C29. A late mark hides a job. \<^verbatim>\<open>MarkPromoted\<close> carries no lease epoch: it turns any RETRYING row of its list into a
  PENDING one. A RETRYING row is found again by the sweep from some time on, whatever became of its
  envelope. After the mark, a sweep query finds the row at some time only if it has no stream identifier;
  a row that was enqueued before has one, and from then on only an entry of the queue can bring it back.
  When a worker has fetched, failed and rescheduled the job between the promotion and its mark, and
  the write to the delayed set failed, there is none.
\<close>

theorem late_mark_hides:
  assumes "job_at d i = Some r" and "r_status r = StatusRetrying" and "i \<in> set ids"
  shows "(\<exists>t. \<forall>now \<ge> t. sweep_sees grace age now r)
    \<and> (\<exists>r'. job_at (snd (MarkPromoted Good ids d)) i = Some r' \<and> r_status r' = StatusPending
        \<and> ((\<exists>grace' age' now. sweep_sees grace' age' now r') \<longleftrightarrow> r_enqueued_stream_id r = None))"
proof (intro conjI)
  show "\<exists>t. \<forall>now \<ge> t. sweep_sees grace age now r"
    using assms(2) by (intro exI [of _ "r_scheduled_at r + age + 1"]) (simp add: sweep_sees_def stuck_retrying_def)
  have "r_id r = i" using assms(1) by (auto simp: job_at_def dest: find_row_Some)
  then have row: "job_at (snd (MarkPromoted Good ids d)) i = Some (promoted_set (db_now d) r)"
    using assms by (auto simp: MarkPromoted_def exec_stmt_def update_jobs_def job_at_def table_simps promoted_set_def)
  have "(\<exists>grace' age' now. sweep_sees grace' age' now (promoted_set (db_now d) r)) \<longleftrightarrow> r_enqueued_stream_id r = None"
  proof
    assume "r_enqueued_stream_id r = None"
    then have "sweep_sees 0 0 (max (r_scheduled_at r) (r_created_at r) + 1) (promoted_set (db_now d) r)"
      by (simp add: promoted_set_def sweep_sees_def unenqueued_due_def max_def)
    then show "\<exists>grace' age' now. sweep_sees grace' age' now (promoted_set (db_now d) r)" by blast
  qed (auto simp: promoted_set_def sweep_sees_def expired_running_def unenqueued_due_def stuck_retrying_def)
  with row show "\<exists>r'. job_at (snd (MarkPromoted Good ids d)) i = Some r' \<and> r_status r' = StatusPending
        \<and> ((\<exists>grace' age' now. sweep_sees grace' age' now r') \<longleftrightarrow> r_enqueued_stream_id r = None)"
    by (intro exI [of _ "promoted_set (db_now d) r"]) (simp add: promoted_set_def)
qed

definition demo_retrying_row :: job_row where
  "demo_retrying_row = demo_pending_row\<lparr>r_status := StatusRetrying\<rparr>"

theorem late_mark_hides_witness:
  "\<exists>r'. job_at (snd (MarkPromoted Good [''j1''] (w_db demo_world\<lparr>jobs := [demo_retrying_row]\<rparr>))) ''j1'' = Some r'
    \<and> r_status r' = StatusPending \<and> \<not> (\<exists>grace age now. sweep_sees grace age now r')"
proof -
  have r: "job_at (w_db demo_world\<lparr>jobs := [demo_retrying_row]\<rparr>) ''j1'' = Some demo_retrying_row"
    by (simp add: job_at_def demo_retrying_row_def demo_pending_row_def)
  have "r_status demo_retrying_row = StatusRetrying" "r_enqueued_stream_id demo_retrying_row \<noteq> None"
    by (simp_all add: demo_retrying_row_def demo_pending_row_def)
  with late_mark_hides [OF r, of "[''j1'']" 0 0] show ?thesis by auto
qed

end
