(* ===== verification/Runner_Props.thy ===== *)
theory Runner_Props
  imports Handlers Demo
begin

text \<open>
  What one execution promises: the record comes before the acknowledgement, every outcome is
  routed to its status, the classification of a handler's error, and the registry.
\<close>

section \<open>Programs that leave one service alone\<close>

lemma rcmd_db: "hoare (services (\<lambda>d s. G d)) (rcmd f) (\<lambda>_. services (\<lambda>d s. G d))"
  by (rule services_rcmd)

lemma Ack_db: "hoare (services (\<lambda>d s. G d)) (Ack R q p i) (\<lambda>_. services (\<lambda>d s. G d))"
  unfolding Ack_def by (intro services_then hoare_bind [OF rcmd_db] services_pass)

lemma runner_ack_db: "hoare (services (\<lambda>d s. G d)) (runner_ack R q d) (\<lambda>_. services (\<lambda>d s. G d))"
  unfolding runner_ack_def by (rule services_then [OF Ack_db services_pass])

lemma queue_ScheduleRetry_db:
  "hoare (services (\<lambda>d s. G d)) (queue_ScheduleRetry R C q env t) (\<lambda>_. services (\<lambda>d s. G d))"
  by (cases "Encode C env") (simp_all add: queue_ScheduleRetry_def services_pass hoare_bind [OF rcmd_db])

lemma DeadLetter_db: "hoare (services (\<lambda>d s. G d)) (DeadLetter R C q env msg) (\<lambda>_. services (\<lambda>d s. G d))"
  by (cases "Encode C env")
    (simp_all add: DeadLetter_def services_pass hoare_bind [OF rcmd_db] hoare_bind [OF services_time_Now])

lemma on_db_rd:
  "(\<And>d. I d \<Longrightarrow> J (fst (f d)) (snd (f d))) \<Longrightarrow>
    hoare (services (\<lambda>d s. I d \<and> H s)) (on_db f) (\<lambda>a. services (\<lambda>d s. J a d \<and> H s))"
  by (rule services_on_db) blast

text \<open>The operation that \<^verbatim>\<open>finish\<close> records, by the outcome and whether the attempts are exhausted.\<close>

definition finish_kind :: "outcome \<Rightarrow> bool \<Rightarrow> opKind" where
  "finish_kind oc exhausted =
    (if oc = OutcomeCompleted then opComplete
     else if oc = OutcomeFailed then opFail
     else if oc = OutcomeCancelled then opCancel
     else if exhausted then opDead else opRetry)"

text \<open>
  The switch of \<^verbatim>\<open>finish\<close>, followed once: \<open>G\<close> and \<open>L\<close> are what the recorder call leaves when it
  answers and when it fails. The handoffs to Redis keep what holds of the database.
\<close>

lemma finish_record_db:
  assumes rec: "\<And>p. b_id p = e_ID (dv_Env x) \<Longrightarrow> b_epoch p = c_Epoch cl \<Longrightarrow>
      b_kind p = finish_kind oc (c_Attempt cl \<ge> c_MaxAttempts cl) \<Longrightarrow>
      (b_kind p = opComplete \<longrightarrow> b_result p = result_text result) \<Longrightarrow>
      hoare (services I) (on_db (rec p)) (\<lambda>y. services (\<lambda>d s. case y of Inl _ \<Rightarrow> L d s | Inr b \<Rightarrow> G b d))"
  shows "hoare (services I) (finish_record R C q n rec x cl result herr oc att now)
    (\<lambda>y. services (\<lambda>d s. case fst y of Inl _ \<Rightarrow> L d s | Inr b \<Rightarrow> G b d))"
proof -
  let ?Q = "\<lambda>y. services (\<lambda>d s. case y of Inl _ \<Rightarrow> L d s | Inr b \<Rightarrow> G b d)"
  have hand: "hoare (?Q y) (if y = Inr True then do { _ \<leftarrow> m; pass () } else pass ()) (\<lambda>_. ?Q y)"
    if "hoare (services (\<lambda>d s. G True d)) m (\<lambda>_. services (\<lambda>d s. G True d))"
    for y :: "bool res" and m :: "('a, unit res) prog"
    using services_then [OF that services_pass] by (auto intro: services_pass)
  have delay: "hoare (services I) (if oc = OutcomeInterrupted then pass 0 else backoff_delay b c k) (\<lambda>_. services I)" for b c k
    by (intro hoare_if services_pass services_backoff)
  note ops = op_Complete_def op_Fail_def op_Cancelled_def op_DeadLetter_def op_Retry_def finish_kind_def
  show ?thesis
    unfolding finish_record_def Let_def
    by (intro hoare_if hoare_bind [OF delay] hoare_bind [OF rec] services_then [OF hand [OF DeadLetter_db]]
        services_then [OF hand [OF queue_ScheduleRetry_db]])
      (simp_all add: ops services_pass)
qed

lemma hoare_any: "hoare P m (\<lambda>_ _. True)"
  by (simp add: hoare_def)

lemma finish_record_notify:
  "hoare P (finish_record R C q n rec x cl result herr oc att now) (\<lambda>y _. snd y \<noteq> WriteFenced)"
proof -
  have p: "hoare Q (pass (y, m)) (\<lambda>y _. snd y \<noteq> WriteFenced)" if "m \<noteq> WriteFenced"
    for Q :: "'a world \<Rightarrow> bool" and y :: "bool res" and m
    using that by (simp add: hoare_def pass_def)
  show ?thesis
    unfolding finish_record_def Let_def by (intro hoare_if hoare_bind [OF hoare_any] p) simp_all
qed

section \<open>The record comes first\<close>

lemma finish_first:
  assumes "recorder rec"
  shows "hoare (services (\<lambda>d s. s = s0 \<and> db_wf d \<and> (\<exists>r. job_at d (e_ID (dv_Env x)) = Some r \<and> c_Epoch cl \<le> r_lease_epoch r)))
    (finish R C q n rec x cl result herr cause)
    (\<lambda>obs. services (\<lambda>d s. (\<exists>r'. job_at d (e_ID (dv_Env x)) = Some r' \<and> spent (c_Epoch cl) r') \<or> s = s0 \<and> obs = []))"
proof -
  let ?i = "e_ID (dv_Env x)"
  let ?I = "\<lambda>d s. s = s0 \<and> db_wf d \<and> (\<exists>r. job_at d ?i = Some r \<and> c_Epoch cl \<le> r_lease_epoch r)"
  let ?G = "\<lambda>d. \<exists>r'. job_at d ?i = Some r' \<and> spent (c_Epoch cl) r'"
  have rec: "hoare (services ?I) (on_db (rec p)) (\<lambda>y. services (\<lambda>d s. case y of Inl _ \<Rightarrow> s = s0 | Inr b \<Rightarrow> ?G d))"
    if "b_id p = ?i" "b_epoch p = c_Epoch cl" for p
  proof (rule services_on_db)
    fix d s assume i: "?I d s"
    show "case fst (rec p d) of Inl _ \<Rightarrow> s = s0 | Inr b \<Rightarrow> ?G (snd (rec p d))"
    proof (cases "fst (rec p d)")
      case (Inr b)
      then have "rec p d = (Inr b, snd (rec p d))" by (simp add: prod_eq_iff)
      with i that recorder.rec_durable [OF assms, of d p] show ?thesis by (auto simp: Inr)
    qed (use i in simp)
  qed
  have recorded: "hoare (services ?I) (finish_record R C q n rec x cl result herr oc att now)
      (\<lambda>y. services (\<lambda>d s. case fst y of Inl _ \<Rightarrow> s = s0 | Inr b \<Rightarrow> ?G d))" for oc att now
    by (rule finish_record_db) (rule rec)
  have expired: "hoare (services ?I) (do { _ \<leftarrow> db1 (\<lambda>ft. RecordAttempt ft att); pass [] })
      (\<lambda>obs. services (\<lambda>d s. ?G d \<or> s = s0 \<and> obs = []))" for att
    by (rule services_then [OF services_db1 [where J = "\<lambda>_ d s. s = s0"] services_pass]) simp_all
  have answer: "hoare (services (\<lambda>d s. case fst y of Inl _ \<Rightarrow> s = s0 | Inr b \<Rightarrow> ?G d))
      (case y of
         (Inl _, _) \<Rightarrow> pass []
       | (Inr applied, notify) \<Rightarrow> do {
           runner_ack R q x;
           pass ((if applied then [] else [WriteFenced]) @ [notify]) })
      (\<lambda>obs. services (\<lambda>d s. ?G d \<or> s = s0 \<and> obs = []))" for y :: "bool res \<times> observation"
    by (auto split: prod.split sum.split intro!: services_pass services_then [OF runner_ack_db])
  show ?thesis
    unfolding finish_def Let_def
    by (rule hoare_bind [OF services_time_Now], rule hoare_if, rule expired, rule hoare_bind [OF recorded answer])
qed

text \<open>
  C5. The record comes before the acknowledgement. When \<^verbatim>\<open>finish\<close> returns, either its outcome is
  durable (the owner named by the claim can never write again) or Redis is exactly as it was and
  nothing was reported: the entry is not acknowledged, no retry or dead letter is queued, no metric
  is counted. This holds for every recorder that keeps the recorder's contract and every outcome
  of every call.
\<close>

theorem finish_records_first:
  assumes "recorder rec" and "db_wf (w_db w)" and "job_at (w_db w) (e_ID (dv_Env x)) = Some r"
    and "c_Epoch cl \<le> r_lease_epoch r"
    and "run_state (finish R C q n rec x cl result herr cause) w = (obs, w')"
  shows "(\<exists>r'. job_at (w_db w') (e_ID (dv_Env x)) = Some r' \<and> spent (c_Epoch cl) r')
    \<or> w_rd w' = w_rd w \<and> obs = []"
  using hoareD [OF finish_first [OF assms(1), of "w_rd w"] _ assms(5)] assms(2-4)
  by (simp add: services_def)

definition demo_running :: "mem world" where
  "demo_running = demo_world\<lparr>w_db := demo_db\<rparr>"

definition demo_delivery :: delivery where
  "demo_delivery =
    \<lparr> dv_Env = \<lparr> e_ID = ''j1'', e_Type = ''mail'', e_Queue = ''default'', e_Priority = ''high'', e_Attempt = 2,
        e_Payload = ''{}'', e_EnqueuedAt = 10 \<rparr>, dv_EntryID = ''0-0'', dv_Priority = ''high'' \<rparr>"

definition demo_claim :: claim where
  "demo_claim = \<lparr> c_Epoch = 2, c_Attempt = 2, c_MaxAttempts = 3, c_StartedAt = 20 \<rparr>"

definition demo_runner :: runner where
  "demo_runner = \<lparr> n_Registry = [], n_Base = 1, n_Cap = 8, n_WorkerID = ''w1'', n_LeaseTTL = 30, n_ExecTimeout = 60 \<rparr>"

lemma demo_running_db [simp]: "w_db demo_running = demo_db"
  by (simp add: demo_running_def)

lemma demo_delivery_id [simp]: "e_ID (dv_Env demo_delivery) = ''j1''"
  by (simp add: demo_delivery_def)

theorem finish_records_first_witness:
  "\<exists>obs w'. run_state (finish redis_mem frame_codec demo_queue demo_runner (SyncRecorder Some no_sync_faults)
       demo_delivery demo_claim ''42'' None None) demo_running = (obs, w')
     \<and> ((\<exists>r'. job_at (w_db w') ''j1'' = Some r' \<and> spent 2 r') \<or> w_rd w' = mem_empty \<and> obs = [])"
proof -
  obtain obs w' where run: "run_state (finish redis_mem frame_codec demo_queue demo_runner
       (SyncRecorder Some no_sync_faults) demo_delivery demo_claim ''42'' None None) demo_running = (obs, w')" by fastforce
  have "c_Epoch demo_claim \<le> r_lease_epoch demo_row" by (simp add: demo_claim_def demo_row_def)
  from finish_records_first [OF sync.recorder_axioms _ _ this run] run show ?thesis
    by (simp add: demo_claim_def demo_running_def demo_world_def)
qed

section \<open>Routing\<close>

lemma sync_fenced:
  assumes "db_wf d" and "job_at d (b_id p) = Some r" and "fenced (b_id p) (b_epoch p) r" and "f_write F = Good"
    and "b_kind p = opComplete \<Longrightarrow> jsonb (result_text (b_result p)) \<noteq> None"
  obtains d' r' where "SyncRecorder jsonb F p d = (Inr True, d')" "job_at d' (b_id p) = Some r'"
    "finish_target jsonb (kind_write (b_kind p) p) r'" "r_lease_epoch r' = b_epoch p"
proof -
  have "rows_affected (fenced (b_id p) (b_epoch p)) (jobs d) = 1"
    using assms(1-3) rows_affected_key
      [of r_id "jobs d" "b_id p" "\<lambda>r. r_lease_epoch r = b_epoch p \<and> r_status r = StatusRunning"]
    by (simp add: db_wf_def job_at_def fenced_def [abs_def])
  then have "fst (owner_call jsonb Good (f_event F) (b_id p) (b_epoch p) (kind_write (b_kind p) p) d) = Inr True"
    using assms(5) by (cases "b_kind p") (auto simp: owner_defs exec_fenced_Good)
  then obtain d1 where o: "owner_call jsonb Good (f_event F) (b_id p) (b_epoch p) (kind_write (b_kind p) p) d = (Inr True, d1)"
    by (metis prod.collapse)
  from owner_call_applied [OF assms(1) this] obtain r' where
    "job_at d1 (b_id p) = Some r'" "r_lease_epoch r' = b_epoch p" "finish_target jsonb (kind_write (b_kind p) p) r'" by metis
  then show ?thesis
    using o assms(4) by (intro that [of "snd (RecordAttempt (f_attempt F) (b_att p) d1)" r'])
      (simp_all add: SyncRecorder_def sync_write_owner_call job_at_def)
qed

text \<open>The specification of routing: the status an outcome ends in.\<close>

primrec routed_status :: "outcome \<Rightarrow> bool \<Rightarrow> status option" where
  "routed_status OutcomeCompleted exhausted = Some StatusCompleted"
| "routed_status OutcomeFailed exhausted = Some StatusFailed"
| "routed_status OutcomeCancelled exhausted = Some StatusCancelled"
| "routed_status OutcomeLeaseExpired exhausted = None"
| "routed_status OutcomeRetryable exhausted = Some (if exhausted then StatusDeadLetter else StatusRetrying)"
| "routed_status OutcomeInterrupted exhausted = Some (if exhausted then StatusDeadLetter else StatusRetrying)"
| "routed_status OutcomePanicked exhausted = Some (if exhausted then StatusDeadLetter else StatusRetrying)"

lemma finish_kind_routed:
  assumes "finish_target jsonb (kind_write (finish_kind oc ex) p) r" and "oc \<noteq> OutcomeLeaseExpired"
  shows "routed_status oc ex = Some (r_status r)"
  using assms by (cases oc) (auto simp: finish_kind_def finish_target_def)

lemma finish_routed:
  assumes "f_write F = Good" and "jsonb (result_text result) \<noteq> None"
  shows "hoare (services (\<lambda>d s. db_wf d \<and> job_at d (e_ID (dv_Env x)) = Some r \<and> fenced (e_ID (dv_Env x)) (c_Epoch cl) r))
    (finish R C q n (SyncRecorder jsonb F) x cl result herr cause)
    (\<lambda>obs. services (\<lambda>d s. case routed_status (finish_outcome herr cause) (c_Attempt cl \<ge> c_MaxAttempts cl) of
         None \<Rightarrow> job_at d (e_ID (dv_Env x)) = Some r \<and> obs = []
       | Some st \<Rightarrow> (\<exists>r'. job_at d (e_ID (dv_Env x)) = Some r' \<and> r_status r' = st \<and> r_lease_epoch r' = c_Epoch cl)
           \<and> length obs = 1 \<and> WriteFenced \<notin> set obs))"
proof -
  let ?i = "e_ID (dv_Env x)" and ?ex = "c_Attempt cl \<ge> c_MaxAttempts cl"
  let ?I = "\<lambda>d s. db_wf d \<and> job_at d ?i = Some r \<and> fenced ?i (c_Epoch cl) r"
  let ?G = "\<lambda>oc b d. b \<and> (\<exists>r'. job_at d ?i = Some r' \<and> routed_status oc ?ex = Some (r_status r') \<and> r_lease_epoch r' = c_Epoch cl)"
  have rec: "hoare (services ?I) (on_db (SyncRecorder jsonb F p))
      (\<lambda>y. services (\<lambda>d s. case y of Inl _ \<Rightarrow> False | Inr b \<Rightarrow> ?G oc b d))"
    if "b_id p = ?i" "b_epoch p = c_Epoch cl" "b_kind p = finish_kind oc ?ex"
      "b_kind p = opComplete \<longrightarrow> b_result p = result_text result" "oc \<noteq> OutcomeLeaseExpired" for p oc
  proof (rule services_on_db)
    fix d s assume i: "?I d s"
    have "result_text (result_text result) = result_text result" by (simp add: result_text_def)
    with i that assms sync_fenced [of d p r F jsonb]
    obtain d' r' where "SyncRecorder jsonb F p d = (Inr True, d')" "job_at d' ?i = Some r'"
      "finish_target jsonb (kind_write (finish_kind oc ?ex) p) r'" "r_lease_epoch r' = c_Epoch cl" by auto
    with finish_kind_routed [OF this(3) that(5)]
    show "case fst (SyncRecorder jsonb F p d) of Inl _ \<Rightarrow> False | Inr b \<Rightarrow> ?G oc b (snd (SyncRecorder jsonb F p d))" by simp
  qed
  have recorded: "hoare (services ?I) (finish_record R C q n (SyncRecorder jsonb F) x cl result herr oc att now)
      (\<lambda>y. services (\<lambda>d s. case fst y of Inl _ \<Rightarrow> False | Inr b \<Rightarrow> ?G oc b d))" if "oc \<noteq> OutcomeLeaseExpired" for oc att now
    by (rule finish_record_db) (rule rec [OF _ _ _ _ that])
  let ?Q = "\<lambda>obs. services (\<lambda>d s. case routed_status (finish_outcome herr cause) ?ex of
         None \<Rightarrow> job_at d ?i = Some r \<and> obs = []
       | Some st \<Rightarrow> (\<exists>r'. job_at d ?i = Some r' \<and> r_status r' = st \<and> r_lease_epoch r' = c_Epoch cl)
           \<and> length obs = 1 \<and> WriteFenced \<notin> set obs)"
  have expired: "hoare (services ?I) (do { _ \<leftarrow> db1 (\<lambda>ft. RecordAttempt ft att); pass [] }) ?Q"
    if "finish_outcome herr cause = OutcomeLeaseExpired" for att
    by (rule services_then [OF services_db1 [where J = "\<lambda>_ d s. job_at d ?i = Some r"] services_pass])
      (simp_all add: that job_at_def)
  have answer: "hoare (\<lambda>w. services (\<lambda>d s. case fst y of Inl _ \<Rightarrow> False | Inr b \<Rightarrow> ?G (finish_outcome herr cause) b d) w
        \<and> snd y \<noteq> WriteFenced)
      (case y of
         (Inl _, _) \<Rightarrow> pass []
       | (Inr applied, notify) \<Rightarrow> do {
           runner_ack R q x;
           pass ((if applied then [] else [WriteFenced]) @ [notify]) }) ?Q" for y :: "bool res \<times> observation"
  proof -
    obtain z m where y: "y = (z, m)" by (cases y)
    show ?thesis
    proof (cases z)
      case (Inl e)
      then show ?thesis by (simp add: y hoare_def services_def)
    next
      case (Inr b)
      have "hoare (services (\<lambda>d s. ?G (finish_outcome herr cause) b d))
          (do { runner_ack R q x; pass ((if b then [] else [WriteFenced]) @ [m]) }) ?Q" if "m \<noteq> WriteFenced"
        by (rule services_then [OF runner_ack_db services_pass]) (use that in auto)
      then show ?thesis by (auto simp: y Inr hoare_def)
    qed
  qed
  show ?thesis
    unfolding finish_def Let_def
    by (rule hoare_bind [OF services_time_Now], rule hoare_if, erule expired,
        rule hoare_bind [OF hoare_conj [OF recorded finish_record_notify [of "\<lambda>_. True"], simplified] answer])
qed

text \<open>
  C11. Every outcome is routed to its status. An owner that still holds its job and whose statement
  is executed leaves the row COMPLETED, FAILED or CANCELLED by the outcome of its handler; a
  retryable, interrupted or panicked attempt leaves it RETRYING, or DEAD\_LETTER exactly when the
  attempts are exhausted; a lost lease leaves the row alone and reports nothing. Whatever Redis
  does, exactly one outcome is reported and no fenced write.
\<close>

theorem finish_routes:
  assumes "f_write F = Good" and "jsonb (result_text result) \<noteq> None"
    and "db_wf (w_db w)" and "job_at (w_db w) (e_ID (dv_Env x)) = Some r" and "fenced (e_ID (dv_Env x)) (c_Epoch cl) r"
    and "run_state (finish R C q n (SyncRecorder jsonb F) x cl result herr cause) w = (obs, w')"
  shows "case routed_status (finish_outcome herr cause) (c_Attempt cl \<ge> c_MaxAttempts cl) of
      None \<Rightarrow> job_at (w_db w') (e_ID (dv_Env x)) = Some r \<and> obs = []
    | Some st \<Rightarrow> (\<exists>r'. job_at (w_db w') (e_ID (dv_Env x)) = Some r' \<and> r_status r' = st \<and> r_lease_epoch r' = c_Epoch cl)
        \<and> length obs = 1 \<and> WriteFenced \<notin> set obs"
  using hoareD [OF finish_routed [where jsonb = jsonb and result = result, OF assms(1,2)] _ assms(6)] assms(3-5)
  by (simp add: services_def)

theorem finish_routes_witness:
  "\<exists>obs w' r'. run_state (finish redis_mem frame_codec demo_queue demo_runner (SyncRecorder Some no_sync_faults)
       demo_delivery demo_claim [] (Some (Errorf ''boom'')) None) demo_running = (obs, w')
     \<and> job_at (w_db w') ''j1'' = Some r' \<and> r_status r' = StatusRetrying \<and> r_lease_epoch r' = 2"
proof -
  obtain obs w' where run: "run_state (finish redis_mem frame_codec demo_queue demo_runner
       (SyncRecorder Some no_sync_faults) demo_delivery demo_claim [] (Some (Errorf ''boom'')) None) demo_running = (obs, w')"
    by fastforce
  have "fenced ''j1'' (c_Epoch demo_claim) demo_row" by (simp add: demo_claim_def demo_row_def fenced_def)
  moreover have "finish_outcome (Some (Errorf ''boom'')) None = OutcomeRetryable"
    by (simp add: finish_outcome_def ClassifyError_def isPanic_def go_defs Let_def ErrCancelRequested_def)
  ultimately show ?thesis
    using finish_routes [OF _ _ _ _ _ run, of demo_row] run
    by (simp add: no_sync_faults_def demo_claim_def)
qed

section \<open>Classification\<close>

lemma chain_wrap_panic: "errors_As (Some (wrap_errors ps e)) is_PanicError = errors_As (Some e) is_PanicError"
  by (simp add: errors_As_def list_ex_chain_wrap)

text \<open>
  How a handler's error is classified. Adding context with layers of \<^verbatim>\<open>fmt.Errorf\<close> and
  \<^verbatim>\<open>%w\<close> never changes the outcome; a nil error always completes, even when the lease was lost or a
  cancellation was requested; a requested cancellation wins over every other error except a lost
  lease; an error marked non-retryable fails, unless the attempt was cancelled, interrupted or lost
  its lease; a recovered panic is an attempt of its own outcome.
\<close>

lemma outcome_classification:
  "finish_outcome (Some (wrap_errors ps e)) cause = finish_outcome (Some e) cause
   \<and> finish_outcome None cause = OutcomeCompleted
   \<and> finish_outcome (Some e) (Some (wrap_errors ps errLeaseLost)) = OutcomeLeaseExpired
   \<and> finish_outcome (Some e) (Some (wrap_errors ps ErrCancelRequested)) = OutcomeCancelled
   \<and> finish_outcome (NonRetryable (Some (Errorf msg))) None = OutcomeFailed
   \<and> finish_outcome (Interrupted (Some (Errorf msg))) None = OutcomeInterrupted
   \<and> finish_outcome ErrNoHandler None = OutcomeFailed
   \<and> finish_outcome (snd (safeHandle (Panicked v))) None = OutcomePanicked"
proof -
  have lost: "errors_Is (Some (wrap_errors ps errLeaseLost)) errLeaseLost"
    "errors_Is (Some (wrap_errors ps ErrCancelRequested)) ErrCancelRequested"
    "\<not> errors_Is (Some (wrap_errors ps ErrCancelRequested)) errLeaseLost"
    by (simp_all add: errors_Is_def errLeaseLost_def ErrCancelRequested_def sentinel_chain_wrap)
  have "finish_outcome (Some (wrap_errors ps e)) cause = finish_outcome (Some e) cause"
    by (simp add: finish_outcome_def ClassifyError_wrap isPanic_def chain_wrap_panic)
  moreover have "finish_outcome (Some e) (Some (wrap_errors ps errLeaseLost)) = OutcomeLeaseExpired"
    using lost by (simp add: finish_outcome_def Let_def)
  moreover have "finish_outcome (Some e) (Some (wrap_errors ps ErrCancelRequested)) = OutcomeCancelled"
    using lost by (simp add: finish_outcome_def ClassifyError_def Let_def)
  moreover have "finish_outcome None cause = OutcomeCompleted"
    by (simp add: finish_outcome_def ClassifyError_def Let_def)
  ultimately show ?thesis
    by (simp add: finish_outcome_def ClassifyError_def isPanic_def safeHandle_def ErrNoHandler_def go_defs Let_def
        ErrCancelRequested_def DeadlineExceeded_def)
qed

section \<open>The registry\<close>

definition registry_ok :: "registry \<Rightarrow> bool" where
  "registry_ok m = (distinct (map fst m) \<and> (\<forall>(t, reg) \<in> set m. ValidName t \<and> g_Type reg = t \<and> g_hasHandler reg))"

text \<open>
  The registry. It accepts exactly well-formed, non-nil, new registrations; an accepted type is
  found by \<^verbatim>\<open>Get\<close> and every other look-up is unchanged; the registered types stay distinct, valid
  names under their own registration. A refused registration changes nothing, being an error value.
\<close>

lemma registry_contract:
  assumes "registry_ok m"
  shows "case registry_Register m reg of
      Inl _ \<Rightarrow> \<not> ValidName (g_Type reg) \<or> \<not> g_hasHandler reg \<or> g_Type reg \<in> set (registry_Types m)
    | Inr m' \<Rightarrow> registry_ok m' \<and> registry_Get m' (g_Type reg) = Some reg
        \<and> (\<forall>t. t \<noteq> g_Type reg \<longrightarrow> registry_Get m' t = registry_Get m t)
        \<and> set (registry_Types m') = insert (g_Type reg) (set (registry_Types m)) \<and> g_Type reg \<notin> set (registry_Types m)"
proof -
  have none: "registry_Get m t = None \<longleftrightarrow> t \<notin> set (registry_Types m)" for t
    by (simp add: registry_Get_def registry_Types_def map_of_eq_None_iff)
  have "registry_Get (m @ [(t, reg)]) k = (if k = t then Some reg else registry_Get m k)"
    if "registry_Get m t = None" for t k
    using that by (auto simp: registry_Get_def map_add_def split: option.split)
  with assms none show ?thesis
    by (auto simp: registry_Register_def registry_ok_def registry_Types_def)
qed

end
