(* ===== verification/Calls.thy ===== *)
theory Calls
  imports Fleet Runner_Props
begin

text \<open>
  The running system at the granularity of single statements. A call of the store is authorised by the executions
  under way: only a finish with a claim behind it asks for a retry or a dead letter, and it does so by the
  numbers of its claim. \<open>calls_step\<close> interleaves authorised calls of any number of processes, with other calls
  between any two calls of a handler; every run of the system of \<open>Fleet\<close>, where a handler is one step, is such an
  interleaving. What is shown for all interleavings of calls therefore does not depend on handlers being
  atomic.
\<close>

section \<open>Authorised calls\<close>

text \<open>What the record of an outcome rests on: the claim it was decided by.\<close>

definition may_record :: "(string \<times> claim) set \<Rightarrow> op \<Rightarrow> bool" where
  "may_record T p =
    (b_kind p = opRetry \<or> b_kind p = opDead \<longrightarrow>
      (\<exists>cl. (b_id p, cl) \<in> T \<and> b_epoch p = c_Epoch cl \<and> (b_kind p = opDead \<longleftrightarrow> c_Attempt cl \<ge> c_MaxAttempts cl)))"

inductive store_call :: "(string \<times> claim) set \<Rightarrow> db \<Rightarrow> db \<Rightarrow> bool" for T where
  call_CreateJob: "j_Status j = StatusPending \<Longrightarrow> 1 \<le> j_MaxAttempts j \<Longrightarrow> j_ID j \<noteq> [] \<Longrightarrow> j_Type j \<noteq> [] \<Longrightarrow>
    store_call T d (snd (CreateJob jsonb ft ft2 j d))"
| call_SetEnqueued: "store_call T d (snd (SetEnqueued ft i sid d))"
| call_ClaimJob: "store_call T d (snd (ClaimJob ft i w ttl d))"
| call_ExtendLease: "store_call T d (snd (ExtendLease ft i e ttl d))"
| call_write: "may_record T p \<Longrightarrow> store_call T d (snd (sync_write jsonb F p d))"
| call_RecordAttempt: "store_call T d (snd (RecordAttempt ft a d))"
| call_CancelJob: "store_call T d (snd (CancelJob ft fe i d))"
| call_ReapJob: "store_call T d (snd (ReapJob ft fe i delay grace d))"
| call_MarkPromoted: "store_call T d (snd (MarkPromoted ft ids d))"
| call_RequeueDeadLetter: "store_call T d (snd (RequeueDeadLetter ft fe i d))"
| call_AddEvent: "store_call T d (addEvent ft i ev dt d)"
| call_UpsertWorker: "store_call T d (snd (UpsertWorker ft w d))"
| call_MarkDeadWorkers: "store_call T d (snd (MarkDeadWorkers ft cutoff d))"
| call_batch_complete: "store_call T d (snd (batch_complete jsonb err ops d))"
| call_batch_op: "may_record T p \<Longrightarrow> b_kind p \<noteq> opComplete \<Longrightarrow>
    store_call T d (snd (update_jobs (fenced (b_id p) (b_epoch p)) (op_set p (db_now d)) d))"
| call_batch_attempts: "store_call T d (snd (batch_attempts err ops d))"
| call_batch_events: "store_call T d (snd (batch_events err xs d))"
| call_clock: "store_call T d (d\<lparr>db_now := now\<rparr>)"

lemma store_call_step: "store_call T d d' \<Longrightarrow> store_step d d'"
  by (induction rule: store_call.induct) (auto simp: sync_write_owner_call intro: store_step.intros owner_call_step)

text \<open>The executions under way and the database: a claim joins them, and an execution ends or is forgotten.\<close>

inductive calls_step :: "(string \<times> claim) set \<times> db \<Rightarrow> (string \<times> claim) set \<times> db \<Rightarrow> bool" where
  calls_call: "store_call T d d' \<Longrightarrow> calls_step (T, d) (T, d')"
| calls_claim: "ClaimJob ft i w ttl d = (Inr (Some cl), d') \<Longrightarrow> calls_step (T, d) (insert (i, cl) T, d')"
| calls_forget: "T' \<subseteq> T \<Longrightarrow> calls_step (T, d) (T', d)"

abbreviation calls_run :: "(string \<times> claim) set \<times> db \<Rightarrow> (string \<times> claim) set \<times> db \<Rightarrow> bool" where
  "calls_run \<equiv> calls_step\<^sup>*\<^sup>*"

definition traced :: "(string \<times> claim) set \<times> db \<Rightarrow> (string \<times> claim) set \<Rightarrow> db \<Rightarrow> bool" where
  "traced s T d = calls_run s (T, d)"

lemma traced_call: "traced s T d \<Longrightarrow> store_call T d d' \<Longrightarrow> traced s T d'"
  unfolding traced_def by (rule rtranclp.rtrancl_into_rtrancl) (auto intro: calls_call)

lemma traced_calls: "(store_call T)\<^sup>*\<^sup>* d d' \<Longrightarrow> traced s T d \<Longrightarrow> traced s T d'"
  by (induction rule: rtranclp_induct) (auto intro: traced_call)

lemma traced_claim:
  "traced s T d \<Longrightarrow> ClaimJob ft i w ttl d = (Inr (Some cl), d') \<Longrightarrow> traced s (insert (i, cl) T) d'"
  unfolding traced_def by (erule rtranclp.rtrancl_into_rtrancl) (rule calls_claim)

lemma traced_forget: "traced s T d \<Longrightarrow> T' \<subseteq> T \<Longrightarrow> traced s T' d"
  unfolding traced_def by (erule rtranclp.rtrancl_into_rtrancl) (rule calls_forget)

section \<open>The recorders\<close>

text \<open>A recorder of an authorised operation makes authorised calls.\<close>

definition authorised :: "(string \<times> claim) set \<Rightarrow> (op \<Rightarrow> db \<Rightarrow> bool res \<times> db) \<Rightarrow> bool" where
  "authorised T rec = (\<forall>p d. may_record T p \<longrightarrow> (store_call T)\<^sup>*\<^sup>* d (snd (rec p d)))"

lemma sync_authorised: "authorised T (SyncRecorder jsonb F)"
  unfolding authorised_def
proof (intro allI impI)
  fix p d assume p: "may_record T p"
  let ?d = "snd (sync_write jsonb F p d)"
  have w: "(store_call T)\<^sup>*\<^sup>* d ?d" using call_write [OF p] by blast
  then have "(store_call T)\<^sup>*\<^sup>* d (snd (RecordAttempt (f_attempt F) (b_att p) ?d))"
    by (rule rtranclp.rtrancl_into_rtrancl) (rule call_RecordAttempt)
  with w show "(store_call T)\<^sup>*\<^sup>* d (snd (SyncRecorder jsonb F p d))"
    by (auto simp: SyncRecorder_def split: prod.split sum.split)
qed

text \<open>A batch, when every operation in it is authorised.\<close>

lemma batch_ops_calls:
  "list_all (may_record T) ops \<Longrightarrow> (store_call T)\<^sup>*\<^sup>* d (snd (batch_ops errs ok n ops d))"
proof (induction ops arbitrary: n d)
  case (Cons p ps)
  let ?d1 = "snd (update_jobs (fenced (b_id p) (b_epoch p)) (op_set p (db_now d)) d)"
  show ?case
  proof (cases "b_kind p = opComplete \<or> errs n \<noteq> None")
    case True
    with Cons.prems Cons.IH [of d "Suc n"] show ?thesis by (auto split: prod.split sum.split)
  next
    case False
    then have "store_call T d ?d1" using Cons.prems by (intro call_batch_op) simp_all
    moreover have "(store_call T)\<^sup>*\<^sup>* ?d1 (snd (batch_ops errs ok (Suc n) ps ?d1))" using Cons by simp
    ultimately have "(store_call T)\<^sup>*\<^sup>* d (snd (batch_ops errs ok (Suc n) ps ?d1))" by (rule converse_rtranclp_into_rtranclp)
    with False show ?thesis by (auto simp: update_jobs_def split: prod.split sum.split)
  qed
qed simp

lemma flushOnce_calls:
  assumes "list_all (may_record T) ops"
  shows "(store_call T)\<^sup>*\<^sup>* d (snd (flushOnce jsonb F ops d))"
proof (cases "snd (flushOnce jsonb F ops d) = d")
  case False
  then show ?thesis
  proof (rule flushOnce_changed [OF prod.collapse [symmetric]])
    fix ok d1 d2 d3 applied
    assume 1: "batch_complete jsonb (x_complete F) ops d = (Inr ok, d1)"
      and 2: "batch_ops (x_op F) ok 0 ops d1 = (Inr applied, d2)"
      and 3: "batch_attempts (x_attempts F) ops d2 = (Inr (), d3)"
      and 4: "batch_events (x_events F) (zip ops applied) d3 = (Inr (), snd (flushOnce jsonb F ops d))"
    have "store_call T d d1" using call_batch_complete 1 by (metis snd_conv)
    moreover have "(store_call T)\<^sup>*\<^sup>* d1 d2" using batch_ops_calls [OF assms] 2 by (metis snd_conv)
    moreover have "store_call T d2 d3" using call_batch_attempts 3 by (metis snd_conv)
    moreover have "store_call T d3 (snd (flushOnce jsonb F ops d))" using call_batch_events 4 by (metis snd_conv)
    ultimately show ?thesis
      by (meson converse_rtranclp_into_rtranclp rtranclp.rtrancl_into_rtrancl)
  qed
qed simp

lemma batch_authorised:
  assumes "list_all (may_record T) (pre @ post)" and "\<And>d. (store_call T)\<^sup>*\<^sup>* d (between d)"
  shows "authorised T (batch_record jsonb F F' between pre post)"
  unfolding authorised_def
proof (intro allI impI)
  fix p d assume "may_record T p"
  let ?ops = "pre @ p # post"
  have ops: "list_all (may_record T) ?ops" using assms(1) \<open>may_record T p\<close> by simp
  obtain x d1 where 1: "flushOnce jsonb F ?ops d = (x, d1)" by fastforce
  obtain y d2 where 2: "flushOnce jsonb F' ?ops (between d1) = (y, d2)" by fastforce
  have b1: "(store_call T)\<^sup>*\<^sup>* d d1" using flushOnce_calls [OF ops, of d jsonb F] 1 by simp
  have "(store_call T)\<^sup>*\<^sup>* (between d1) d2" using flushOnce_calls [OF ops, of "between d1" jsonb F'] 2 by simp
  then have "(store_call T)\<^sup>*\<^sup>* d d2" using b1 assms(2) rtranclp_trans by metis
  with b1 show "(store_call T)\<^sup>*\<^sup>* d (snd (batch_record jsonb F F' between pre post p d))"
    by (cases x; cases y) (simp_all add: batch_record_def flush_def 1 2)
qed

section \<open>Programs and the database\<close>

text \<open>
  A program keeps a property of the database when every statement it sends does: the Redis commands, the
  clock and the generator do not count. The rules follow the constructs a program is built with.
\<close>

definition keeps_db :: "(db \<Rightarrow> bool) \<Rightarrow> ('r, 'a) prog \<Rightarrow> bool" where
  "keeps_db G m = hoare (services (\<lambda>d s. G d)) m (\<lambda>_. services (\<lambda>d s. G d))"

named_theorems keeping \<open>rules for keeps_db\<close>

lemma kd_basic [keeping]:
  "keeps_db G (pass x)" "keeps_db G time_Now" "keeps_db G rand" "keeps_db G (rcmd f)" "keeps_db G (db_read h)"
  unfolding keeps_db_def by (rule services_pass services_time_Now services_rand rcmd_db services_db_read, assumption?)+

lemma kd_bind [keeping]: "keeps_db G m \<Longrightarrow> (\<And>a. keeps_db G (f a)) \<Longrightarrow> keeps_db G (m \<bind> f)"
  unfolding keeps_db_def by (rule hoare_bind)

lemma kd_if [keeping]: "(b \<Longrightarrow> keeps_db G m) \<Longrightarrow> (\<not> b \<Longrightarrow> keeps_db G n) \<Longrightarrow> keeps_db G (if b then m else n)"
  by simp

lemma kd_sum [keeping]: "(\<And>e. x = Inl e \<Longrightarrow> keeps_db G (f e)) \<Longrightarrow> (\<And>a. x = Inr a \<Longrightarrow> keeps_db G (g a)) \<Longrightarrow>
    keeps_db G (case x of Inl e \<Rightarrow> f e | Inr a \<Rightarrow> g a)"
  by (cases x) simp_all

lemma kd_option [keeping]: "keeps_db G m \<Longrightarrow> (\<And>a. keeps_db G (g a)) \<Longrightarrow> keeps_db G (case x of None \<Rightarrow> m | Some a \<Rightarrow> g a)"
  by (cases x) simp_all

lemma kd_prod [keeping]: "(\<And>a b. keeps_db G (f a b)) \<Longrightarrow> keeps_db G (case x of (a, b) \<Rightarrow> f a b)"
  by (cases x) simp

lemma kd_bool [keeping]: "keeps_db G m \<Longrightarrow> keeps_db G n \<Longrightarrow> keeps_db G (case b of True \<Rightarrow> m | False \<Rightarrow> n)"
  by (cases b) simp_all

lemma kd_for_each [keeping]: "(\<And>x. keeps_db G (f x)) \<Longrightarrow> keeps_db G (for_each xs f)"
  unfolding keeps_db_def by (rule services_for_each)

lemma kd_db1: "(\<And>ft d. G d \<Longrightarrow> G (snd (f ft d))) \<Longrightarrow> keeps_db G (db1 f)"
  unfolding keeps_db_def by (rule services_db1)

lemma kd_db2: "(\<And>ft fe d. G d \<Longrightarrow> G (snd (f ft fe d))) \<Longrightarrow> keeps_db G (db2 f)"
  unfolding keeps_db_def by (rule services_db2)

lemma kd_write [keeping]: "keeps_db G (writeJSON st b)" "keeps_db G (writeErr st c m)"
  unfolding keeps_db_def by (rule write_keeps)+

lemma kd_backoff [keeping]: "keeps_db G (backoff_delay b c n)"
  unfolding keeps_db_def by (rule services_backoff)

lemma kd_loadJob [keeping]: "(\<And>j. keeps_db G (k j)) \<Longrightarrow> keeps_db G (loadJob i k)"
  unfolding keeps_db_def by (rule loadJob_keeps)

text \<open>The queue sends no statement at all.\<close>

lemma kd_queue [keeping]:
  "keeps_db G (Enqueue R C q env t)" "keeps_db G (Ack R q p i)" "keeps_db G (queue_ScheduleRetry R C q env t)"
  "keeps_db G (DeadLetter R C q env msg)" "keeps_db G (Heartbeat R q c p i)" "keeps_db G (RequestCancel R q i ttl)"
  "keeps_db G (IsCancelRequested R q i)" "keeps_db G (AcquireLeader R q role l ttl)" "keeps_db G (RenewLeader R q role l ttl)"
  "keeps_db G (ReleaseLeader R q role l)" "keeps_db G (decodeMessage R C q m p)"
  unfolding Enqueue_def Ack_def queue_ScheduleRetry_def DeadLetter_def Heartbeat_def RequestCancel_def IsCancelRequested_def
    AcquireLeader_def RenewLeader_def ReleaseLeader_def decodeMessage_def
  by (intro keeping)+

lemma kd_append_messages [keeping]: "keeps_db G (append_messages R C q ms p out)"
  by (induction ms arbitrary: out) (auto intro!: keeping)

lemma kd_appendDeliveries [keeping]: "keeps_db G (appendDeliveries R C q out ss p)"
  unfolding appendDeliveries_def by (intro keeping)

lemma kd_append_streams [keeping]: "keeps_db G (append_streams R C q ss out)"
  by (induction ss arbitrary: out) (auto intro!: keeping)

lemma kd_fetch_ready [keeping]: "keeps_db G (fetch_ready R C q consumer mx ps out)"
  by (induction ps arbitrary: out) (auto intro!: keeping)

lemma kd_promote_all [keeping]: "keeps_db G (promote_all R C q now batch ps promoted)"
  by (induction ps arbitrary: promoted) (auto intro!: keeping)

lemma kd_reap_streams [keeping]: "keeps_db G (reap_streams R C q idle batch ps out)"
  by (induction ps arbitrary: out) (auto intro!: keeping)

lemma kd_reads [keeping]:
  "keeps_db G (Fetch R C q consumer mx block)" "keeps_db G (PromoteDue R C q batch)" "keeps_db G (ReapAbandoned R C q idle batch)"
  "keeps_db G (runner_ack R q d)" "keeps_db G (recovery_ack R q d)" "keeps_db G (requeueEnvelope rq n)"
  unfolding Fetch_def PromoteDue_def ReapAbandoned_def runner_ack_def recovery_ack_def requeueEnvelope_def by (intro keeping)+

section \<open>The handlers\<close>

lemma kd_traced1: "(\<And>ft d. store_call T d (snd (f ft d))) \<Longrightarrow> keeps_db (traced s T) (db1 f)"
  by (rule kd_db1) (rule traced_call)

lemma kd_traced2: "(\<And>ft fe d. store_call T d (snd (f ft fe d))) \<Longrightarrow> keeps_db (traced s T) (db2 f)"
  by (rule kd_db2) (rule traced_call)

lemma kd_calls [keeping]:
  "keeps_db (traced s T) (db1 (\<lambda>ft. SetEnqueued ft i sid))" "keeps_db (traced s T) (db1 (\<lambda>ft. ExtendLease ft i e ttl))"
  "keeps_db (traced s T) (db1 (\<lambda>ft. MarkPromoted ft ids))" "keeps_db (traced s T) (db1 (\<lambda>ft. RecordAttempt ft a))"
  "keeps_db (traced s T) (db1 (\<lambda>ft. MarkDeadWorkers ft cutoff))" "keeps_db (traced s T) (db2 (\<lambda>ft fe. CancelJob ft fe i))"
  "keeps_db (traced s T) (db2 (\<lambda>ft fe. ReapJob ft fe i delay grace))" "keeps_db (traced s T) (db2 (\<lambda>ft fe. RequeueDeadLetter ft fe i))"
  by (rule kd_traced1 kd_traced2, rule store_call.intros)+

lemma kd_AddEvent [keeping]: "keeps_db (traced s T) (AddEvent i ev dt)"
  unfolding AddEvent_def by (rule kd_traced1) (simp add: call_AddEvent)

lemma kd_recordAttempt [keeping]: "keeps_db (traced s T) (recordAttempt a)"
  unfolding recordAttempt_def by (intro keeping)

lemma kd_handleCancel: "keeps_db (traced s T) (handleCancel R q i)"
  unfolding handleCancel_def by (intro keeping)

lemma kd_handleRequeueDLQ: "keeps_db (traced s T) (handleRequeueDLQ R C q i)"
  unfolding handleRequeueDLQ_def by (intro keeping)

lemma kd_handleSubmit:
  assumes "uuid \<noteq> []"
  shows "keeps_db (traced s T) (handleSubmit R C q sv json_valid jsonb uuid body)"
proof -
  have create: "keeps_db (traced s T) (db2 (\<lambda>ft fe. CreateJob jsonb ft fe j))"
    if j: "New json_valid uuid ty pl opts t = Inr j" for j ty pl opts t
    by (rule kd_traced2, rule call_CreateJob) (use New_Inr [OF j] assms ValidName_nonempty in auto)
  show ?thesis
    unfolding handleSubmit_def submit_handoff_def
    by (cases body) (auto intro!: keeping create split: option.split)
qed

lemma kd_heartbeat_tick: "keeps_db (traced s T) (heartbeat_tick R q n d cl ttl)"
  unfolding heartbeat_tick_def by (intro keeping)

lemma kd_recovery [keeping]:
  "keeps_db (traced s T) (promote R C q)" "keeps_db (traced s T) (ackUnreaped R C q d)"
  "keeps_db (traced s T) (sweepOne R C q l r)" "keeps_db (traced s T) (repairOrphan R C q r)" "keeps_db (traced s T) (repairStuck R C q r)"
  "keeps_db (traced s T) sweepWorkers"
  unfolding promote_def ackUnreaped_def sweepOne_def repairOrphan_def repairStuck_def sweepWorkers_def
  by (intro keeping)+

lemma kd_reapOne [keeping]: "keeps_db (traced s T) (reapOne R C q l d)"
  unfolding reapOne_def by (intro keeping)

lemma kd_sweeps [keeping]:
  "keeps_db (traced s T) (reapAbandoned R C q l)" "keeps_db (traced s T) (sweepStaleRunning R C q l)"
  "keeps_db (traced s T) (repairUnenqueued R C q l)" "keeps_db (traced s T) (repairStuckRetrying R C q l)"
  unfolding reapAbandoned_def sweepStaleRunning_def repairUnenqueued_def repairStuckRetrying_def
  by (intro keeping)+

lemma kd_leader:
  "keeps_db (traced s T) (leader_tick R C q l st)" "keeps_db (traced s T) (leader_renew R q l st)" "keeps_db (traced s T) (leader_stop R q l st)"
  unfolding leader_tick_def leader_duties_def leader_renew_def leader_stop_def by (intro keeping)+

text \<open>A claim joins the executions under way.\<close>

definition with_claim :: "delivery \<Rightarrow> claim option \<Rightarrow> (string \<times> claim) set \<Rightarrow> (string \<times> claim) set" where
  "with_claim x c T = (case c of None \<Rightarrow> T | Some cl \<Rightarrow> insert (e_ID (dv_Env x), cl) T)"

lemma Run_claim_traced:
  "hoare (services (\<lambda>d _. traced s T d)) (Run_claim R q n x) (\<lambda>a. services (\<lambda>d _. traced s (with_claim x (fst a) T) d))"
proof -
  let ?J = "\<lambda>r d. case r of Inr (Some cl) \<Rightarrow> traced s (with_claim x (Some cl) T) d | _ \<Rightarrow> traced s T d"
  let ?claim = "\<lambda>ft. ClaimJob ft (e_ID (dv_Env x)) (n_WorkerID n) (lease_ttl n (e_Type (dv_Env x)))"
  have claim: "hoare (services (\<lambda>d _. traced s T d)) (db1 ?claim) (\<lambda>r. services (\<lambda>d _. ?J r d))"
  proof (rule services_db1)
    fix ft d and u :: 'a assume b: "traced s T d"
    then show "?J (fst (?claim ft d)) (snd (?claim ft d))"
      using traced_call [OF b call_ClaimJob] traced_claim [OF b, of ft _ _ _ _ "snd (?claim ft d)"]
      by (auto simp: with_claim_def prod_eq_iff split: sum.split option.split)
  qed
  show ?thesis
    unfolding Run_claim_def
  proof (rule hoare_bind [OF claim], intro hoare_res hoare_option)
    fix r :: "claim option res" and y assume "r = Inr y" "y = None"
    then show "hoare (services (\<lambda>d _. ?J r d)) (do { runner_ack R q x; pass (None, [ClaimSkipped]) })
        (\<lambda>a. services (\<lambda>d _. traced s (with_claim x (fst a) T) d))"
      by (simp, intro services_then [OF runner_ack_db] services_pass) (simp add: with_claim_def)
  qed (simp_all add: services_pass with_claim_def)
qed

text \<open>A finish records only what its claim authorises.\<close>

lemma finish_traced:
  assumes "authorised T rec" and "(e_ID (dv_Env x), cl) \<in> T"
  shows "keeps_db (traced s T) (finish R C q n rec x cl result herr cause)"
proof -
  have "hoare (services (\<lambda>d _. traced s T d)) (on_db (rec p))
      (\<lambda>y. services (\<lambda>d _. case y of Inl _ \<Rightarrow> traced s T d | Inr b \<Rightarrow> traced s T d))"
    if "b_id p = e_ID (dv_Env x)" "b_epoch p = c_Epoch cl" "b_kind p = finish_kind oc (c_Attempt cl \<ge> c_MaxAttempts cl)" for p oc
  proof (rule services_on_db)
    fix d assume "traced s T d"
    moreover have "may_record T p" using that assms(2) by (auto simp: may_record_def finish_kind_def split: if_splits)
    ultimately show "case fst (rec p d) of Inl _ \<Rightarrow> traced s T (snd (rec p d)) | Inr b \<Rightarrow> traced s T (snd (rec p d))"
      using assms(1) traced_calls [of T d "snd (rec p d)" s] by (auto simp: authorised_def split: sum.split)
  qed
  then have "hoare (services (\<lambda>d _. traced s T d)) (finish_record R C q n rec x cl result herr oc att now)
      (\<lambda>y. services (\<lambda>d _. case fst y of Inl _ \<Rightarrow> traced s T d | Inr b \<Rightarrow> traced s T d))" for oc att now
    by (rule finish_record_db)
  then have [keeping]: "keeps_db (traced s T) (finish_record R C q n rec x cl result herr oc att now)" for oc att now
    unfolding keeps_db_def by (rule hoare_post) (auto simp: services_def split: sum.splits)
  show ?thesis unfolding finish_def Let_def by (intro keeping)
qed

section \<open>The running system is an interleaving of calls\<close>

definition claims :: "(delivery \<times> claim) list \<Rightarrow> (string \<times> claim) set" where
  "claims ts = (\<lambda>(x, cl). (e_ID (dv_Env x), cl)) ` set ts"

lemma claims_remove1: "claims (remove1 t ts) \<subseteq> claims ts"
  using set_remove1_subset [of t ts] by (auto simp: claims_def)

definition authorised_workers :: "workers \<Rightarrow> bool" where
  "authorised_workers W = (\<forall>ts rec. W ts rec \<longrightarrow> authorised (claims ts) rec)"

text \<open>
  The workers of the program: each writes at once, or through a batch of operations that the executions under
  way authorise; while a batch pauses between its two tries, other processes make calls of their own.
\<close>

definition program_workers :: workers where
  "program_workers ts rec =
    ((\<exists>jsonb F. rec = SyncRecorder jsonb F)
     \<or> (\<exists>jsonb F F' between pre post. rec = batch_record jsonb F F' between pre post
          \<and> list_all (may_record (claims ts)) (pre @ post) \<and> (\<forall>d. (store_call (claims ts))\<^sup>*\<^sup>* d (between d))))"

lemma program_workers_authorised: "authorised_workers program_workers"
  unfolding authorised_workers_def program_workers_def using sync_authorised batch_authorised by blast

definition fleet_calls :: "'r fleet \<Rightarrow> (string \<times> claim) set \<times> db" where
  "fleet_calls f = (claims (f_tasks f), w_db (f_world f))"

definition fleet_traced :: "(string \<times> claim) set \<times> db \<Rightarrow> 'r fleet \<Rightarrow> bool" where
  "fleet_traced s f = traced s (claims (f_tasks f)) (w_db (f_world f))"

lemma traced_run:
  assumes "hoare (services (\<lambda>d _. traced s T d)) m (\<lambda>a. services (\<lambda>d _. traced s (T' a) d))"
    and "traced s T (w_db w)" and "run_state m w = (a, w')"
  shows "traced s (T' a) (w_db w')"
  using hoareD [OF assms(1) _ assms(3)] assms(2) by (simp add: services_def)

lemma traced_keeps:
  assumes "fleet_traced s f" and "run_state m (f_world f) = (a, w)" and "\<And>T. keeps_db (traced s T) m"
  shows "fleet_traced s (f\<lparr>f_world := w, f_inbox := inbox\<rparr>)"
  using traced_run [OF assms(3) [unfolded keeps_db_def] assms(1) [unfolded fleet_traced_def] assms(2)]
  by (simp add: fleet_traced_def)

lemma fleet_step_traced:
  assumes "fleet_step R issued C q W f f'" and b: "fleet_traced s f" and W: "authorised_workers W"
  shows "fleet_traced s f'"
  using assms(1)
proof (cases rule: fleet_step.cases)
  case (submit uuid sv json_valid jsonb body resp w)
  then show ?thesis using traced_keeps [OF b submit(3) kd_handleSubmit, of "f_inbox f"] by simp
next
  case (cancel i resp w)
  then show ?thesis using traced_keeps [OF b cancel(2) kd_handleCancel, of "f_inbox f"] by simp
next
  case (requeue i resp w)
  then show ?thesis using traced_keeps [OF b requeue(2) kd_handleRequeueDLQ, of "f_inbox f"] by simp
next
  case (fetch consumer mx block out err w)
  then show ?thesis using traced_keeps [OF b fetch(2) kd_reads(1)] by simp
next
  case (claim x n cl obs w)
  from traced_run [OF Run_claim_traced b [unfolded fleet_traced_def] claim(3)] show ?thesis
    unfolding claim(1) by (simp add: fleet_traced_def claims_def with_claim_def)
next
  case (skip x n obs w)
  from traced_run [OF Run_claim_traced b [unfolded fleet_traced_def] skip(3)] show ?thesis
    unfolding skip(1) by (simp add: fleet_traced_def with_claim_def)
next
  case (beat x cl n ttl cause w)
  then show ?thesis using traced_keeps [OF b beat(3) kd_heartbeat_tick, of "f_inbox f"] by simp
next
  case (finish x cl rec n result herr cause obs w)
  have "authorised (claims (f_tasks f)) rec" using W finish(3) by (simp add: authorised_workers_def)
  moreover have "(e_ID (dv_Env x), cl) \<in> claims (f_tasks f)" using finish(2) by (force simp: claims_def)
  ultimately have "traced s (claims (f_tasks f)) (w_db w)"
    using traced_run [OF finish_traced [unfolded keeps_db_def] b [unfolded fleet_traced_def] finish(4)] by blast
  then show ?thesis unfolding finish(1) using traced_forget [OF _ claims_remove1] by (simp add: fleet_traced_def)
next
  case (lead l st st' w)
  then show ?thesis using traced_keeps [OF b lead(2) kd_leader(1), of "f_inbox f"] by simp
next
  case (renew l st st' w)
  then show ?thesis using traced_keeps [OF b renew(2) kd_leader(2), of "f_inbox f"] by simp
next
  case (stop l st u w)
  then show ?thesis using traced_keeps [OF b stop(2) kd_leader(3), of "f_inbox f"] by simp
next
  case (lose_delivery x)
  then show ?thesis using b by (simp add: fleet_traced_def)
next
  case (lose_task t)
  then show ?thesis using traced_forget [OF _ claims_remove1] b by (simp add: fleet_traced_def)
next
  case (time_passes w now)
  then show ?thesis using traced_call [OF _ call_clock] b by (simp add: fleet_traced_def)
qed

lemma fleet_run_traced:
  "fleet_run R issued C q W f f' \<Longrightarrow> authorised_workers W \<Longrightarrow> fleet_traced s f \<Longrightarrow> fleet_traced s f'"
  by (induction rule: fleet_run.induct) (blast intro: fleet_step_traced)+

lemma fleet_run_calls:
  assumes "fleet_run R issued C q W f f'" and "authorised_workers W"
  shows "calls_run (fleet_calls f) (fleet_calls f')"
  using fleet_run_traced [OF assms, of "fleet_calls f"] by (simp add: fleet_traced_def traced_def fleet_calls_def)

end
