(* ===== verification/Budget.thy ===== *)
theory Budget
  imports Calls
begin

text \<open>
  The attempts of a job. No statement of the store compares \<^verbatim>\<open>attempt_count\<close> with \<^verbatim>\<open>max_attempts\<close> when a job is
  claimed, and a retry is decided by the worker, from the numbers it was given with its claim. That the
  two agree, so that no job is executed more often than it may, is a property of the whole system.
\<close>

section \<open>Rows and claims\<close>

definition in_budget :: "job_row \<Rightarrow> bool" where
  "in_budget r =
    (0 \<le> r_attempt_count r \<and> r_attempt_count r \<le> r_max_attempts r \<and> 1 \<le> r_max_attempts r
     \<and> (r_status r = StatusPending \<or> r_status r = StatusRetrying \<longrightarrow> r_attempt_count r < r_max_attempts r)
     \<and> (r_status r = StatusDeadLetter \<longrightarrow> r_attempt_count r = r_max_attempts r))"

text \<open>What a claim knows about its row: while its epoch is the row's, the numbers are too.\<close>

definition owned :: "claim \<Rightarrow> job_row \<Rightarrow> bool" where
  "owned cl r =
    (c_Epoch cl \<le> r_lease_epoch r
     \<and> (c_Epoch cl = r_lease_epoch r \<and> r_status r = StatusRunning \<longrightarrow>
          r_attempt_count r = c_Attempt cl \<and> r_max_attempts r = c_MaxAttempts cl))"

definition budget :: "(string \<times> claim) set \<Rightarrow> db \<Rightarrow> bool" where
  "budget T d =
    (distinct (map r_id (jobs d)) \<and> (\<forall>r \<in> set (jobs d). in_budget r)
     \<and> (\<forall>(i, cl) \<in> T. \<exists>r \<in> set (jobs d). r_id r = i \<and> owned cl r))"

lemma budget_cong: "jobs d' = jobs d \<Longrightarrow> budget T d' = budget T d"
  by (simp add: budget_def)

lemma budget_mono: "budget T d \<Longrightarrow> T' \<subseteq> T \<Longrightarrow> budget T' d"
  by (auto simp: budget_def)

lemma owned_step: "row_step r r' \<Longrightarrow> owned cl r \<Longrightarrow> owned cl r'"
  using row_step_epoch [of r r'] row_step_enter_running [of r r'] row_step_same_owner [of r r'] row_step_frame [of r r']
  by (cases "r_status r = StatusRunning") (auto simp: owned_def)

text \<open>An update that is a row step and keeps the rows it touches within their budget.\<close>

lemma budget_map:
  assumes "budget T d" and "jobs d' = map g (jobs d)"
    and "\<And>r. r \<in> set (jobs d) \<Longrightarrow> in_budget r \<Longrightarrow> g r = r \<or> row_step r (g r) \<and> in_budget (g r)"
  shows "budget T d'"
proof -
  have step: "g r = r \<or> row_step r (g r) \<and> in_budget (g r)" if "r \<in> set (jobs d)" for r
    using assms(1,3) that by (simp add: budget_def)
  then have ids: "r_id (g r) = r_id r" if "r \<in> set (jobs d)" for r using that row_step_frame by fastforce
  then have "map (\<lambda>r. r_id (g r)) (jobs d) = map r_id (jobs d)" by simp
  then have "distinct (map r_id (jobs d'))" using assms(1,2) by (simp add: budget_def comp_def del: map_eq_conv)
  moreover have "in_budget (g r)" if "r \<in> set (jobs d)" for r using step [OF that] that assms(1) by (auto simp: budget_def)
  moreover have "owned cl (g r)" if "r \<in> set (jobs d)" "owned cl r" for r cl using step [OF that(1)] that(2) owned_step by metis
  ultimately show ?thesis using assms(1,2) ids by (fastforce simp: budget_def)
qed

lemma budget_update:
  assumes "budget T d" and "jobs d' = update_where p f (jobs d)"
    and "\<And>r. r \<in> set (jobs d) \<Longrightarrow> p r \<Longrightarrow> in_budget r \<Longrightarrow> row_step r (f r) \<and> in_budget (f r)"
  shows "budget T d'"
  by (rule budget_map [OF assms(1), where g = "\<lambda>r. if p r then f r else r"])
    (use assms(2,3) in \<open>auto simp: update_where_def\<close>)

lemma budget_append:
  assumes "budget T d" and "jobs d' = jobs d @ [r]" and "job_at d (r_id r) = None" and "fresh_row r"
  shows "budget T d'"
proof -
  have "r_id r \<notin> r_id ` set (jobs d)" using assms(3) by (auto simp: job_at_def find_row_def find_None_iff)
  with assms show ?thesis by (fastforce simp: budget_def in_budget_def fresh_row_def)
qed

lemma budget_stmt:
  "budget T d \<Longrightarrow> (budget T d \<Longrightarrow> budget T (snd (f d))) \<Longrightarrow> budget T (snd (exec_stmt ft m f d))"
  by (cases ft) (simp_all add: exec_stmt_def)

lemma budget_fenced:
  assumes "budget T d"
    and "\<And>r. r \<in> set (jobs d) \<Longrightarrow> fenced i e r \<Longrightarrow> in_budget r \<Longrightarrow> row_step r (f (db_now d) r) \<and> in_budget (f (db_now d) r)"
  shows "budget T (snd (exec_fenced ft m i e f d))"
  unfolding exec_fenced_def
  by (rule budget_stmt [OF assms(1)], rule budget_update [OF assms(1), of _ "fenced i e" "f (db_now d)"])
    (use assms(2) in \<open>simp_all add: update_jobs_def\<close>)

lemma budget_event: "budget T (snd rd) \<Longrightarrow> budget T (snd (event_if_applied fe i ev dt rd))"
  by (subst budget_cong) simp_all

section \<open>The store\<close>

lemmas budget_rows = row_sets in_budget_def Let_def

lemma budget_CreateJob:
  assumes "budget T d" and "j_Status j = StatusPending" and "1 \<le> j_MaxAttempts j" and "j_ID j \<noteq> []" and "j_Type j \<noteq> []"
  shows "budget T (snd (CreateJob jsonb ft ft2 j d))"
  using CreateJob_jobs [of jsonb ft ft2 j d]
proof (elim disjE exE conjE)
  fix stored
  assume "jobs (snd (CreateJob jsonb ft ft2 j d)) = jobs d @ [new_row j stored (db_now d)]" and "job_at d (j_ID j) = None"
    and "Priority_Valid (j_Priority j)"
  then show ?thesis using new_row_fresh [OF assms(2-5)] by (intro budget_append [OF assms(1), of _ "new_row j stored (db_now d)"]) simp_all
qed (simp add: budget_cong assms(1))

lemma budget_SetEnqueued: "budget T d \<Longrightarrow> budget T (snd (SetEnqueued ft i sid d))"
  unfolding SetEnqueued_def
  by (erule budget_stmt, erule budget_update [where p = "\<lambda>r. r_id r = i \<and> r_enqueued_stream_id r = None"])
    (auto simp: update_jobs_def in_budget_def intro: row_step.intros)

lemma budget_ClaimJob: "budget T d \<Longrightarrow> budget T (snd (ClaimJob ft i w ttl d))"
  unfolding ClaimJob_def
  by (erule budget_stmt, erule budget_update [where p = "claim_where i"])
    (auto simp: update_jobs_returning_def claim_where_def budget_rows intro: row_claim [unfolded claim_set_def])

lemma budget_ExtendLease: "budget T d \<Longrightarrow> budget T (snd (ExtendLease ft i e ttl d))"
  unfolding ExtendLease_def by (erule budget_fenced) (auto simp: fenced_def in_budget_def extend_set_def intro: row_extend [unfolded extend_set_def])

lemma budget_CancelJob: "budget T d \<Longrightarrow> budget T (snd (CancelJob ft fe i d))"
  unfolding CancelJob_def
  by (rule budget_event, erule budget_stmt, erule budget_update [where p = "claim_where i"])
    (auto simp: update_jobs_def claim_where_def budget_rows intro: row_cancel [unfolded cancel_set_def])

lemma budget_ReapJob: "budget T d \<Longrightarrow> budget T (snd (ReapJob ft fe i delay grace d))"
  using ReapJob_jobs [of ft fe i delay grace d]
proof
  assume b: "budget T d" and "jobs (snd (ReapJob ft fe i delay grace d)) =
     update_where (\<lambda>r. r_id r = i \<and> expired_running (db_now d) grace r) (reap_set delay (db_now d)) (jobs d)"
  then show ?thesis
    by (rule budget_update) (auto dest!: expired_running_status intro: row_reap, auto simp: budget_rows)
qed simp

lemma budget_MarkPromoted: "budget T d \<Longrightarrow> budget T (snd (MarkPromoted ft ids d))"
proof -
  assume b: "budget T d"
  have "budget T (snd (exec_stmt ft ''store: marking promoted: ''
       (\<lambda>d. update_jobs (\<lambda>r. r_id r \<in> set ids \<and> r_status r = StatusRetrying) (promoted_set (db_now d)) d) d))"
    by (rule budget_stmt [OF b], rule budget_update [OF b, where p = "\<lambda>r. r_id r \<in> set ids \<and> r_status r = StatusRetrying"])
      (auto simp: update_jobs_def budget_rows intro: row_promote [unfolded promoted_set_def])
  with b show ?thesis by (simp add: MarkPromoted_def)
qed

lemma budget_RequeueDeadLetter: "budget T d \<Longrightarrow> budget T (snd (RequeueDeadLetter ft fe i d))"
  using RequeueDeadLetter_jobs [of ft fe i d]
proof
  assume "budget T d" and "jobs (snd (RequeueDeadLetter ft fe i d)) =
     update_where (\<lambda>r. r_id r = i \<and> r_status r = StatusDeadLetter) (requeue_set (db_now d)) (jobs d)"
  then show ?thesis
    by (rule budget_update) (auto intro: row_requeue, auto simp: budget_rows)
qed simp

lemma budget_same:
  "budget T d \<Longrightarrow> budget T (snd (RecordAttempt ft a d))" "budget T d \<Longrightarrow> budget T (addEvent ft i ev dt d)"
  "budget T d \<Longrightarrow> budget T (d\<lparr>db_now := now\<rparr>)"
  by (simp_all add: budget_def)

lemma budget_MarkDeadWorkers: "budget T d \<Longrightarrow> budget T (snd (MarkDeadWorkers ft cutoff d))"
  unfolding MarkDeadWorkers_def by (erule budget_stmt) (simp add: Let_def budget_def)

section \<open>Authorised calls\<close>

text \<open>A row that an authorised operation may be asked for with has the numbers of the claim behind it.\<close>

lemma claimed_row:
  assumes "budget T d" and "may_record T p" and "b_kind p = opRetry \<or> b_kind p = opDead" and "r \<in> set (jobs d)"
    and "fenced (b_id p) (b_epoch p) r"
  shows "b_kind p = opDead \<longleftrightarrow> r_attempt_count r \<ge> r_max_attempts r"
proof -
  from assms(2,3) obtain cl where cl: "(b_id p, cl) \<in> T" "b_epoch p = c_Epoch cl"
    "b_kind p = opDead \<longleftrightarrow> c_Attempt cl \<ge> c_MaxAttempts cl" by (auto simp: may_record_def)
  with assms(1) obtain r' where r': "r' \<in> set (jobs d)" "r_id r' = b_id p" "owned cl r'" by (auto simp: budget_def)
  have "r_id r = b_id p" using assms(5) by (simp add: fenced_def)
  then have "r' = r" using assms(1,4) r'(1,2) by (auto simp: budget_def distinct_map inj_on_def)
  with r'(3) assms(5) cl show ?thesis by (auto simp: owned_def fenced_def)
qed

lemma op_set_in_budget:
  assumes "budget T d" and "may_record T p" and "b_kind p \<noteq> opComplete" and "r \<in> set (jobs d)" and "fenced (b_id p) (b_epoch p) r"
    and "in_budget r"
  shows "row_step r (op_set p now r) \<and> in_budget (op_set p now r)"
proof -
  have run: "r_status r = StatusRunning" using assms(5) by (simp add: fenced_def)
  note row = claimed_row [OF assms(1,2) _ assms(4,5)]
  show ?thesis
    using run assms(3,6) row
    by (cases "b_kind p") (auto simp: op_set_def intro: row_step.intros, auto simp: budget_rows)
qed

lemma budget_complete:
  "budget T d \<Longrightarrow> budget T (snd (exec_fenced ft m i e (complete_set stored) d))"
  by (erule budget_fenced) (auto simp: fenced_def budget_rows intro: row_complete [unfolded complete_set_def])

lemma budget_sync_write:
  assumes "budget T d" and "may_record T p"
  shows "budget T (snd (sync_write jsonb F p d))"
proof -
  have w: "budget T (snd (exec_fenced ft m (b_id p) (b_epoch p) (op_set p) d))" if "b_kind p \<noteq> opComplete" for ft m
    by (rule budget_fenced [OF assms(1)], rule op_set_in_budget [OF assms that])
  show ?thesis
    using w assms(1)
    by (cases "b_kind p")
      (auto simp: sync_write_def CompleteJob_def FailJob_def store_ScheduleRetry_def DeadLetterJob_def CancelRunning_def op_set_def
        budget_complete intro!: budget_event split: option.split)
qed

lemma budget_batch_complete: "budget T d \<Longrightarrow> budget T (snd (batch_complete jsonb err ops d))"
proof -
  assume b: "budget T d"
  let ?d = "d\<lparr>jobs := update_where (\<lambda>r. complete_of ops r \<noteq> None) (batch_complete_set jsonb ops (db_now d)) (jobs d)\<rparr>"
  have "budget T ?d"
  proof (rule budget_map [OF b, where g = "\<lambda>r. if complete_of ops r \<noteq> None then batch_complete_set jsonb ops (db_now d) r else r"])
    fix r assume "in_budget r"
    moreover have "r_status r = StatusRunning" if "complete_of ops r = Some p" for p
      using that by (auto simp: complete_of_def find_Some_iff fenced_def)
    ultimately show "(if complete_of ops r \<noteq> None then batch_complete_set jsonb ops (db_now d) r else r) = r
        \<or> row_step r (if complete_of ops r \<noteq> None then batch_complete_set jsonb ops (db_now d) r else r)
          \<and> in_budget (if complete_of ops r \<noteq> None then batch_complete_set jsonb ops (db_now d) r else r)"
      by (auto simp: batch_complete_set_def complete_set_def in_budget_def intro: row_complete [unfolded complete_set_def]
          split: option.split)
  qed (simp add: update_where_def)
  with b show ?thesis by (simp add: batch_complete_def split: option.split)
qed

lemma store_call_budget: "store_call T d d' \<Longrightarrow> budget T d \<Longrightarrow> budget T d'"
proof (induction rule: store_call.induct)
  case (call_batch_op p d)
  show ?case
    by (rule budget_update [OF call_batch_op(3), where p = "fenced (b_id p) (b_epoch p)" and f = "op_set p (db_now d)"])
      (use op_set_in_budget [OF call_batch_op(3,1,2)] in \<open>simp_all add: update_jobs_def\<close>)
next
  case (call_batch_attempts d err ops)
  then show ?case using budget_cong [OF jobs_batch_attempts] by blast
next
  case (call_batch_events d err xs)
  then show ?case using budget_cong [OF batch_events_tables(1)] by blast
next
  case (call_UpsertWorker d ft w)
  have "jobs (snd (UpsertWorker ft w d)) = jobs d" by (cases ft) (simp_all add: UpsertWorker_def exec_stmt_def upsert_worker_def)
  with call_UpsertWorker show ?case using budget_cong by blast
qed (simp_all add: budget_CreateJob budget_SetEnqueued budget_ClaimJob budget_ExtendLease budget_sync_write budget_same
    budget_CancelJob budget_ReapJob budget_MarkPromoted budget_RequeueDeadLetter budget_MarkDeadWorkers budget_batch_complete)

text \<open>A claim is recorded with the numbers of its row.\<close>

lemma budget_claimed:
  assumes "budget T d" and "ClaimJob ft i w ttl d = (Inr (Some cl), d')"
  shows "budget (insert (i, cl) T) d'"
proof -
  have b: "budget T d'" using budget_ClaimJob [OF assms(1), of ft i w ttl] assms(2) by simp
  from exec_stmt_Inr [OF assms(2) [unfolded ClaimJob_def]]
  obtain r rs where f: "filter (claim_where i) (jobs d) = r # rs"
    and c: "cl = \<lparr>c_Epoch = r_lease_epoch r + 1, c_Attempt = r_attempt_count r + 1,
              c_MaxAttempts = r_max_attempts r, c_StartedAt = db_now d\<rparr>"
    and d': "jobs d' = update_where (claim_where i) (claim_set w ttl (db_now d)) (jobs d)"
    by (auto simp: update_jobs_returning_def claim_set_def Let_def split: list.splits)
  from f have "r \<in> set (filter (claim_where i) (jobs d))" by simp
  then have r: "r \<in> set (jobs d)" "claim_where i r" by simp_all
  then have "claim_set w ttl (db_now d) r \<in> set (jobs d')" unfolding d' update_where_def by force
  moreover have "r_id (claim_set w ttl (db_now d) r) = i \<and> owned cl (claim_set w ttl (db_now d) r)"
    using r(2) by (simp add: claim_set_def claim_where_def owned_def c)
  ultimately show ?thesis using b by (auto simp: budget_def)
qed

lemma calls_step_budget: "calls_step s s' \<Longrightarrow> budget (fst s) (snd s) \<Longrightarrow> budget (fst s') (snd s')"
  by (induction rule: calls_step.induct) (simp_all add: store_call_budget budget_claimed budget_mono)

lemma calls_run_budget: "calls_run s s' \<Longrightarrow> budget (fst s) (snd s) \<Longrightarrow> budget (fst s') (snd s')"
  by (induction rule: rtranclp_induct) (blast intro: calls_step_budget)+

lemma budget_empty: "jobs d = [] \<Longrightarrow> budget {} d"
  by (simp add: budget_def)

section \<open>The running system\<close>

lemma fleet_empty_calls: "fleet_empty R q f \<Longrightarrow> fst (fleet_calls f) = {} \<and> jobs (snd (fleet_calls f)) = []"
  by (simp add: fleet_empty_def fleet_calls_def claims_def)

lemma fleet_budget:
  assumes "fleet_empty R q f0" and "fleet_run R issued C q program_workers f0 f"
  shows "budget (claims (f_tasks f)) (w_db (f_world f))"
  using calls_run_budget [OF fleet_run_calls [OF assms(2) program_workers_authorised]] fleet_empty_calls [OF assms(1)] budget_empty
  by (simp add: fleet_calls_def)

text \<open>
  C2. A job is never executed more often than it may be. In every state the system reaches from an empty one,
  with any number of workers that record at once or in batches, API servers, leaders, crashes and faults of
  remote calls, a stored job has used at most its \<^verbatim>\<open>max_attempts\<close> attempts, and a job that waits to
  be claimed (PENDING or RETRYING) has one left; an execution under way that still owns its job holds the
  numbers of the row, so what it decides from them is right.
\<close>

theorem attempts_budget:
  assumes "fleet_empty R q f0" and "fleet_run R issued C q program_workers f0 f" and "job_at (w_db (f_world f)) i = Some r"
  shows "r_attempt_count r \<le> r_max_attempts r
    \<and> (r_status r = StatusPending \<or> r_status r = StatusRetrying \<longrightarrow> r_attempt_count r < r_max_attempts r)
    \<and> (\<forall>(x, cl) \<in> set (f_tasks f). e_ID (dv_Env x) = i \<and> fenced i (c_Epoch cl) r \<longrightarrow>
         c_Attempt cl = r_attempt_count r \<and> c_MaxAttempts cl = r_max_attempts r)"
proof -
  have b: "budget (claims (f_tasks f)) (w_db (f_world f))"
    by (rule fleet_budget [OF assms(1,2)])
  have r: "r \<in> set (jobs (w_db (f_world f)))" "r_id r = i" using assms(3) by (auto simp: job_at_def dest: find_row_Some)
  with b have "in_budget r" by (simp add: budget_def)
  moreover have "c_Attempt cl = r_attempt_count r \<and> c_MaxAttempts cl = r_max_attempts r"
    if t: "(x, cl) \<in> set (f_tasks f)" "e_ID (dv_Env x) = i" "fenced i (c_Epoch cl) r" for x cl
  proof -
    have "(i, cl) \<in> claims (f_tasks f)" using t by (force simp: claims_def)
    with b obtain r' where r': "r' \<in> set (jobs (w_db (f_world f)))" "r_id r' = i" "owned cl r'" by (auto simp: budget_def)
    then have "r' = r" using b r by (auto simp: budget_def distinct_map inj_on_def)
    with r'(3) t(3) show ?thesis by (auto simp: owned_def fenced_def)
  qed
  ultimately show ?thesis by (auto simp: in_budget_def)
qed

theorem attempts_budget_witness:
  "fleet_run redis_mem mem_issued frame_codec demo_queue program_workers demo_fleet (demo_fleet\<lparr>f_world := demo_submitted\<rparr>)
    \<and> job_at (w_db demo_submitted) ''j1'' = Some demo_pending_row \<and> r_status demo_pending_row = StatusPending
    \<and> r_attempt_count demo_pending_row < r_max_attempts demo_pending_row"
  using attempts_budget [OF demo_fleet_empty demo_fleet_submitted, of "''j1''" demo_pending_row] demo_fleet_submitted
  by (simp add: demo_submitted_job demo_pending_row_def)

end
