(* ===== verification/Refine.thy ===== *)
theory Refine
  imports Budget
begin

text \<open>
  What the system promises of a job, as a state machine with no workers, leases, epochs, streams or sweeps in it, and
  the proof that the running system implements it: whatever the processes do, each job only makes
  steps of the abstract machine.
\<close>

section \<open>The abstract job\<close>

text \<open>
  A job waits after some attempts, works on one, is parked with the dead letters, or is settled for good with its
  status, result and error.
\<close>

datatype view = Waiting int | Working int | Parked | Settled status "string option" "string option"

text \<open>\<open>m\<close> is the number of attempts the job may make; \<open>None\<close> is a job that was never submitted.\<close>

inductive queue_step :: "int \<Rightarrow> view option \<Rightarrow> view option \<Rightarrow> bool" for m where
  q_submit: "1 \<le> m \<Longrightarrow> queue_step m None (Some (Waiting 0))"
| q_start: "k < m \<Longrightarrow> queue_step m (Some (Waiting k)) (Some (Working (k + 1)))"
| q_again: "k < m \<Longrightarrow> queue_step m (Some (Working k)) (Some (Waiting k))"
| q_park: "queue_step m (Some (Working m)) (Some Parked)"
| q_settle: "st \<in> {StatusCompleted, StatusFailed, StatusCancelled} \<Longrightarrow> queue_step m (Some (Working k)) (Some (Settled st res err))"
| q_cancel: "queue_step m (Some (Waiting k)) (Some (Settled StatusCancelled res err))"
| q_requeue: "1 \<le> m \<Longrightarrow> queue_step m (Some Parked) (Some (Waiting 0))"

inductive_cases settled_stepE: "queue_step m (Some (Settled st res err)) v"
inductive_cases gone_stepE: "queue_step m v None"

text \<open>What the machine alone guarantees: bounded attempts, and that a settled job stays as it is.\<close>

definition view_ok :: "int \<Rightarrow> view option \<Rightarrow> bool" where
  "view_ok m v =
    (case v of
       Some (Waiting k) \<Rightarrow> 0 \<le> k \<and> k < m
     | Some (Working k) \<Rightarrow> 1 \<le> k \<and> k \<le> m
     | _ \<Rightarrow> True)"

lemma queue_step_ok: "queue_step m v v' \<Longrightarrow> view_ok m v \<Longrightarrow> view_ok m v'"
  by (induction rule: queue_step.induct) (auto simp: view_ok_def)

lemma queue_run_ok: "(queue_step m)\<^sup>*\<^sup>* v v' \<Longrightarrow> view_ok m v \<Longrightarrow> view_ok m v'"
  by (induction rule: rtranclp_induct) (auto intro: queue_step_ok)

lemma settled_stays: "(queue_step m)\<^sup>*\<^sup>* (Some (Settled st res err)) v \<Longrightarrow> v = Some (Settled st res err)"
  by (induction rule: rtranclp_induct) (auto elim: settled_stepE)

section \<open>Rows\<close>

definition row_view :: "job_row \<Rightarrow> view" where
  "row_view r =
    (if r_status r = StatusPending \<or> r_status r = StatusRetrying then Waiting (r_attempt_count r)
     else if r_status r = StatusRunning then Working (r_attempt_count r)
     else if r_status r = StatusDeadLetter then Parked
     else Settled (r_status r) (r_result r) (r_error r))"

definition view_at :: "db \<Rightarrow> string \<Rightarrow> view option" where
  "view_at d i = map_option row_view (job_at d i)"

lemma row_step_view:
  assumes "row_step r r'" and "in_budget r" and "in_budget r'"
  shows "(queue_step (r_max_attempts r))\<^sup>*\<^sup>* (Some (row_view r)) (Some (row_view r'))"
proof -
  have "row_view r' = row_view r \<or> queue_step (r_max_attempts r) (Some (row_view r)) (Some (row_view r'))"
    using assms
  proof (cases rule: row_step.cases)
    case (row_claim w ttl now)
    then show ?thesis using assms by (auto simp: row_view_def in_budget_def row_sets intro: queue_step.intros)
  next
    case (row_reap delay now)
    then show ?thesis using assms
      by (cases "r_attempt_count r \<ge> r_max_attempts r") (auto simp: row_view_def in_budget_def row_sets intro: queue_step.intros)
  next
    case (row_dead msg now)
    then show ?thesis using assms q_park [of "r_max_attempts r"] by (auto simp: row_view_def in_budget_def row_sets)
  next
    case (row_enqueued sid now)
    then show ?thesis by (simp add: row_view_def)
  qed (auto simp: row_view_def in_budget_def row_sets intro: queue_step.intros)
  then show ?thesis by auto
qed

lemma row_view_settled:
  "row_view r = Settled st res err \<longleftrightarrow> final_row r \<and> r_status r = st \<and> r_result r = res \<and> r_error r = err"
  by (cases "r_status r") (auto simp: row_view_def final_row_def Terminal_def)

lemma fresh_view: "fresh_row r \<Longrightarrow> queue_step (r_max_attempts r) None (Some (row_view r))"
  by (auto simp: fresh_row_def row_view_def intro: q_submit)

section \<open>Databases\<close>

text \<open>Every job of the later database comes from the earlier one by steps of the machine, and none is gone.\<close>

definition refines :: "db \<Rightarrow> db \<Rightarrow> bool" where
  "refines d d' =
    (\<forall>i. case job_at d' i of
        None \<Rightarrow> job_at d i = None
      | Some r \<Rightarrow> (queue_step (r_max_attempts r))\<^sup>*\<^sup>* (view_at d i) (Some (row_view r))
          \<and> (\<forall>r0. job_at d i = Some r0 \<longrightarrow> r_max_attempts r0 = r_max_attempts r))"

lemma refinesD:
  assumes "refines d d'"
  shows "job_at d' i = None \<Longrightarrow> job_at d i = None"
    and "job_at d' i = Some r \<Longrightarrow> (queue_step (r_max_attempts r))\<^sup>*\<^sup>* (view_at d i) (Some (row_view r))"
    and "job_at d' i = Some r \<Longrightarrow> job_at d i = Some r0 \<Longrightarrow> r_max_attempts r0 = r_max_attempts r"
  using assms [unfolded refines_def, rule_format, of i] by simp_all

lemma refinesI:
  assumes "\<And>i. job_at d' i = None \<Longrightarrow> job_at d i = None"
    and "\<And>i r. job_at d' i = Some r \<Longrightarrow> (queue_step (r_max_attempts r))\<^sup>*\<^sup>* (view_at d i) (Some (row_view r))"
    and "\<And>i r r0. job_at d' i = Some r \<Longrightarrow> job_at d i = Some r0 \<Longrightarrow> r_max_attempts r0 = r_max_attempts r"
  shows "refines d d'"
  using assms by (simp add: refines_def split: option.split)

lemma refines_same_jobs: "jobs d' = jobs d \<Longrightarrow> refines d d'"
  by (rule refinesI) (auto simp: job_at_def view_at_def)

lemma refines_trans:
  assumes "refines a b" and "refines b c"
  shows "refines a c"
proof (rule refinesI)
  fix i assume "job_at c i = None"
  then show "job_at a i = None" by (intro refinesD(1) [OF assms(1)] refinesD(1) [OF assms(2)])
next
  fix i r assume c: "job_at c i = Some r"
  note bc = refinesD(2) [OF assms(2) c]
  show "(queue_step (r_max_attempts r))\<^sup>*\<^sup>* (view_at a i) (Some (row_view r))"
  proof (cases "job_at b i")
    case None
    with bc show ?thesis using refinesD(1) [OF assms(1) None] by (simp add: view_at_def)
  next
    case (Some r1)
    from refinesD(2) [OF assms(1) Some] refinesD(3) [OF assms(2) c Some]
    have "(queue_step (r_max_attempts r))\<^sup>*\<^sup>* (view_at a i) (Some (row_view r1))" by simp
    moreover have "(queue_step (r_max_attempts r))\<^sup>*\<^sup>* (Some (row_view r1)) (Some (row_view r))"
      using bc Some by (simp add: view_at_def)
    ultimately show ?thesis by (rule rtranclp_trans)
  qed
next
  fix i r r0 assume c: "job_at c i = Some r" and a: "job_at a i = Some r0"
  show "r_max_attempts r0 = r_max_attempts r"
  proof (cases "job_at b i")
    case None
    with refinesD(1) [OF assms(1)] a show ?thesis by simp
  next
    case (Some r1)
    then show ?thesis using refinesD(3) [OF assms(1) Some a] refinesD(3) [OF assms(2) c Some] by simp
  qed
qed

section \<open>The refinement\<close>

lemma budget_row: "budget T d \<Longrightarrow> job_at d i = Some r \<Longrightarrow> in_budget r"
  by (auto simp: budget_def job_at_def dest: find_row_Some)

lemma store_call_refines:
  assumes "store_call T d d'" and "budget T d"
  shows "refines d d'"
proof -
  have b': "budget T d'" by (rule store_call_budget [OF assms])
  have ev: "evolves d d'" by (rule store_step_evolves [OF store_call_step [OF assms(1)]])
  have row: "r' = r \<or> row_step r r'" if "job_at d i = Some r" "job_at d' i = Some r'" for i r r'
    using evolves_Some [OF ev that(1)] that(2) by (metis option.inject)
  show ?thesis
  proof (rule refinesI)
    fix i assume "job_at d' i = None"
    then show "job_at d i = None" using evolves_Some [OF ev] by (metis not_None_eq)
  next
    fix i r assume r: "job_at d' i = Some r"
    show "(queue_step (r_max_attempts r))\<^sup>*\<^sup>* (view_at d i) (Some (row_view r))"
    proof (cases "job_at d i")
      case None
      then show ?thesis using fresh_view [OF evolves_None [OF ev None r]] by (auto simp: view_at_def)
    next
      case (Some r0)
      from row [OF Some r] show ?thesis
      proof
        assume s: "row_step r0 r"
        from row_step_view [OF s budget_row [OF assms(2) Some] budget_row [OF b' r]] row_step_frame [OF s] Some
        show ?thesis by (simp add: view_at_def)
      qed (simp add: view_at_def Some)
    qed
  next
    fix i r r0 assume "job_at d' i = Some r" and "job_at d i = Some r0"
    then show "r_max_attempts r0 = r_max_attempts r" using row [of i r0 r] row_step_frame [of r0 r] by auto
  qed
qed

lemma calls_step_refines: "calls_step s s' \<Longrightarrow> budget (fst s) (snd s) \<Longrightarrow> refines (snd s) (snd s')"
proof (induction rule: calls_step.induct)
  case (calls_claim ft i w ttl d cl d' T)
  then show ?case using store_call_refines [OF call_ClaimJob, of T d ft i w ttl] by simp
qed (simp_all add: store_call_refines refines_same_jobs)

text \<open>Any interleaving of authorised calls, from a state within the budget, is a run of the machine for each job.\<close>

lemma calls_run_refines: "calls_run s s' \<Longrightarrow> budget (fst s) (snd s) \<Longrightarrow> refines (snd s) (snd s')"
proof (induction rule: rtranclp_induct)
  case (step s1 s2)
  have "refines (snd s1) (snd s2)" by (rule calls_step_refines [OF step.hyps(2) calls_run_budget [OF step.hyps(1) step.prems]])
  with step.IH [OF step.prems] show ?case by (rule refines_trans)
qed (simp add: refines_same_jobs)

lemma fleet_refines:
  assumes "fleet_empty R q f0" and "fleet_run R issued C q program_workers f0 f" and "fleet_run R issued C q program_workers f f'"
  shows "refines (w_db (f_world f)) (w_db (f_world f'))"
  using calls_run_refines [OF fleet_run_calls [OF assms(3) program_workers_authorised]] fleet_budget [OF assms(1,2)]
  by (simp add: fleet_calls_def)

text \<open>
  C3. The system implements the abstract queue. Between any two moments of a run from the empty system, with any number
  of API servers, leaders and workers that record at once or in batches, crashes and faults of remote calls, every job
  goes from what it was to what it is by steps of the abstract machine \<open>queue_step\<close> alone: no job disappears or
  changes its limit, an attempt is begun only while one is left, a job is parked only from its last attempt and
  comes back from there only with all its attempts before it, and a job that is settled keeps its status, result and error for good. Nothing of workers,
  leases, epochs, streams and sweeps is visible in it.
\<close>

theorem system_refines_queue:
  assumes "fleet_empty R q f0" and "fleet_run R issued C q program_workers f0 f" and "fleet_run R issued C q program_workers f f'"
  shows "\<forall>i. (case job_at (w_db (f_world f')) i of
      None \<Rightarrow> job_at (w_db (f_world f)) i = None
    | Some r \<Rightarrow>
        (queue_step (r_max_attempts r))\<^sup>*\<^sup>* (view_at (w_db (f_world f)) i) (Some (row_view r))
        \<and> (\<forall>r0. job_at (w_db (f_world f)) i = Some r0 \<longrightarrow>
             r_max_attempts r0 = r_max_attempts r
             \<and> (final_row r0 \<longrightarrow> r_status r = r_status r0 \<and> r_result r = r_result r0 \<and> r_error r = r_error r0)))"
proof
  fix i
  note step = fleet_refines [OF assms]
  show "case job_at (w_db (f_world f')) i of
      None \<Rightarrow> job_at (w_db (f_world f)) i = None
    | Some r \<Rightarrow>
        (queue_step (r_max_attempts r))\<^sup>*\<^sup>* (view_at (w_db (f_world f)) i) (Some (row_view r))
        \<and> (\<forall>r0. job_at (w_db (f_world f)) i = Some r0 \<longrightarrow>
             r_max_attempts r0 = r_max_attempts r
             \<and> (final_row r0 \<longrightarrow> r_status r = r_status r0 \<and> r_result r = r_result r0 \<and> r_error r = r_error r0))"
  proof (cases "job_at (w_db (f_world f')) i")
    case None
    with refinesD(1) [OF step] show ?thesis by simp
  next
    case (Some r)
    note run = refinesD(2) [OF step Some]
    have "r_status r = r_status r0 \<and> r_result r = r_result r0 \<and> r_error r = r_error r0"
      if r0: "job_at (w_db (f_world f)) i = Some r0" "final_row r0" for r0
    proof -
      have "row_view r0 = Settled (r_status r0) (r_result r0) (r_error r0)" using r0(2) by (simp add: row_view_settled)
      with run r0(1) have "row_view r = Settled (r_status r0) (r_result r0) (r_error r0)"
        using settled_stays [of "r_max_attempts r" "r_status r0" "r_result r0" "r_error r0" "Some (row_view r)"] by (simp add: view_at_def)
      then show ?thesis by (simp add: row_view_settled)
    qed
    with Some run refinesD(3) [OF step Some] show ?thesis by simp
  qed
qed

theorem system_refines_queue_witness:
  "fleet_run redis_mem mem_issued frame_codec demo_queue program_workers demo_fleet (demo_fleet\<lparr>f_world := demo_submitted\<rparr>)
    \<and> (queue_step (r_max_attempts demo_pending_row))\<^sup>*\<^sup>* None (Some (Waiting 0))"
proof -
  have "view_at (w_db (f_world demo_fleet)) ''j1'' = None" by (simp add: view_at_def job_at_def demo_fleet_def demo_world_def)
  moreover have "row_view demo_pending_row = Waiting 0" by (simp add: row_view_def demo_pending_row_def)
  ultimately show ?thesis
    using system_refines_queue [OF demo_fleet_empty fleet_start demo_fleet_submitted, rule_format, of "''j1''"] demo_fleet_submitted
    by (simp add: demo_submitted_job)
qed

end
