(* ===== verification/Queue_Props.thy ===== *)
theory Queue_Props
  imports Demo
begin

text \<open>
  What the queue promises its callers: the leader lock is exclusive, a fetch is bounded and ordered
  by priority, promotion moves exactly the due envelopes.
\<close>

section \<open>The leader lock\<close>

text \<open>
  Contenders of one role: \<open>B\<close> those that believe to be the leader, \<open>S\<close> those of them whose lock has expired
  since they got it. A contender that believes to be the leader does not acquire; renewals and releases may
  come from anyone at any time. The server may drop the key at any time; other traffic leaves it
  alone.
\<close>

inductive lock_step ::
  "'r redis \<Rightarrow> queue \<Rightarrow> string \<Rightarrow> string set \<times> string set \<times> 'r world \<Rightarrow> string set \<times> string set \<times> 'r world \<Rightarrow> bool"
  for R q role
where
  lock_acquire: "i \<notin> B \<Longrightarrow> 0 < ttl \<Longrightarrow> run_state (AcquireLeader R q role i ttl) w = (a, w') \<Longrightarrow>
    lock_step R q role (B, S, w) (if a = Inr True then insert i B else B, S, w')"
| lock_renew: "millisecond \<le> ttl \<Longrightarrow> run_state (RenewLeader R q role i ttl) w = (a, w') \<Longrightarrow>
    B' = (if a = Inr True then B else B - {i}) \<Longrightarrow> lock_step R q role (B, S, w) (B', S \<inter> B', w')"
| lock_release: "run_state (ReleaseLeader R q role i) w = (a, w') \<Longrightarrow>
    lock_step R q role (B, S, w) (B - {i}, S - {i}, w')"
| lock_expire: "kv_get R (w_rd w') (leaderKey q role) = None \<Longrightarrow> lock_step R q role (B, S, w) (B, B, w')"
| lock_other: "kv_get R (w_rd w') (leaderKey q role) = kv_get R (w_rd w) (leaderKey q role) \<Longrightarrow>
    lock_step R q role (B, S, w) (B, S, w')"

inductive lock_run ::
  "'r redis \<Rightarrow> queue \<Rightarrow> string \<Rightarrow> string set \<times> string set \<times> 'r world \<Rightarrow> string set \<times> string set \<times> 'r world \<Rightarrow> bool"
  for R q role
where
  lock_start: "lock_run R q role x x"
| lock_next: "lock_run R q role x y \<Longrightarrow> lock_step R q role y z \<Longrightarrow> lock_run R q role x z"

text \<open>Who believes and has not expired is named by the lock; who has expired is not.\<close>

definition lock_ok :: "'r redis \<Rightarrow> queue \<Rightarrow> string \<Rightarrow> string set \<times> string set \<times> 'r world \<Rightarrow> bool" where
  "lock_ok R q role x =
    (case x of (B, S, w) \<Rightarrow> S \<subseteq> B \<and> (\<forall>i \<in> B. i \<notin> S \<longleftrightarrow> kv_get R (w_rd w) (leaderKey q role) = Some i))"

lemma rcmd_result:
  assumes "run_state (rcmd f) w = (x, w')"
  obtains (good) "x = Inr (fst (f (w_rd w)))" "w_rd w' = snd (f (w_rd w))"
    | (drop) e where "x = Inl e" "w_rd w' = w_rd w"
    | (late) e where "x = Inl e" "w_rd w' = snd (f (w_rd w))"
  using assms
  by (cases "w_faults w 0") (auto simp: rcmd_def pop_fault_def on_rd_def intro: good drop late)

context redis_service
begin

lemma AcquireLeader_result:
  assumes "run_state (AcquireLeader R q role i ttl) w = (a, w')" and "0 < ttl"
  shows "kv_get R (w_rd w') (leaderKey q role) = kv_get R (w_rd w) (leaderKey q role)
      \<or> kv_get R (w_rd w) (leaderKey q role) = None \<and> kv_get R (w_rd w') (leaderKey q role) = Some i"
    and "a = Inr True \<Longrightarrow> kv_get R (w_rd w) (leaderKey q role) = None \<and> kv_get R (w_rd w') (leaderKey q role) = Some i"
proof -
  from assms(1) obtain x where r: "run_state (rcmd (kv_setnx R (leaderKey q role) i ttl)) w = (x, w')"
    and a: "a = wrap_err ''queue: acquiring leadership: '' x"
    by (auto simp: AcquireLeader_def pass_def split: prod.splits)
  obtain b s where s: "kv_setnx R (leaderKey q role) i ttl (w_rd w) = (b, s)" by fastforce
  note g = kv_setnx_get [OF s assms(2)]
  show "kv_get R (w_rd w') (leaderKey q role) = kv_get R (w_rd w) (leaderKey q role)
      \<or> kv_get R (w_rd w) (leaderKey q role) = None \<and> kv_get R (w_rd w') (leaderKey q role) = Some i"
    using r by (cases rule: rcmd_result) (use g in \<open>auto simp: s\<close>)
  show "kv_get R (w_rd w) (leaderKey q role) = None \<and> kv_get R (w_rd w') (leaderKey q role) = Some i" if "a = Inr True"
    using r that a by (cases rule: rcmd_result) (use g in \<open>auto simp: s wrap_err_def\<close>)
qed

lemma RenewLeader_result:
  assumes "run_state (RenewLeader R q role i ttl) w = (a, w')" and "millisecond \<le> ttl"
  shows "kv_get R (w_rd w') = kv_get R (w_rd w)"
    and "a = Inr True \<Longrightarrow> kv_get R (w_rd w) (leaderKey q role) = Some i"
proof -
  from assms(1) obtain x where r: "run_state (rcmd (renewScript R (leaderKey q role) i (ttl div millisecond))) w = (x, w')"
    and a: "a = wrap_err ''queue: renewing leadership: '' x"
    by (auto simp: RenewLeader_def pass_def split: prod.splits)
  have "0 < ttl div millisecond" using assms(2) by (simp add: pos_imp_zdiv_pos_iff)
  then have k: "kv_get R (snd (renewScript R (leaderKey q role) i (ttl div millisecond) (w_rd w))) = kv_get R (w_rd w)"
    using kv_pexpire_get by (simp add: renewScript_def)
  show "kv_get R (w_rd w') = kv_get R (w_rd w)" using r by (cases rule: rcmd_result) (simp_all add: k)
  show "kv_get R (w_rd w) (leaderKey q role) = Some i" if "a = Inr True"
    using r that a by (cases rule: rcmd_result) (auto simp: wrap_err_def renewScript_def split: if_splits)
qed

lemma ReleaseLeader_result:
  assumes "run_state (ReleaseLeader R q role i) w = (a, w')"
  shows "kv_get R (w_rd w') = kv_get R (w_rd w)
    \<or> kv_get R (w_rd w) (leaderKey q role) = Some i \<and> kv_get R (w_rd w') = (kv_get R (w_rd w))(leaderKey q role := None)"
proof -
  from assms(1) obtain x where r: "run_state (rcmd (releaseScript R (leaderKey q role) i)) w = (x, w')"
    by (auto simp: ReleaseLeader_def pass_def split: prod.splits)
  then show ?thesis
    by (cases rule: rcmd_result) (auto simp: releaseScript_def kv_del_get)
qed

lemma RenewLeader_other:
  assumes "run_state (RenewLeader R q role i ttl) w = (a, w')" and "kv_get R (w_rd w) (leaderKey q role) \<noteq> Some i"
  shows "w_rd w' = w_rd w \<and> a \<noteq> Inr True"
proof -
  from assms(1) obtain x where r: "run_state (rcmd (renewScript R (leaderKey q role) i (ttl div millisecond))) w = (x, w')"
    and a: "a = wrap_err ''queue: renewing leadership: '' x"
    by (auto simp: RenewLeader_def pass_def split: prod.splits)
  from r show ?thesis by (cases rule: rcmd_result) (use assms(2) in \<open>simp_all add: renewScript_def a wrap_err_def\<close>)
qed

lemma ReleaseLeader_other:
  assumes "run_state (ReleaseLeader R q role i) w = (a, w')" and "kv_get R (w_rd w) (leaderKey q role) \<noteq> Some i"
  shows "w_rd w' = w_rd w"
proof -
  from assms(1) obtain x where r: "run_state (rcmd (releaseScript R (leaderKey q role) i)) w = (x, w')"
    by (auto simp: ReleaseLeader_def pass_def split: prod.splits)
  then show ?thesis by (cases rule: rcmd_result) (use assms(2) in \<open>simp_all add: releaseScript_def\<close>)
qed

lemma lock_step_ok:
  assumes "lock_step R q role x y" and "lock_ok R q role x"
  shows "lock_ok R q role y"
  using assms
proof (induction rule: lock_step.induct)
  case (lock_acquire i B ttl w a w' S)
  note r = AcquireLeader_result [OF lock_acquire(3,2)]
  show ?case
  proof (cases "a = Inr True")
    case True
    with r(2) lock_acquire(1,4) show ?thesis by (auto simp: lock_ok_def)
  next
    case False
    with r(1) lock_acquire(1,4) show ?thesis by (auto simp: lock_ok_def)
  qed
next
  case (lock_renew ttl i w a w' B' B S)
  then show ?case using RenewLeader_result(1) [OF lock_renew(2,1)] by (auto simp: lock_ok_def)
next
  case (lock_release i w a w' B S)
  then show ?case using ReleaseLeader_result [OF lock_release(1)] by (auto simp: lock_ok_def)
qed (auto simp: lock_ok_def)

lemma lock_run_ok: "lock_run R q role x y \<Longrightarrow> lock_ok R q role x \<Longrightarrow> lock_ok R q role y"
  by (induction rule: lock_run.induct) (auto intro: lock_step_ok)

end

text \<open>
  C6. One leader. Any number of contenders acquire, renew and release the lock of a role in any order, with any
  outcome of every call (a lost reply included), and the lock expires at any time. Of the contenders that
  believe to be the leader, at most one has not lost its lock to an expiry, and the lock carries its name. A
  contender whom the lock does not name, so also one that believes to be the leader after its lock expired, changes
  nothing on the server by a renewal or a release, and no renewal of it is answered with success: its
  first renewal tells it that it is not the leader.
\<close>

theorem one_leader:
  assumes "redis_service R issued" and "lock_run R q role ({}, {}, w0) (B, S, w)"
  shows "(\<forall>i \<in> B - S. B - S = {i} \<and> kv_get R (w_rd w) (leaderKey q role) = Some i)
    \<and> (\<forall>i \<in> S. kv_get R (w_rd w) (leaderKey q role) \<noteq> Some i)
    \<and> (\<forall>i. kv_get R (w_rd w) (leaderKey q role) \<noteq> Some i \<longrightarrow>
        (\<forall>ttl a w'. run_state (RenewLeader R q role i ttl) w = (a, w') \<longrightarrow> w_rd w' = w_rd w \<and> a \<noteq> Inr True)
        \<and> (\<forall>a w'. run_state (ReleaseLeader R q role i) w = (a, w') \<longrightarrow> w_rd w' = w_rd w))"
proof -
  have "lock_ok R q role ({}, {}, w0)" by (simp add: lock_ok_def)
  then have "lock_ok R q role (B, S, w)" by (rule redis_service.lock_run_ok [OF assms])
  then have one: "\<forall>i \<in> B - S. B - S = {i} \<and> kv_get R (w_rd w) (leaderKey q role) = Some i"
    and expired: "\<forall>i \<in> S. kv_get R (w_rd w) (leaderKey q role) \<noteq> Some i" by (auto simp: lock_ok_def)
  show ?thesis
    by (intro conjI one expired allI impI)
      (erule (1) redis_service.RenewLeader_other [OF assms(1), THEN conjunct1] redis_service.RenewLeader_other [OF assms(1), THEN conjunct2]
        redis_service.ReleaseLeader_other [OF assms(1)])+
qed

theorem one_leader_witness:
  "\<exists>w. lock_run redis_mem demo_queue ''recovery'' ({}, {}, demo_world) ({''a''}, {}, w)
     \<and> kv_get redis_mem (w_rd w) (leaderKey demo_queue ''recovery'') = Some ''a''"
proof -
  obtain x w where r: "run_state (AcquireLeader redis_mem demo_queue ''recovery'' ''a'' second) demo_world = (x, w)" by fastforce
  then have x: "x = Inr True"
    by (simp add: AcquireLeader_def prog_eval wrap_err_def demo_world_def redis_mem_def mem_setnx_def mem_get_def mem_empty_def split: if_splits)
  have run: "lock_run redis_mem demo_queue ''recovery'' ({}, {}, demo_world) ({''a''}, {}, w)"
    using lock_next [OF lock_start lock_acquire [OF _ _ r]] by (simp add: x)
  from one_leader [OF mem.redis_service_axioms run, THEN conjunct1] run show ?thesis by auto
qed

section \<open>Fetching\<close>

lemma hoare_True: "hoare (\<lambda>_. True) m Q \<Longrightarrow> hoare P m Q"
  by (simp add: hoare_def)

lemma decodeMessage_priority:
  "hoare (\<lambda>_. True) (decodeMessage R C q m p) (\<lambda>x _. \<forall>y. x = Some y \<longrightarrow> dv_Priority y = p)"
  by (cases "DecodeEnvelope C (field ''j'' (snd m))") (auto simp: decodeMessage_def hoare_def pass_def split: prod.splits)

text \<open>What appending the messages of one stream leaves.\<close>

lemma append_messages_result:
  "hoare (\<lambda>_. True) (append_messages R C q ms p out)
    (\<lambda>out' _. \<exists>new. out' = out @ new \<and> length new \<le> length ms \<and> (\<forall>y \<in> set new. dv_Priority y = p))"
proof (induction ms arbitrary: out)
  case Nil
  then show ?case by (simp add: hoare_def pass_def)
next
  case (Cons m ms)
  have "hoare (\<lambda>_. \<forall>y. x = Some y \<longrightarrow> dv_Priority y = p)
      (append_messages R C q ms p (case x of None \<Rightarrow> out | Some y \<Rightarrow> out @ [y]))
      (\<lambda>out' _. \<exists>new. out' = out @ new \<and> length new \<le> length (m # ms) \<and> (\<forall>y \<in> set new. dv_Priority y = p))" for x
  proof (cases x)
    case None
    with Cons.IH [of out] show ?thesis by (fastforce simp: hoare_def)
  next
    case (Some y)
    from Cons.IH [of "out @ [y]"] Some show ?thesis by (fastforce simp: hoare_def)
  qed
  then show ?case unfolding append_messages.simps by (rule hoare_bind [OF decodeMessage_priority])
qed

fun ordered_by :: "priority list \<Rightarrow> delivery list \<Rightarrow> bool" where
  "ordered_by [] ds = (ds = [])"
| "ordered_by (p # ps) ds = ordered_by ps (dropWhile (\<lambda>x. dv_Priority x = p) ds)"

lemma ordered_by_set: "ordered_by ps ds \<Longrightarrow> x \<in> set ds \<Longrightarrow> dv_Priority x \<in> set ps"
proof (induction ps arbitrary: ds)
  case (Cons p ps)
  have "x \<in> set (takeWhile (\<lambda>x. dv_Priority x = p) ds) \<or> x \<in> set (dropWhile (\<lambda>x. dv_Priority x = p) ds)"
    using Cons.prems(2) by (metis Un_iff set_append takeWhile_dropWhile_id)
  then show ?case using Cons by (auto dest: set_takeWhileD)
qed simp

lemma ordered_by_append:
  assumes "\<forall>x \<in> set a. dv_Priority x = p" and "ordered_by ps b" and "p \<notin> set ps"
  shows "ordered_by (p # ps) (a @ b)"
proof -
  have "dropWhile (\<lambda>x. dv_Priority x = p) b = b"
    using assms(2,3) ordered_by_set [of ps b "hd b"] by (cases b) auto
  with assms(1,2) show ?thesis by (simp add: dropWhile_append)
qed

definition read_ok :: "key list \<Rightarrow> int \<Rightarrow> (key \<times> message list) list res \<Rightarrow> bool" where
  "read_ok ks n x = (\<forall>res. x = Inr res \<longrightarrow> length (concat (map snd res)) \<le> length ks * nat n
     \<and> (\<forall>s \<in> set res. length (snd s) \<le> nat n) \<and> distinct (map fst res) \<and> fst ` set res \<subseteq> set ks)"

text \<open>What a fetch may return: of each priority at most \<open>mx\<close>.\<close>

definition fetched_ok :: "int \<Rightarrow> delivery list \<Rightarrow> bool" where
  "fetched_ok mx out =
    (int (length out) \<le> 3 * mx \<and> (\<forall>x \<in> set out. dv_Priority x \<in> set PriorityOrder)
     \<and> (\<forall>p. int (length (filter (\<lambda>x. dv_Priority x = p) out)) \<le> mx))"

lemma fetched_ok_ready:
  assumes "0 \<le> mx" and "ordered_by PriorityOrder out" and "int (length out) \<le> mx"
  shows "fetched_ok mx out"
proof -
  have "int (length (filter (\<lambda>x. dv_Priority x = p) out)) \<le> mx" for p
    using length_filter_le [of "\<lambda>x. dv_Priority x = p" out] assms(3) by linarith
  moreover have "dv_Priority x \<in> set PriorityOrder" if "x \<in> set out" for x using ordered_by_set [OF assms(2) that] .
  ultimately show ?thesis using assms by (simp add: fetched_ok_def)
qed

lemma stream_priority: "p \<in> set PriorityOrder \<Longrightarrow> priorityOfStream q (streamKey q p) = p"
  by (auto simp: priorityOfStream_def PriorityOrder_def streamKey_def PriorityHigh_def PriorityDefault_def PriorityLow_def)

lemma priorityOfStream_order: "priorityOfStream q k \<in> set PriorityOrder"
  by (auto simp: priorityOfStream_def PriorityOrder_def)

context redis_service
begin

lemma rcmd_read_ok:
  assumes "distinct ks"
  shows "hoare (\<lambda>_. True) (rcmd (xreadgroup R g c ks n)) (\<lambda>x _. read_ok ks n x)"
proof (rule hoareI)
  fix w
  obtain x w' where r: "run_state (rcmd (xreadgroup R g c ks n)) w = (x, w')" by fastforce
  obtain res s where s: "xreadgroup R g c ks n (w_rd w) = (res, s)" by fastforce
  have each: "length (snd y) \<le> nat n" "fst y \<in> set ks" if "y \<in> set res" for y
    using xreadgroup_msgs [OF s, of "fst y" "snd y"] that by auto
  have once: "distinct (map fst res)" by (rule xreadgroup_once [OF s assms])
  moreover have "set (map fst res) \<subseteq> set ks" using each(2) by auto
  ultimately have "length (map fst res) \<le> length ks"
    using assms by (metis card_mono distinct_card List.finite_set)
  then have n: "length res \<le> length ks" by simp
  have "length (concat (map snd res)) \<le> length res * nat n"
    using each(1) by (induction res) (auto simp: add_le_mono)
  also have "\<dots> \<le> length ks * nat n" using n by simp
  finally have "length (concat (map snd res)) \<le> length ks * nat n" .
  note fin = this
  show "read_ok ks n (fst (run_state (rcmd (xreadgroup R g c ks n)) w))"
    using r by (cases rule: rcmd_result) (use fin each once in \<open>auto simp: read_ok_def r s\<close>)
qed

lemma fetch_ready_result:
  assumes "distinct ps" and "int (length out) \<le> mx"
  shows "hoare (\<lambda>_. True) (fetch_ready R C q consumer mx ps out)
    (\<lambda>a _. \<exists>new. fst a = out @ new \<and> ordered_by ps new \<and> int (length (fst a)) \<le> mx)"
  using assms
proof (induction ps arbitrary: out)
  case Nil
  then show ?case by (simp add: hoare_def pass_def)
next
  case (Cons p ps)
  let ?Q = "\<lambda>out a. \<exists>new. fst a = out @ new \<and> ordered_by (p # ps) new \<and> int (length (fst a)) \<le> mx"
  have none: "ordered_by ps []" for ps by (induction ps) simp_all
  have read: "hoare (\<lambda>_. read_ok [streamKey q p] (mx - int (length out)) r)
      (case r of
         Inl e \<Rightarrow> pass (out, Some (ErrorfW (''queue: fetch '' @ p @ '': '') e), True)
       | Inr streams \<Rightarrow> do {
           out' \<leftarrow> appendDeliveries R C q out streams p;
           fetch_ready R C q consumer mx ps out' })
      (\<lambda>a _. ?Q out a)" for r
  proof (cases r)
    case (Inl e)
    with Cons.prems none show ?thesis by (auto simp: hoare_def pass_def)
  next
    case (Inr streams)
    have rest: "hoare (\<lambda>_. \<exists>new. out' = out @ new \<and> length new \<le> length (concat (map snd streams)) \<and> (\<forall>y \<in> set new. dv_Priority y = p))
        (fetch_ready R C q consumer mx ps out') (\<lambda>a _. ?Q out a)"
      if "length (concat (map snd streams)) \<le> nat (mx - int (length out))" for out'
    proof (rule hoareI, elim exE conjE)
      fix w new assume new: "out' = out @ new" "length new \<le> length (concat (map snd streams))" "\<forall>y \<in> set new. dv_Priority y = p"
      have "int (length out') \<le> mx" using new(1,2) that Cons.prems(2) by simp
      with Cons.IH [of out'] Cons.prems(1)
      have "\<exists>new'. fst (fst (run_state (fetch_ready R C q consumer mx ps out') w)) = out' @ new' \<and> ordered_by ps new'
          \<and> int (length (fst (fst (run_state (fetch_ready R C q consumer mx ps out') w)))) \<le> mx" by (simp add: hoare_def)
      then obtain new'
        where "fst (fst (run_state (fetch_ready R C q consumer mx ps out') w)) = out' @ new'" "ordered_by ps new'"
          "int (length (out' @ new')) \<le> mx" by auto
      with new ordered_by_append [of new p ps new'] Cons.prems(1)
      show "?Q out (fst (run_state (fetch_ready R C q consumer mx ps out') w))"
        by (intro exI [of _ "new @ new'"]) simp
    qed
    show ?thesis
    proof (rule hoareI)
      fix w assume "read_ok [streamKey q p] (mx - int (length out)) r"
      then have "length (concat (map snd streams)) \<le> nat (mx - int (length out))" by (simp add: read_ok_def Inr)
      from hoare_bind [OF append_messages_result rest [OF this]]
      show "?Q out (fst (run_state (case r of
         Inl e \<Rightarrow> pass (out, Some (ErrorfW (''queue: fetch '' @ p @ '': '') e), True)
       | Inr streams \<Rightarrow> do {
           out' \<leftarrow> appendDeliveries R C q out streams p;
           fetch_ready R C q consumer mx ps out' }) w))"
        by (simp add: Inr appendDeliveries_def hoare_def)
    qed
  qed
  show ?case
  proof (cases "int (length out) \<ge> mx")
    case True
    with Cons.prems none show ?thesis by (auto simp: hoare_def pass_def)
  next
    case False
    show ?thesis
      unfolding fetch_ready.simps if_not_P [OF False] by (rule hoare_bind [OF rcmd_read_ok read]) simp
  qed
qed

lemma append_streams_result:
  "hoare (\<lambda>_. True) (append_streams R C q ss out) (\<lambda>out' _. \<exists>new. out' = out @ new
    \<and> length new \<le> length (concat (map snd ss)) \<and> (\<forall>x \<in> set new. dv_Priority x \<in> set PriorityOrder)
    \<and> (\<forall>p. length (filter (\<lambda>x. dv_Priority x = p) new) \<le> length (concat (map snd (filter (\<lambda>x. priorityOfStream q (fst x) = p) ss)))))"
  (is "hoare _ _ (\<lambda>out' _. \<exists>new. out' = out @ new \<and> ?P ss new)")
proof (induction ss arbitrary: out)
  case Nil
  then show ?case by (simp add: hoare_def pass_def)
next
  case (Cons x ss)
  let ?P = "\<lambda>ss new. length new \<le> length (concat (map snd ss)) \<and> (\<forall>x \<in> set new. dv_Priority x \<in> set PriorityOrder)
    \<and> (\<forall>p. length (filter (\<lambda>x. dv_Priority x = p) new) \<le> length (concat (map snd (filter (\<lambda>x. priorityOfStream q (fst x) = p) ss))))"
  have "hoare (\<lambda>_. \<exists>new. out' = out @ new \<and> length new \<le> length (concat (map snd [x])) \<and> (\<forall>y \<in> set new. dv_Priority y = priorityOfStream q (fst x)))
      (append_streams R C q ss out') (\<lambda>out' _. \<exists>new. out' = out @ new \<and> ?P (x # ss) new)" for out'
  proof (rule hoareI, elim exE conjE)
    fix w new
    assume new: "out' = out @ new" "length new \<le> length (concat (map snd [x]))" "\<forall>y \<in> set new. dv_Priority y = priorityOfStream q (fst x)"
    from Cons.IH [of out'] obtain more where
      more: "fst (run_state (append_streams R C q ss out') w) = out' @ more" "?P ss more" unfolding hoare_def by blast
    have one: "filter (\<lambda>y. dv_Priority y = p) new = (if p = priorityOfStream q (fst x) then new else [])" for p
      using new(3) by (auto simp: filter_id_conv filter_empty_conv)
    with new more one priorityOfStream_order [of q "fst x"] have "?P (x # ss) (new @ more)" by (auto simp: add_le_mono)
    with new(1) more(1) show "\<exists>new. fst (run_state (append_streams R C q ss out') w) = out @ new \<and> ?P (x # ss) new" by auto
  qed
  then show ?case
    unfolding append_streams.simps appendDeliveries_def by (rule hoare_bind [OF append_messages_result])
qed

lemma distinct_streams: "distinct (map (streamKey q) PriorityOrder)"
  by (simp add: PriorityOrder_def streamKey_def PriorityHigh_def PriorityDefault_def PriorityLow_def)

lemma one_stream_each:
  assumes "read_ok (map (streamKey q) PriorityOrder) mx (Inr streams)"
  shows "length (concat (map snd (filter (\<lambda>x. priorityOfStream q (fst x) = p) streams))) \<le> nat mx"
proof -
  let ?f = "filter (\<lambda>x. priorityOfStream q (fst x) = p) streams"
  have keys: "fst x = streamKey q p" if "x \<in> set ?f" for x
  proof -
    from that assms obtain p' where "p' \<in> set PriorityOrder" "fst x = streamKey q p'" by (auto simp: read_ok_def)
    with that stream_priority [of p' q] show ?thesis by simp
  qed
  have "distinct (map fst ?f)" using assms by (simp add: read_ok_def distinct_map_filter)
  then have d: "distinct ?f" "inj_on fst (set ?f)" by (simp_all add: distinct_map)
  have each: "\<forall>x \<in> set ?f. length (snd x) \<le> nat mx" using assms by (simp add: read_ok_def)
  show ?thesis
  proof (cases ?f)
    case Nil
    then show ?thesis by simp
  next
    case (Cons x xs)
    have "xs = []"
    proof (rule ccontr)
      assume "xs \<noteq> []"
      then obtain y ys where "xs = y # ys" by (cases xs) auto
      then have "y \<in> set ?f" "x \<in> set ?f" "x \<noteq> y" using Cons d(1) by auto
      with keys d(2) show False by (metis inj_onD)
    qed
    then show ?thesis using Cons each by simp
  qed
qed

lemma Fetch_result:
  assumes "0 \<le> mx"
  shows "hoare (\<lambda>_. True) (Fetch R C q consumer mx block)
    (\<lambda>a _. fetched_ok mx (fst a) \<and> (int (length (fst a)) \<le> mx \<and> ordered_by PriorityOrder (fst a) \<or> 0 < block))"
proof -
  let ?Q = "\<lambda>a. fetched_ok mx (fst a) \<and> (int (length (fst a)) \<le> mx \<and> ordered_by PriorityOrder (fst a) \<or> 0 < block)"
  have more: "hoare (\<lambda>_. read_ok (map (streamKey q) PriorityOrder) mx r)
      (case r of
         Inl e \<Rightarrow> pass ([], Some (ErrorfW ''queue: blocking fetch: '' e))
       | Inr streams \<Rightarrow> do { out' \<leftarrow> append_streams R C q streams []; pass (out', None) }) (\<lambda>a _. ?Q a)"
    if "0 < block" for r
  proof (cases r)
    case (Inl e)
    with assms that show ?thesis by (simp add: hoare_def pass_def fetched_ok_def)
  next
    case (Inr streams)
    show ?thesis
    proof (rule hoareI)
      fix w assume ok: "read_ok (map (streamKey q) PriorityOrder) mx r"
      then have len: "length (concat (map snd streams)) \<le> 3 * nat mx" by (simp add: read_ok_def Inr PriorityOrder_def)
      obtain new where new: "fst (run_state (append_streams R C q streams []) w) = new" "length new \<le> length (concat (map snd streams))"
        "\<forall>x \<in> set new. dv_Priority x \<in> set PriorityOrder"
        "\<And>p. length (filter (\<lambda>x. dv_Priority x = p) new) \<le> length (concat (map snd (filter (\<lambda>x. priorityOfStream q (fst x) = p) streams)))"
        using append_streams_result [of C q streams "[]"] unfolding hoare_def by auto
      have "int (length (filter (\<lambda>x. dv_Priority x = p) new)) \<le> mx" for p
        using new(4) [of p] one_stream_each [OF ok [unfolded Inr], of p] assms by linarith
      moreover have "int (length new) \<le> 3 * mx" using new(2) len assms by linarith
      ultimately have "fetched_ok mx new" using new(3) by (simp add: fetched_ok_def)
      with that new(1) show "?Q (fst (run_state (case r of
           Inl e \<Rightarrow> pass ([], Some (ErrorfW ''queue: blocking fetch: '' e))
         | Inr streams \<Rightarrow> do { out' \<leftarrow> append_streams R C q streams []; pass (out', None) }) w))"
        by (simp add: Inr pass_def case_prod_beta)
    qed
  qed
  have "hoare (\<lambda>_. \<exists>new. fst a = [] @ new \<and> ordered_by PriorityOrder new \<and> int (length (fst a)) \<le> mx)
      (case a of (out, err, early) \<Rightarrow>
         if early \<or> length out > 0 \<or> block \<le> 0 then pass (out, err)
         else do {
           r \<leftarrow> rcmd (xreadgroup R Group consumer (map (streamKey q) PriorityOrder) mx);
           (case r of
              Inl e \<Rightarrow> pass (out, Some (ErrorfW ''queue: blocking fetch: '' e))
            | Inr streams \<Rightarrow> do { out' \<leftarrow> append_streams R C q streams out; pass (out', None) }) })
      (\<lambda>a _. ?Q a)" for a :: "delivery list \<times> error \<times> bool"
  proof -
    obtain out err early where a: "a = (out, err, early)" by (cases a)
    show ?thesis
    proof (cases "early \<or> length out > 0 \<or> block \<le> 0")
      case True
      with assms fetched_ok_ready show ?thesis by (auto simp: a hoare_def pass_def)
    next
      case False
      then have "out = []" "0 < block" by auto
      with False hoare_True [OF hoare_bind [OF rcmd_read_ok [OF distinct_streams] more]] show ?thesis by (simp add: a)
    qed
  qed
  then show ?thesis
    unfolding Fetch_def
    by (intro hoare_bind [OF fetch_ready_result]) (use assms in simp_all)
qed

end

text \<open>A fetch that finds something in its first pass does not block.\<close>

lemma Fetch_ready:
  assumes "run_state (fetch_ready R C q consumer mx PriorityOrder []) w = ((ready, err, early), w1)" and "ready \<noteq> []"
  shows "run_state (Fetch R C q consumer mx block) w = ((ready, err), w1)"
  using assms by (simp add: Fetch_def pass_def)

text \<open>
  C22. A fetch is bounded and ordered. Whether it may block or not, a fetch returns at most \<^verbatim>\<open>max\<close> deliveries of each
  priority, so three times \<^verbatim>\<open>max\<close> in all, and only of priorities of the queue. When it does not block, because it may
  not or because its first pass over the streams found something, it returns at most \<^verbatim>\<open>max\<close> in all, the high
  priority ones before the default ones before the low ones. Only the blocking read, whose count applies to each
  of the three streams, may return more.
\<close>

theorem Fetch_bounded:
  assumes "redis_service R issued" and "0 \<le> mx" and "run_state (Fetch R C q consumer mx block) w = ((out, err), w')"
  shows "int (length out) \<le> 3 * mx \<and> (\<forall>x \<in> set out. dv_Priority x \<in> set PriorityOrder)
    \<and> (\<forall>p. int (length (filter (\<lambda>x. dv_Priority x = p) out)) \<le> mx)
    \<and> (block \<le> 0 \<or> fst (fst (run_state (fetch_ready R C q consumer mx PriorityOrder []) w)) \<noteq> [] \<longrightarrow>
        int (length out) \<le> mx \<and> ordered_by PriorityOrder out)"
proof -
  have r: "fetched_ok mx out \<and> (int (length out) \<le> mx \<and> ordered_by PriorityOrder out \<or> 0 < block)"
    using hoareD [OF redis_service.Fetch_result [OF assms(1,2)] _ assms(3)] by simp
  obtain ready e early w1 where p: "run_state (fetch_ready R C q consumer mx PriorityOrder []) w = ((ready, e, early), w1)"
    by (metis prod.exhaust)
  have "int (length out) \<le> mx \<and> ordered_by PriorityOrder out" if "ready \<noteq> []"
  proof -
    have "out = ready" using Fetch_ready [OF p that, of block] assms(3) by simp
    moreover have "distinct PriorityOrder"
      by (simp add: PriorityOrder_def PriorityHigh_def PriorityDefault_def PriorityLow_def)
    then have "ordered_by PriorityOrder ready \<and> int (length ready) \<le> mx"
      using hoareD [OF redis_service.fetch_ready_result [OF assms(1)] _ p] assms(2) by simp
    ultimately show ?thesis by simp
  qed
  with r p show ?thesis by (auto simp: fetched_ok_def)
qed

theorem Fetch_bounded_witness:
  "\<exists>out err w'. run_state (Fetch redis_mem frame_codec demo_queue ''w1'' 1 0) demo_submitted = ((out, err), w')
     \<and> length out \<le> 1 \<and> ordered_by PriorityOrder out"
proof -
  obtain out err w' where r: "run_state (Fetch redis_mem frame_codec demo_queue ''w1'' 1 0) demo_submitted = ((out, err), w')"
    by (metis prod.exhaust)
  from Fetch_bounded [OF mem.redis_service_axioms _ this] r show ?thesis by fastforce
qed

section \<open>Promotion\<close>

context redis_service
begin

lemma promote_fold:
  "\<exists>es. xrange R (fold (\<lambda>m s. zrem R dk m (snd (xadd R sk [(''j'', m)] s))) due s) = (xrange R s)(sk := xrange R s sk @ es)
     \<and> map snd es = map (\<lambda>m. [(''j'', m)]) due
     \<and> zmembers R (fold (\<lambda>m s. zrem R dk m (snd (xadd R sk [(''j'', m)] s))) due s) dk = zmembers R s dk - set due
     \<and> (\<forall>k. k \<noteq> dk \<longrightarrow> zrange R (fold (\<lambda>m s. zrem R dk m (snd (xadd R sk [(''j'', m)] s))) due s) k = zrange R s k)
     \<and> kv_get R (fold (\<lambda>m s. zrem R dk m (snd (xadd R sk [(''j'', m)] s))) due s) = kv_get R s"
proof (induction due arbitrary: s)
  case Nil
  show ?case by (rule exI [of _ "[]"]) simp
next
  case (Cons m due)
  obtain i s1 where x: "xadd R sk [(''j'', m)] s = (i, s1)" by fastforce
  let ?s2 = "zrem R dk m s1"
  note e = xadd_entries [OF x]
  have z: "zmembers R ?s2 dk = zmembers R s dk - {m}" "\<And>k. k \<noteq> dk \<Longrightarrow> zrange R ?s2 k = zrange R s k"
    "xrange R ?s2 = xrange R s1" "kv_get R ?s2 = kv_get R s"
    using zrem_members [of dk m s1] zrem_other [of _ dk m s1] zrem_rest [of dk m s1] e by (auto simp: zmembers_def)
  from Cons.IH [of ?s2] obtain es where es:
    "xrange R (fold (\<lambda>m s. zrem R dk m (snd (xadd R sk [(''j'', m)] s))) due ?s2) = (xrange R ?s2)(sk := xrange R ?s2 sk @ es)"
    "map snd es = map (\<lambda>m. [(''j'', m)]) due"
    "zmembers R (fold (\<lambda>m s. zrem R dk m (snd (xadd R sk [(''j'', m)] s))) due ?s2) dk = zmembers R ?s2 dk - set due"
    "\<forall>k. k \<noteq> dk \<longrightarrow> zrange R (fold (\<lambda>m s. zrem R dk m (snd (xadd R sk [(''j'', m)] s))) due ?s2) k = zrange R ?s2 k"
    "kv_get R (fold (\<lambda>m s. zrem R dk m (snd (xadd R sk [(''j'', m)] s))) due ?s2) = kv_get R ?s2" by blast
  show ?case
    by (rule exI [of _ "(i, [(''j'', m)]) # es"]) (use es z e in \<open>auto simp: x\<close>)
qed

end

text \<open>
  Promotion moves exactly the due envelopes. The script takes at most the batch of members whose
  score has come, appends one entry for each of them to the stream behind everything that was there,
  in their order, removes them from the delayed set and touches no other key.
\<close>

lemma promote_moves_due:
  assumes "redis_service R issued" and "promoteScript R dk sk now batch s = (due, s')"
  shows "length due \<le> batch \<and> (\<forall>m \<in> set due. \<exists>sc \<le> now. (m, sc) \<in> set (zrange R s dk))
    \<and> zmembers R s' dk = zmembers R s dk - set due \<and> (\<forall>k. k \<noteq> dk \<longrightarrow> zrange R s' k = zrange R s k)
    \<and> (\<exists>es. xrange R s' = (xrange R s)(sk := xrange R s sk @ es) \<and> map snd es = map (\<lambda>m. [(''j'', m)]) due)
    \<and> kv_get R s' = kv_get R s"
proof -
  have due: "due = zrangebyscore R dk now batch s"
    and s': "s' = fold (\<lambda>m s. zrem R dk m (snd (xadd R sk [(''j'', m)] s))) due s"
    using assms(2) by (auto simp: promoteScript_def Let_def)
  note f = redis_service.promote_fold [OF assms(1), of dk sk due s, folded s']
  have "length due \<le> batch" unfolding due by (rule redis_service.zrangebyscore_length [OF assms(1)])
  moreover have "\<forall>m \<in> set due. \<exists>sc \<le> now. (m, sc) \<in> set (zrange R s dk)"
    unfolding due using redis_service.zrangebyscore_due [OF assms(1)] by blast
  ultimately show ?thesis using f by blast
qed

end
