(* ===== verification/Pool.thy ===== *)
theory Pool
  imports Queue_Props Runner_Props "HOL-Library.Word"
begin

text \<open>
  The worker's pool, \<^verbatim>\<open>internal/worker/pool.go\<close>, and the row a worker publishes about itself,
  \<^verbatim>\<open>internal/worker/worker.go\<close>. The goroutines of running jobs are a list of deliveries; the fetch
  loop, the completions, the resizes and the pauses are events in any order.
\<close>

section \<open>The pool\<close>

text \<open>\<open>pl_errBackoff\<close> is the local variable of \<^verbatim>\<open>Run\<close>.\<close>

record pool =
  pl_batchMax :: int
  pl_target :: int
  pl_active :: int
  pl_paused :: bool
  pl_processed :: "64 word"
  pl_errBackoff :: duration

definition NewPool :: "int \<Rightarrow> int \<Rightarrow> pool" where
  "NewPool initial batchMax =
    \<lparr> pl_batchMax = batchMax, pl_target = initial, pl_active = 0, pl_paused = False, pl_processed = 0,
      pl_errBackoff = 0 \<rparr>"

definition SetTarget :: "int \<Rightarrow> pool \<Rightarrow> pool" where
  "SetTarget n p = p\<lparr>pl_target := max 1 n\<rparr>"

definition SetPaused :: "bool \<Rightarrow> pool \<Rightarrow> pool" where
  "SetPaused v p = p\<lparr>pl_paused := v\<rparr>"

text \<open>How many deliveries an iteration asks for; \<open>None\<close> when it waits instead.\<close>

definition pool_ask :: "pool \<Rightarrow> int option" where
  "pool_ask p =
    (if pl_paused p then None
     else let free = pl_target p - pl_active p in
       if free \<le> 0 then None else Some (if free > pl_batchMax p then pl_batchMax p else free))"

datatype iteration =
    Breaks
  | BacksOff duration
  | Dispatches "delivery list"

text \<open>
  The rest of an iteration of \<^verbatim>\<open>Run\<close>, once the fetch has answered: \<open>stopped\<close> is whether the fetch
  context has ended by then. Jobs may finish and the target may change while the fetch blocks.
\<close>

definition pool_answer :: "delivery list \<times> error \<Rightarrow> bool \<Rightarrow> pool \<Rightarrow> iteration \<times> pool" where
  "pool_answer fetched stopped p =
    (case fetched of
       (_, Some e) \<Rightarrow>
         if stopped then (Breaks, p)
         else let b = (if pl_errBackoff p < 5 * second then pl_errBackoff p + 500 * millisecond
                       else pl_errBackoff p) in
           (BacksOff b, p\<lparr>pl_errBackoff := b\<rparr>)
     | (ds, None) \<Rightarrow>
         (Dispatches ds, p\<lparr>pl_errBackoff := 0, pl_active := pl_active p + int (length ds)\<rparr>))"

text \<open>The deferred function of a job's goroutine.\<close>

definition pool_done :: "pool \<Rightarrow> pool" where
  "pool_done p = p\<lparr>pl_active := pl_active p - 1, pl_processed := pl_processed p + 1\<rparr>"

section \<open>The row of a worker\<close>

definition heartbeat_row :: "string \<Rightarrow> string \<Rightarrow> int \<Rightarrow> string \<Rightarrow> pool \<Rightarrow> worker_info" where
  "heartbeat_row i host pid st p =
    \<lparr> i_ID = i, i_Hostname = host, i_PID = pid, i_Concurrency = pl_active p, i_TargetConcurrency = pl_target p,
      i_ActiveJobs = pl_active p, i_Processed = sint (pl_processed p), i_State = st \<rparr>"

definition worker_upsert :: "string \<Rightarrow> string \<Rightarrow> int \<Rightarrow> string \<Rightarrow> pool \<Rightarrow> ('r, unit) prog" where
  "worker_upsert i host pid st p = do {
    _ \<leftarrow> db1 (\<lambda>ft. UpsertWorker ft (heartbeat_row i host pid st p));
    pass () }"

definition finalHeartbeat :: "string \<Rightarrow> string \<Rightarrow> int \<Rightarrow> pool \<Rightarrow> ('r, unit) prog" where
  "finalHeartbeat i host pid p = worker_upsert i host pid ''draining'' p"

text \<open>The loop of heartbeats, for the states the pool is in at each tick.\<close>

fun heartbeatLoop :: "string \<Rightarrow> string \<Rightarrow> int \<Rightarrow> pool list \<Rightarrow> ('r, unit) prog" where
  "heartbeatLoop i host pid [] = pass ()"
| "heartbeatLoop i host pid (p # ps) = do { worker_upsert i host pid ''active'' p; heartbeatLoop i host pid ps }"

section \<open>The bound\<close>

text \<open>
  A run of the pool with its running jobs \<open>rs\<close>, the largest target so far \<open>m\<close> and the fetch under way
  \<open>q\<close>, where a fetch answers at most \<open>k\<close> times what it is asked for.
\<close>

inductive pool_run :: "nat \<Rightarrow> pool \<Rightarrow> pool \<Rightarrow> delivery list \<Rightarrow> int \<Rightarrow> int option \<Rightarrow> bool" for k p0 where
  pool_start: "pool_run k p0 p0 [] (pl_target p0) None"
| pool_fetch: "pool_run k p0 p rs m None \<Longrightarrow> pool_ask p = Some n \<Longrightarrow> pool_run k p0 p rs m (Some n)"
| pool_fetched: "pool_run k p0 p rs m (Some n) \<Longrightarrow> pool_answer (ds, err) stopped p = (it, p') \<Longrightarrow>
    int (length ds) \<le> int k * n \<Longrightarrow>
    pool_run k p0 p' ((case it of Dispatches xs \<Rightarrow> xs | _ \<Rightarrow> []) @ rs) m None"
| pool_finish: "pool_run k p0 p rs m q \<Longrightarrow> d \<in> set rs \<Longrightarrow> pool_run k p0 (pool_done p) (remove1 d rs) m q"
| pool_resize: "pool_run k p0 p rs m q \<Longrightarrow> pool_run k p0 (SetTarget n p) rs (max m (max 1 n)) q"
| pool_pause: "pool_run k p0 p rs m q \<Longrightarrow> pool_run k p0 (SetPaused v p) rs m q"

text \<open>The backoff grows by half seconds from nothing, so it never passes five seconds.\<close>

definition backoff_ok :: "duration \<Rightarrow> bool" where
  "backoff_ok b = (\<exists>j :: nat. j \<le> 10 \<and> b = int j * (500 * millisecond))"

lemma backoff_ok_0: "backoff_ok 0"
  unfolding backoff_ok_def by (rule exI [of _ 0]) simp

lemma backoff_ok_grow: "backoff_ok b \<Longrightarrow> b < 5 * second \<Longrightarrow> backoff_ok (b + 500 * millisecond)"
  unfolding backoff_ok_def by (elim exE conjE, rule_tac x = "Suc j" in exI) auto

lemma pool_ask_Some: "pool_ask p = Some n \<Longrightarrow> n \<le> pl_target p - pl_active p"
  by (auto simp: pool_ask_def Let_def split: if_splits)

definition pool_ok :: "nat \<Rightarrow> pool \<Rightarrow> delivery list \<Rightarrow> int \<Rightarrow> int option \<Rightarrow> bool" where
  "pool_ok k p rs m q = (pl_active p = int (length rs) \<and> int (length rs) \<le> int k * m \<and> pl_target p \<le> m
    \<and> 1 \<le> pl_target p \<and> backoff_ok (pl_errBackoff p)
    \<and> (\<forall>n. q = Some n \<longrightarrow> int (length rs) + int k * n \<le> int k * m))"

lemma pool_ok_fetch:
  assumes "pool_ok k p rs m None" and "1 \<le> k" and "pool_ask p = Some n"
  shows "pool_ok k p rs m (Some n)"
proof -
  have "n \<le> m - int (length rs)" using pool_ask_Some [OF assms(3)] assms(1) by (simp add: pool_ok_def)
  then have "int k * n \<le> int k * (m - int (length rs))" by (intro mult_left_mono) simp_all
  moreover have "int (length rs) \<le> int k * int (length rs)" using assms(2) by (simp add: mult_le_cancel_right1)
  ultimately have "int (length rs) + int k * n \<le> int k * m" by (simp add: right_diff_distrib)
  with assms(1) show ?thesis by (simp add: pool_ok_def)
qed

lemma pool_ok_fetched:
  assumes "pool_ok k p rs m (Some n)" and "pool_answer (ds, err) stopped p = (it, p')" and "int (length ds) \<le> int k * n"
  shows "pool_ok k p' ((case it of Dispatches xs \<Rightarrow> xs | _ \<Rightarrow> []) @ rs) m None"
proof (cases err)
  case None
  with assms show ?thesis by (auto simp: pool_ok_def pool_answer_def backoff_ok_0)
next
  case (Some e)
  have "backoff_ok (if pl_errBackoff p < 5 * second then pl_errBackoff p + 500 * millisecond else pl_errBackoff p)"
    using assms(1) backoff_ok_grow unfolding pool_ok_def by presburger
  with Some assms show ?thesis by (auto simp: pool_ok_def pool_answer_def Let_def split: if_split_asm)
qed

lemma pool_ok_resize:
  assumes "pool_ok k p rs m q"
  shows "pool_ok k (SetTarget n p) rs (max m (max 1 n)) q"
proof -
  have "int k * m \<le> int k * max m (max 1 n)" by (intro mult_left_mono) simp_all
  with assms show ?thesis by (auto simp: pool_ok_def SetTarget_def)
qed

lemma pool_run_ok:
  "pool_run k p0 p rs m q \<Longrightarrow> p0 = NewPool initial batchMax \<Longrightarrow> 1 \<le> k \<Longrightarrow> 1 \<le> initial \<Longrightarrow> pool_ok k p rs m q"
proof (induction rule: pool_run.induct)
  case pool_start
  then show ?case by (simp add: NewPool_def pool_ok_def backoff_ok_0)
next
  case (pool_finish p rs m q d)
  then obtain j where "length rs = Suc j" by (cases rs) auto
  with pool_finish show ?case by (auto simp: pool_done_def pool_ok_def length_remove1)
next
  case (pool_pause p rs m q v)
  then show ?case by (simp add: pool_ok_def SetPaused_def)
qed (blast intro: pool_ok_fetch pool_ok_fetched pool_ok_resize)+

text \<open>
  C23. The pool is bounded. Along any interleaving of fetches, completions, resizes and pauses, the counter of
  active jobs is the number of running jobs and never exceeds \<open>k\<close> times the largest target set so
  far, when a fetch answers at most \<open>k\<close> times what it is asked for (\<open>k = 1\<close> for a fetch that does not
  block, \<open>k = 3\<close> for one that may, by the bound on \<^verbatim>\<open>Fetch\<close>); the target stays at least one and the
  pause after a failed fetch at most five seconds.
\<close>

theorem pool_bounded:
  assumes "pool_run k (NewPool initial batchMax) p rs m q" and "1 \<le> k" and "1 \<le> initial"
  shows "pl_active p = int (length rs) \<and> int (length rs) \<le> int k * m \<and> 1 \<le> pl_target p \<and> pl_target p \<le> m
    \<and> 0 \<le> pl_errBackoff p \<and> pl_errBackoff p \<le> 5 * second"
  using pool_run_ok [OF assms(1) refl assms(2,3)] by (auto simp: pool_ok_def backoff_ok_def)

definition demo_pool :: pool where
  "demo_pool = NewPool 1 4"

text \<open>A pool of target one that asks for one delivery and, from a blocking read, is given three.\<close>

lemma demo_pool_run:
  "pool_run 3 demo_pool (snd (pool_answer ([demo_delivery, demo_delivery, demo_delivery], None) False demo_pool))
    [demo_delivery, demo_delivery, demo_delivery] 1 None"
proof -
  have "pool_run 3 demo_pool demo_pool [] 1 None" using pool_start [of 3 demo_pool] by (simp add: demo_pool_def NewPool_def)
  moreover have "pool_ask demo_pool = Some 1" by (simp add: demo_pool_def NewPool_def pool_ask_def)
  ultimately have "pool_run 3 demo_pool demo_pool [] 1 (Some 1)" by (rule pool_fetch)
  from pool_fetched [OF this, of "[demo_delivery, demo_delivery, demo_delivery]" None False] show ?thesis
    by (simp add: pool_answer_def)
qed

theorem pool_bounded_witness:
  "\<exists>p. pool_run 3 (NewPool 1 4) p [demo_delivery, demo_delivery, demo_delivery] 1 None
     \<and> pl_active p = 3 \<and> 1 \<le> pl_target p \<and> pl_errBackoff p \<le> 5 * second"
  using demo_pool_run [unfolded demo_pool_def] pool_bounded [OF demo_pool_run [unfolded demo_pool_def]] by auto

end
