(* ===== verification/Scale.thy ===== *)
theory Scale
  imports Pool "HOL-Library.Signed_Division"
begin

text \<open>
  The autoscaler, \<^verbatim>\<open>internal/scale/autoscaler.go\<close>. The pool it steers is a parameter, as the Go
  interface \<^verbatim>\<open>Pool\<close> is: its three methods are arguments, their contract a locale, and the worker's
  pool an instance. \<^verbatim>\<open>GrowAt\<close> is a rational number: the comparison of the floating-point numbers is
  exact for the ratios the program uses (powers of two) and counts below \<open>2 ^ 53\<close>.
\<close>

section \<open>The policy\<close>

record scale_config =
  sc_Min :: int
  sc_Max :: int
  sc_Interval :: duration
  sc_GrowAt :: rat
  sc_IdleAfter :: int

definition DefaultConfig :: "int \<Rightarrow> int \<Rightarrow> scale_config" where
  "DefaultConfig mn mx =
    \<lparr> sc_Min = mn, sc_Max = mx, sc_Interval = 3 * second, sc_GrowAt = 2, sc_IdleAfter = 5 \<rparr>"

record autoscaler =
  as_Cfg :: scale_config
  as_idleTicks :: int

definition Next :: "autoscaler \<Rightarrow> int \<Rightarrow> int \<Rightarrow> int \<Rightarrow> int \<times> autoscaler" where
  "Next a ready active target =
    (if target < sc_Min (as_Cfg a) then (sc_Min (as_Cfg a), a)
     else if of_int ready \<ge> sc_GrowAt (as_Cfg a) * of_int target then
       (min (wrap64 (target + max 1 (target sdiv 2))) (sc_Max (as_Cfg a)), a\<lparr>as_idleTicks := 0\<rparr>)
     else if ready = 0 \<and> active < target then
       (let n = wrap64 (as_idleTicks a + 1) in
        if n \<ge> sc_IdleAfter (as_Cfg a) then (max (sc_Min (as_Cfg a)) (target - 1), a\<lparr>as_idleTicks := 0\<rparr>)
        else (target, a\<lparr>as_idleTicks := n\<rparr>))
     else (target, a\<lparr>as_idleTicks := 0\<rparr>))"

text \<open>
  One tick of \<^verbatim>\<open>Run\<close>, over the methods of the pool; \<open>None\<close> is a failed reading of the depths.
\<close>

definition scale_tick ::
  "('p \<Rightarrow> int) \<Rightarrow> ('p \<Rightarrow> int) \<Rightarrow> (int \<Rightarrow> 'p \<Rightarrow> 'p) \<Rightarrow> int option \<Rightarrow> autoscaler \<times> 'p \<Rightarrow> autoscaler \<times> 'p"
where
  "scale_tick act tgt set_tgt depth ap =
    (case depth of
       None \<Rightarrow> ap
     | Some ready \<Rightarrow>
         (case Next (fst ap) ready (act (snd ap)) (tgt (snd ap)) of
            (next, a') \<Rightarrow> (a', if next \<noteq> tgt (snd ap) then set_tgt next (snd ap) else snd ap)))"

text \<open>
  The loop. Before each tick the pool makes progress of its own: its jobs start and finish.
\<close>

fun scale_run ::
  "('p \<Rightarrow> int) \<Rightarrow> ('p \<Rightarrow> int) \<Rightarrow> (int \<Rightarrow> 'p \<Rightarrow> 'p) \<Rightarrow> (('p \<Rightarrow> 'p) \<times> int option) list \<Rightarrow> autoscaler \<times> 'p \<Rightarrow>
    autoscaler \<times> 'p"
where
  "scale_run act tgt set_tgt [] ap = ap"
| "scale_run act tgt set_tgt ((g, depth) # es) ap =
    scale_run act tgt set_tgt es (scale_tick act tgt set_tgt depth (fst ap, g (snd ap)))"

section \<open>One decision\<close>

definition scale_ok :: "scale_config \<Rightarrow> bool" where
  "scale_ok c = (1 \<le> sc_Min c \<and> sc_Min c \<le> sc_Max c \<and> sc_Max c \<le> 2 ^ 62 \<and> 0 < sc_GrowAt c
    \<and> 1 \<le> sc_IdleAfter c \<and> sc_IdleAfter c < 2 ^ 62)"

definition idle_ok :: "autoscaler \<Rightarrow> bool" where
  "idle_ok a = (0 \<le> as_idleTicks a \<and> as_idleTicks a < sc_IdleAfter (as_Cfg a))"

definition grown :: "int \<Rightarrow> int" where
  "grown t = t + max 1 (t div 2)"

lemma grown_wrap: "1 \<le> t \<Longrightarrow> t \<le> 2 ^ 62 \<Longrightarrow> wrap64 (t + max 1 (t sdiv 2)) = grown t"
  by (subst wrap64_id) (auto simp: grown_def signed_divide_int_def)

lemma Next_Cfg: "Next a ready active target = (next, a') \<Longrightarrow> as_Cfg a' = as_Cfg a"
  by (auto simp: Next_def Let_def split: if_splits)

lemma idle_wrap: "scale_ok (as_Cfg a) \<Longrightarrow> idle_ok a \<Longrightarrow> wrap64 (as_idleTicks a + 1) = as_idleTicks a + 1"
  by (rule wrap64_id) (auto simp: scale_ok_def idle_ok_def)

lemma Next_idle_ok:
  "Next a ready active target = (next, a') \<Longrightarrow> scale_ok (as_Cfg a) \<Longrightarrow> idle_ok a \<Longrightarrow> idle_ok a'"
  by (auto simp: Next_def Let_def idle_ok_def scale_ok_def idle_wrap split: if_splits)

lemma Next_range:
  assumes "Next a ready active target = (next, a')" and "scale_ok (as_Cfg a)" and "target \<le> sc_Max (as_Cfg a)"
  shows "sc_Min (as_Cfg a) \<le> next \<and> next \<le> sc_Max (as_Cfg a)"
proof (cases "target < sc_Min (as_Cfg a)")
  case True
  with assms show ?thesis by (auto simp: Next_def scale_ok_def)
next
  case False
  with assms have "wrap64 (target + max 1 (target sdiv 2)) = grown target"
    by (intro grown_wrap) (auto simp: scale_ok_def)
  moreover have "target \<le> grown target" by (simp add: grown_def)
  ultimately show ?thesis using False assms by (auto simp: Next_def Let_def scale_ok_def split: if_splits)
qed

text \<open>A decision lowers the target only after enough idle observations, by one.\<close>

lemma Next_shrink:
  assumes "Next a ready active target = (next, a')" and "scale_ok (as_Cfg a)" and "idle_ok a"
    and "target \<le> sc_Max (as_Cfg a)" and "next < target"
  shows "next = target - 1 \<and> ready = 0 \<and> active < target \<and> as_idleTicks a + 1 = sc_IdleAfter (as_Cfg a)"
proof -
  have m: "\<not> target < sc_Min (as_Cfg a)" using assms by (auto simp: Next_def)
  with assms have g: "wrap64 (target + max 1 (target sdiv 2)) = grown target"
    by (intro grown_wrap) (auto simp: scale_ok_def)
  have "target \<le> grown target" by (simp add: grown_def)
  with m g idle_wrap [OF assms(2,3)] assms show ?thesis
    by (auto simp: Next_def Let_def scale_ok_def idle_ok_def split: if_splits)
qed

lemma Next_busy:
  assumes "scale_ok (as_Cfg a)" and "sc_Min (as_Cfg a) \<le> target" and "target \<le> sc_Max (as_Cfg a)"
    and "sc_GrowAt (as_Cfg a) * of_int (sc_Max (as_Cfg a)) \<le> of_int ready"
  shows "fst (Next a ready active target) = min (grown target) (sc_Max (as_Cfg a))"
proof -
  have "sc_GrowAt (as_Cfg a) * of_int target \<le> sc_GrowAt (as_Cfg a) * of_int (sc_Max (as_Cfg a))"
    using assms(1,3) by (intro mult_left_mono) (auto simp: scale_ok_def)
  then have "sc_GrowAt (as_Cfg a) * of_int target \<le> of_int ready" using assms(4) by linarith
  moreover have "wrap64 (target + max 1 (target sdiv 2)) = grown target"
    using assms by (intro grown_wrap) (auto simp: scale_ok_def)
  ultimately show ?thesis using assms(2) by (simp add: Next_def)
qed

lemma grown_growth: "1 \<le> t \<Longrightarrow> 4 * t \<le> 3 * grown t"
  unfolding grown_def by (cases "t = 1") (auto simp: max_def)

lemma growth_step:
  assumes "4 * t \<le> 3 * u" and "(4 :: int) ^ n * u \<le> 3 ^ n * v"
  shows "4 ^ Suc n * t \<le> 3 ^ Suc n * v"
proof -
  have "4 ^ n * (4 * t) \<le> 4 ^ n * (3 * u)" using assms(1) by (intro mult_left_mono) simp_all
  also have "\<dots> \<le> 3 * (3 ^ n * v)" using assms(2) by simp
  finally show ?thesis by (simp add: mult_ac)
qed

lemma Next_idle:
  assumes "scale_ok (as_Cfg a)" and "idle_ok a" and "sc_Min (as_Cfg a) \<le> target" and "active < target"
  shows "Next a 0 active target =
    (if as_idleTicks a + 1 = sc_IdleAfter (as_Cfg a) then (max (sc_Min (as_Cfg a)) (target - 1), a\<lparr>as_idleTicks := 0\<rparr>)
     else (target, a\<lparr>as_idleTicks := as_idleTicks a + 1\<rparr>))"
proof -
  have "0 < sc_GrowAt (as_Cfg a) * of_int target"
    using assms(1,3) by (intro mult_pos_pos) (auto simp: scale_ok_def)
  with assms idle_wrap [OF assms(1,2)] show ?thesis
    by (auto simp: Next_def Let_def idle_ok_def)
qed

section \<open>Steering any pool\<close>

text \<open>
  The observations of a run: what the queue, the active jobs and the target were at each tick that
  could read the depths. Progress of the pool between two ticks leaves the target alone.
\<close>

fun scale_obs ::
  "('p \<Rightarrow> int) \<Rightarrow> ('p \<Rightarrow> int) \<Rightarrow> (int \<Rightarrow> 'p \<Rightarrow> 'p) \<Rightarrow> (('p \<Rightarrow> 'p) \<times> int option) list \<Rightarrow> autoscaler \<times> 'p \<Rightarrow>
    (int \<times> int \<times> int) list"
where
  "scale_obs act tgt set_tgt [] ap = []"
| "scale_obs act tgt set_tgt ((g, depth) # es) ap =
    (case depth of None \<Rightarrow> [] | Some ready \<Rightarrow> [(ready, act (g (snd ap)), tgt (g (snd ap)))])
    @ scale_obs act tgt set_tgt es (scale_tick act tgt set_tgt depth (fst ap, g (snd ap)))"

definition idle_obs :: "int \<times> int \<times> int \<Rightarrow> bool" where
  "idle_obs x = (case x of (ready, active, target) \<Rightarrow> ready = 0 \<and> active < target)"

definition progress :: "('p \<Rightarrow> int) \<Rightarrow> (('p \<Rightarrow> 'p) \<times> int option) list \<Rightarrow> bool" where
  "progress tgt es = (\<forall>(g, depth) \<in> set es. \<forall>p. tgt (g p) = tgt p)"

definition scale_inv :: "('p \<Rightarrow> int) \<Rightarrow> scale_config \<Rightarrow> autoscaler \<times> 'p \<Rightarrow> bool" where
  "scale_inv tgt c ap = (as_Cfg (fst ap) = c \<and> scale_ok c \<and> idle_ok (fst ap)
    \<and> sc_Min c \<le> tgt (snd ap) \<and> tgt (snd ap) \<le> sc_Max c)"

lemma progress_simps [simp]:
  "progress tgt []"
  "progress tgt ((g, depth) # es) \<longleftrightarrow> (\<forall>p. tgt (g p) = tgt p) \<and> progress tgt es"
  "progress tgt (es @ fs) \<longleftrightarrow> progress tgt es \<and> progress tgt fs"
  by (auto simp: progress_def)

lemma scale_run_append:
  "scale_run act tgt set_tgt (es @ fs) ap = scale_run act tgt set_tgt fs (scale_run act tgt set_tgt es ap)"
  by (induction act tgt set_tgt es ap rule: scale_run.induct) simp_all

lemma scale_obs_append:
  "scale_obs act tgt set_tgt (es @ fs) ap =
    scale_obs act tgt set_tgt es ap @ scale_obs act tgt set_tgt fs (scale_run act tgt set_tgt es ap)"
  by (induction act tgt set_tgt es ap rule: scale_run.induct) simp_all

locale steerable =
  fixes act :: "'p \<Rightarrow> int" and tgt :: "'p \<Rightarrow> int" and set_tgt :: "int \<Rightarrow> 'p \<Rightarrow> 'p"
  assumes tgt_set: "tgt (set_tgt n p) = max 1 n"
begin

lemma tick_tgt:
  assumes "scale_inv tgt c (a, p)"
  shows "tgt (snd (scale_tick act tgt set_tgt (Some ready) (a, p))) = fst (Next a ready (act p) (tgt p))"
    and "fst (scale_tick act tgt set_tgt (Some ready) (a, p)) = snd (Next a ready (act p) (tgt p))"
proof -
  obtain t a' where n: "Next a ready (act p) (tgt p) = (t, a')" by fastforce
  have "1 \<le> t" using Next_range [OF n] assms by (auto simp: scale_inv_def scale_ok_def)
  then show "tgt (snd (scale_tick act tgt set_tgt (Some ready) (a, p))) = fst (Next a ready (act p) (tgt p))"
    using n by (simp add: scale_tick_def tgt_set)
  show "fst (scale_tick act tgt set_tgt (Some ready) (a, p)) = snd (Next a ready (act p) (tgt p))"
    using n by (simp add: scale_tick_def)
qed

lemma tick_inv:
  assumes "scale_inv tgt c (a, p)"
  shows "scale_inv tgt c (scale_tick act tgt set_tgt depth (a, p))"
proof (cases depth)
  case None
  with assms show ?thesis by (simp add: scale_tick_def)
next
  case (Some ready)
  obtain t a' where n: "Next a ready (act p) (tgt p) = (t, a')" by fastforce
  with assms have "sc_Min c \<le> t \<and> t \<le> sc_Max c" "as_Cfg a' = c" "idle_ok a'"
    using Next_range [OF n] Next_Cfg [OF n] Next_idle_ok [OF n] by (auto simp: scale_inv_def)
  with n Some tick_tgt [OF assms, of ready] assms show ?thesis by (simp add: scale_inv_def)
qed

lemma progress_inv: "(\<forall>p. tgt (g p) = tgt p) \<Longrightarrow> scale_inv tgt c ap \<Longrightarrow> scale_inv tgt c (fst ap, g (snd ap))"
  by (simp add: scale_inv_def)

lemma run_inv: "scale_inv tgt c ap \<Longrightarrow> progress tgt es \<Longrightarrow> scale_inv tgt c (scale_run act tgt set_tgt es ap)"
proof (induction es arbitrary: ap)
  case (Cons e es)
  obtain g depth where "e = (g, depth)" by fastforce
  with Cons show ?case using tick_inv [OF progress_inv [of g c ap]] by simp
qed simp

text \<open>The counter of idle ticks is covered by the observations at the end of the run.\<close>

lemma run_idle_ticks:
  "scale_inv tgt c (a, p) \<Longrightarrow> as_idleTicks a = 0 \<Longrightarrow> progress tgt es \<Longrightarrow>
    as_idleTicks (fst (scale_run act tgt set_tgt es (a, p)))
      \<le> int (length (takeWhile idle_obs (rev (scale_obs act tgt set_tgt es (a, p)))))"
proof (induction es rule: rev_induct)
  case (snoc e es)
  obtain g depth where e: "e = (g, depth)" by fastforce
  obtain b r where r: "scale_run act tgt set_tgt es (a, p) = (b, r)" by fastforce
  have inv: "scale_inv tgt c (b, g r)"
    using run_inv [OF snoc.prems(1), of es] progress_inv [of g c "(b, r)"] snoc.prems(3) e r by simp
  show ?case
  proof (cases depth)
    case None
    with snoc e r show ?thesis by (simp add: scale_run_append scale_obs_append scale_tick_def)
  next
    case (Some ready)
    have "as_idleTicks (snd (Next b ready (act (g r)) (tgt (g r))))
      \<le> (if idle_obs (ready, act (g r), tgt (g r)) then as_idleTicks b + 1 else 0)"
      using inv by (auto simp: Next_def Let_def idle_obs_def scale_inv_def idle_ok_def idle_wrap)
    with snoc e r Some tick_tgt(2) [OF inv, of ready] show ?thesis
      by (auto simp: scale_run_append scale_obs_append split: if_splits)
  qed
qed simp

lemma run_shrinks:
  assumes "scale_inv tgt c (a, p)" and "as_idleTicks a = 0" and "progress tgt (es @ [e])"
    and "tgt (snd (scale_run act tgt set_tgt (es @ [e]) (a, p))) < tgt (snd (scale_run act tgt set_tgt es (a, p)))"
  shows "tgt (snd (scale_run act tgt set_tgt (es @ [e]) (a, p))) = tgt (snd (scale_run act tgt set_tgt es (a, p))) - 1
    \<and> sc_IdleAfter c \<le> int (length (takeWhile idle_obs (rev (scale_obs act tgt set_tgt (es @ [e]) (a, p)))))"
proof -
  obtain g depth where e: "e = (g, depth)" by fastforce
  obtain b r where r: "scale_run act tgt set_tgt es (a, p) = (b, r)" by fastforce
  have g: "tgt (g r) = tgt r" using assms(3) e by simp
  have inv: "scale_inv tgt c (b, g r)"
    using run_inv [OF assms(1), of es] progress_inv [of g c "(b, r)"] assms(3) e r by simp
  obtain ready where d: "depth = Some ready" using assms(4) e r g by (cases depth) (auto simp: scale_run_append scale_tick_def)
  obtain t a' where n: "Next b ready (act (g r)) (tgt (g r)) = (t, a')" by fastforce
  have "t < tgt (g r)" using assms(4) e r d n g tick_tgt(1) [OF inv, of ready] by (simp add: scale_run_append)
  with Next_shrink [OF n] inv have s: "t = tgt r - 1" "idle_obs (ready, act (g r), tgt (g r))" "as_idleTicks b + 1 = sc_IdleAfter c"
    using g by (auto simp: scale_inv_def idle_obs_def)
  have "as_idleTicks b \<le> int (length (takeWhile idle_obs (rev (scale_obs act tgt set_tgt es (a, p)))))"
    using run_idle_ticks [OF assms(1,2), of es] assms(3) r by simp
  with s e r d n tick_tgt(1) [OF inv, of ready] show ?thesis by (simp add: scale_run_append scale_obs_append)
qed

text \<open>Growth is multiplicative while the backlog lasts.\<close>

lemma run_busy:
  assumes "\<forall>x \<in> set es. \<exists>ready. snd x = Some ready \<and> sc_GrowAt c * of_int (sc_Max c) \<le> of_int ready"
    and "scale_inv tgt c ap" and "progress tgt es"
  shows "tgt (snd (scale_run act tgt set_tgt es ap)) = sc_Max c
    \<or> 4 ^ length es * tgt (snd ap) \<le> 3 ^ length es * tgt (snd (scale_run act tgt set_tgt es ap))"
  using assms
proof (induction es arbitrary: ap)
  case (Cons e es)
  obtain g ready where e: "e = (g, Some ready)" "sc_GrowAt c * of_int (sc_Max c) \<le> of_int ready"
    using Cons.prems(1) by (cases e) auto
  let ?ap = "(fst ap, g (snd ap))"
  let ?bp = "scale_tick act tgt set_tgt (Some ready) ?ap"
  have inv: "scale_inv tgt c ?ap" using progress_inv Cons.prems(2,3) e by simp
  have t: "tgt (snd ?bp) = min (grown (tgt (snd ap))) (sc_Max c)"
    using tick_tgt(1) [OF inv, of ready] Next_busy [of "fst ap" "tgt (snd ap)" ready "act (g (snd ap))"] Cons.prems(2,3) e
    by (simp add: scale_inv_def)
  have IH: "tgt (snd (scale_run act tgt set_tgt es ?bp)) = sc_Max c
    \<or> 4 ^ length es * tgt (snd ?bp) \<le> 3 ^ length es * tgt (snd (scale_run act tgt set_tgt es ?bp))"
    using Cons.IH [OF _ tick_inv [OF inv]] Cons.prems(1,3) e by simp
  have le: "tgt (snd (scale_run act tgt set_tgt es ?bp)) \<le> sc_Max c"
    using run_inv [OF tick_inv [OF inv], of es "Some ready"] Cons.prems(3) e by (simp add: scale_inv_def)
  show ?case
  proof (cases "tgt (snd ?bp) = sc_Max c")
    case True
    have "0 \<le> sc_Max c" using Cons.prems(2) by (auto simp: scale_inv_def scale_ok_def)
    then have "3 ^ length es * sc_Max c \<le> 4 ^ length es * sc_Max c" by (intro mult_right_mono power_mono) simp_all
    moreover from IH True have "tgt (snd (scale_run act tgt set_tgt es ?bp)) = sc_Max c
      \<or> 4 ^ length es * sc_Max c \<le> 3 ^ length es * tgt (snd (scale_run act tgt set_tgt es ?bp))" by simp
    ultimately have "sc_Max c \<le> tgt (snd (scale_run act tgt set_tgt es ?bp))"
      by (elim disjE) (simp, drule (1) order_trans, simp)
    with le e show ?thesis by simp
  next
    case False
    then have "3 * tgt (snd ?bp) \<ge> 4 * tgt (snd ap)"
      using t grown_growth [of "tgt (snd ap)"] Cons.prems(2) by (auto simp: scale_inv_def scale_ok_def min_def split: if_splits)
    with IH have "tgt (snd (scale_run act tgt set_tgt es ?bp)) = sc_Max c
      \<or> 4 ^ Suc (length es) * tgt (snd ap) \<le> 3 ^ Suc (length es) * tgt (snd (scale_run act tgt set_tgt es ?bp))"
      using growth_step by blast
    with e show ?thesis by simp
  qed
qed simp

text \<open>Idleness lasting \<open>k\<close> ticks takes one slot for every \<^verbatim>\<open>IdleAfter\<close> of them.\<close>

lemma run_idle:
  assumes "\<forall>x \<in> set es. snd x = Some 0 \<and> (\<forall>p. act (fst x p) < sc_Min c)"
    and "scale_inv tgt c ap" and "progress tgt es"
  shows "tgt (snd (scale_run act tgt set_tgt es ap)) =
      max (sc_Min c) (tgt (snd ap) - (as_idleTicks (fst ap) + int (length es)) div sc_IdleAfter c)"
  using assms
proof (induction es arbitrary: ap)
  case Nil
  then have "as_idleTicks (fst ap) div sc_IdleAfter c = 0" by (auto simp: scale_inv_def idle_ok_def)
  with Nil.prems show ?case by (simp add: scale_inv_def max_def)
next
  case (Cons e es)
  obtain g depth where e': "e = (g, depth)" by fastforce
  then have e: "e = (g, Some 0)" and g: "act (g (snd ap)) < sc_Min c" "tgt (g (snd ap)) = tgt (snd ap)"
    using Cons.prems(1,3) by simp_all
  let ?ap = "(fst ap, g (snd ap))"
  let ?bp = "scale_tick act tgt set_tgt (Some 0) ?ap"
  have inv: "scale_inv tgt c ?ap" using progress_inv Cons.prems(2,3) e by simp
  have nx: "Next (fst ap) 0 (act (g (snd ap))) (tgt (snd ap)) =
    (if as_idleTicks (fst ap) + 1 = sc_IdleAfter c then (max (sc_Min c) (tgt (snd ap) - 1), (fst ap)\<lparr>as_idleTicks := 0\<rparr>)
     else (tgt (snd ap), (fst ap)\<lparr>as_idleTicks := as_idleTicks (fst ap) + 1\<rparr>))"
    using Next_idle [of "fst ap" "tgt (snd ap)" "act (g (snd ap))"] Cons.prems(2) g by (auto simp: scale_inv_def)
  have IH: "tgt (snd (scale_run act tgt set_tgt es ?bp)) =
      max (sc_Min c) (tgt (snd ?bp) - (as_idleTicks (fst ?bp) + int (length es)) div sc_IdleAfter c)"
    using Cons.IH [OF _ tick_inv [OF inv]] Cons.prems(1,3) e by simp
  have "1 \<le> sc_IdleAfter c" using Cons.prems(2) by (simp add: scale_inv_def scale_ok_def)
  then have "0 \<le> int (length es) div sc_IdleAfter c" by (simp add: pos_imp_zdiv_nonneg_iff)
  with \<open>1 \<le> sc_IdleAfter c\<close> IH e g nx tick_tgt [OF inv, of 0] show ?case
    by (auto simp: max_def add.assoc [symmetric] split: if_splits)
qed

end

section \<open>Steering the worker's pool\<close>

interpretation worker_pool: steerable pl_active pl_target SetTarget
  by unfold_locales (simp add: SetTarget_def)

definition demo_scaler :: autoscaler where
  "demo_scaler = \<lparr> as_Cfg = DefaultConfig 1 4, as_idleTicks = 0 \<rparr>"

definition occupy :: "int \<Rightarrow> pool \<Rightarrow> pool" where
  "occupy n p = p\<lparr>pl_active := n\<rparr>"

lemma occupy_target [simp]: "pl_target (occupy n p) = pl_target p"
  by (simp add: occupy_def)

lemma occupy_active [simp]: "pl_active (occupy n p) = n"
  by (simp add: occupy_def)

lemma demo_scaler_ok: "scale_ok (DefaultConfig 1 4)" "idle_ok demo_scaler" "as_Cfg demo_scaler = DefaultConfig 1 4"
  by (simp_all add: scale_ok_def idle_ok_def demo_scaler_def DefaultConfig_def)

lemma demo_scaler_pool: "sc_Min (DefaultConfig 1 4) \<le> pl_target demo_pool" "pl_target demo_pool \<le> sc_Max (DefaultConfig 1 4)"
  by (simp_all add: DefaultConfig_def demo_pool_def NewPool_def)

text \<open>
  C25. Scaling up is fast. While the backlog is at least \<^verbatim>\<open>GrowAt\<close> per slot of the largest pool, the
  target grows by a third or more each tick and reaches \<^verbatim>\<open>Max\<close>: after \<open>n\<close> ticks as soon as
  \<open>3 ^ n * Max \<le> 4 ^ n * Min\<close>, which is logarithmic in the ratio of the two.
\<close>

theorem scale_up_reaches_max:
  assumes "as_Cfg a = c" and "scale_ok c" and "idle_ok a" and "sc_Min c \<le> pl_target p" and "pl_target p \<le> sc_Max c"
    and "progress pl_target es" and "scale_run pl_active pl_target SetTarget es (a, p) = (a', p')"
    and "\<forall>x \<in> set es. \<exists>ready. snd x = Some ready \<and> sc_GrowAt c * of_int (sc_Max c) \<le> of_int ready"
    and "3 ^ length es * sc_Max c \<le> 4 ^ length es * sc_Min c"
  shows "pl_target p' = sc_Max c"
proof -
  have inv: "scale_inv pl_target c (a, p)" using assms by (simp add: scale_inv_def)
  have le: "pl_target p' \<le> sc_Max c" using worker_pool.run_inv [OF inv assms(6)] assms(7) by (simp add: scale_inv_def)
  have "4 ^ length es * sc_Min c \<le> 4 ^ length es * pl_target p" using assms(4) by (intro mult_left_mono) simp_all
  with assms(9) have "3 ^ length es * sc_Max c \<le> 4 ^ length es * pl_target p" by linarith
  with worker_pool.run_busy [OF assms(8) inv assms(6)] assms(7)
  have "pl_target p' = sc_Max c \<or> 3 ^ length es * sc_Max c \<le> 3 ^ length es * pl_target p'"
    using order_trans by (simp only: snd_conv) blast
  with le show ?thesis by auto
qed

theorem scale_up_reaches_max_witness:
  "\<exists>a' p'. scale_run pl_active pl_target SetTarget (replicate 5 (occupy 1, Some 50)) (demo_scaler, demo_pool) = (a', p')
    \<and> pl_target p' = 4"
proof -
  let ?es = "replicate 5 (occupy 1, Some (50 :: int))"
  obtain a' p' where r: "scale_run pl_active pl_target SetTarget ?es (demo_scaler, demo_pool) = (a', p')" by fastforce
  have "progress pl_target ?es" by (auto simp: progress_def)
  moreover have "\<forall>x \<in> set ?es. \<exists>ready. snd x = Some ready
    \<and> sc_GrowAt (DefaultConfig 1 4) * rat_of_int (sc_Max (DefaultConfig 1 4)) \<le> rat_of_int ready"
    by (simp add: DefaultConfig_def)
  moreover have "3 ^ length ?es * sc_Max (DefaultConfig 1 4) \<le> 4 ^ length ?es * sc_Min (DefaultConfig 1 4)"
    by (simp add: DefaultConfig_def)
  ultimately have "pl_target p' = sc_Max (DefaultConfig 1 4)"
    by (rule scale_up_reaches_max [OF demo_scaler_ok(3,1,2) demo_scaler_pool _ r])
  with r show ?thesis by (simp add: DefaultConfig_def)
qed

text \<open>
  Scaling down is reluctant. A tick lowers the target only by one, and only when the last
  \<^verbatim>\<open>IdleAfter\<close> observations in a row all found an empty queue and a free slot. Conversely, idleness
  that lasts takes the target down one slot for every \<^verbatim>\<open>IdleAfter\<close> ticks, to \<^verbatim>\<open>Min\<close>.
\<close>

lemma scale_down_reluctant:
  assumes "as_Cfg a = c" and "scale_ok c" and "idle_ok a" and "sc_Min c \<le> pl_target p" and "pl_target p \<le> sc_Max c"
    and "as_idleTicks a = 0" and "progress pl_target (es @ [e])"
    and "scale_run pl_active pl_target SetTarget es (a, p) = (a1, p1)"
    and "scale_run pl_active pl_target SetTarget (es @ [e]) (a, p) = (a2, p2)"
  shows "(pl_target p2 < pl_target p1 \<longrightarrow> pl_target p2 = pl_target p1 - 1
      \<and> sc_IdleAfter c \<le> int (length (takeWhile idle_obs
          (rev (scale_obs pl_active pl_target SetTarget (es @ [e]) (a, p))))))
    \<and> ((\<forall>x \<in> set es. snd x = Some 0 \<and> (\<forall>r. pl_active (fst x r) < sc_Min c)) \<longrightarrow>
      pl_target p1 = max (sc_Min c) (pl_target p - int (length es) div sc_IdleAfter c))"
proof (intro conjI impI)
  have inv: "scale_inv pl_target c (a, p)" using assms by (simp add: scale_inv_def)
  show "pl_target p2 = pl_target p1 - 1" if "pl_target p2 < pl_target p1"
    using worker_pool.run_shrinks [OF inv assms(6,7)] that assms(8,9) by simp
  show "sc_IdleAfter c \<le> int (length (takeWhile idle_obs
      (rev (scale_obs pl_active pl_target SetTarget (es @ [e]) (a, p)))))" if "pl_target p2 < pl_target p1"
    using worker_pool.run_shrinks [OF inv assms(6,7)] that assms(8,9) by simp
  assume i: "\<forall>x \<in> set es. snd x = Some 0 \<and> (\<forall>r. pl_active (fst x r) < sc_Min c)"
  from worker_pool.run_idle [OF this inv] assms(6,7,8)
  show "pl_target p1 = max (sc_Min c) (pl_target p - int (length es) div sc_IdleAfter c)" by simp
qed

end
