(* ===== verification/Control.thy ===== *)
theory Control
  imports Scale "HOL-Library.AList"
begin

text \<open>
  The control plane, \<^verbatim>\<open>internal/control\<close>: the hub that tracks the streams of the workers and routes
  commands (\<^verbatim>\<open>server.go\<close>), and the worker's client that executes them on its pool (\<^verbatim>\<open>client.go\<close>).
  Sessions are shared by pointer between the hub's table and the goroutines of their streams, so they
  live in a heap and the table holds addresses.
\<close>

section \<open>The messages\<close>

record worker_hello =
  hl_WorkerId :: string
  hl_Hostname :: string
  hl_Pid :: "32 word"
  hl_Concurrency :: "32 word"
  hl_Types :: "string list"

record worker_stats =
  ws_Active :: "32 word"
  ws_Target :: "32 word"
  ws_Processed :: "64 word"
  ws_Utilization :: rat
  ws_Paused :: bool

text \<open>\<^verbatim>\<open>oneof\<close> fields; an empty message has none of the alternatives.\<close>

datatype worker_message =
    MsgHello worker_hello
  | MsgStats worker_stats
  | MsgAck string string
  | MsgEmpty

datatype cmd = Drain | Pause | Resume | SetConcurrency "32 word" | CmdEmpty

record command =
  cm_CommandId :: string
  cm_Cmd :: cmd

section \<open>The hub\<close>

record session =
  s_hello :: worker_hello
  s_stats :: "worker_stats option"
  s_connectedAt :: time
  s_lastStatsAt :: time
  s_cmds :: "command list"
  s_sending :: bool
  s_done :: bool

record hub =
  hb_sessions :: "(string \<times> nat) list"
  hb_heap :: "session list"

definition NewHub :: hub where
  "NewHub = \<lparr> hb_sessions = [], hb_heap = [] \<rparr>"

definition on_session :: "nat \<Rightarrow> (session \<Rightarrow> session) \<Rightarrow> hub \<Rightarrow> hub" where
  "on_session a f h = h\<lparr>hb_heap := (hb_heap h)[a := f (hb_heap h ! a)]\<rparr>"

definition session_terminate :: "nat \<Rightarrow> hub \<Rightarrow> hub" where
  "session_terminate a = on_session a (\<lambda>s. s\<lparr>s_done := True\<rparr>)"

definition hub_register :: "string \<Rightarrow> nat \<Rightarrow> hub \<Rightarrow> hub" where
  "hub_register i a h =
    (let h = (case map_of (hb_sessions h) i of Some old \<Rightarrow> session_terminate old h | None \<Rightarrow> h)
     in h\<lparr>hb_sessions := AList.update i a (hb_sessions h)\<rparr>)"

definition hub_unregister :: "string \<Rightarrow> nat \<Rightarrow> hub \<Rightarrow> hub" where
  "hub_unregister i a h =
    (let h = session_terminate a h
     in if map_of (hb_sessions h) i = Some a then h\<lparr>hb_sessions := AList.delete i (hb_sessions h)\<rparr> else h)"

definition updateStats :: "nat \<Rightarrow> worker_stats \<Rightarrow> time \<Rightarrow> hub \<Rightarrow> hub" where
  "updateStats a st now = on_session a (\<lambda>s. s\<lparr>s_stats := Some st, s_lastStatsAt := now\<rparr>)"

text \<open>The errors of the package, each with the worker its message quotes.\<close>

datatype control_error =
    FirstNotHello
  | NotConnected string
  | CommandQueueFull string
  | TargetTooSmall

text \<open>
  \<^verbatim>\<open>WorkerStream\<close>, up to its select: the first message must be the hello, and opens a session.
\<close>

definition WorkerStream_open :: "worker_message \<Rightarrow> time \<Rightarrow> hub \<Rightarrow> control_error + nat \<times> hub" where
  "WorkerStream_open first now h =
    (case first of
       MsgHello hello \<Rightarrow>
         (let a = length (hb_heap h);
              s = \<lparr> s_hello = hello, s_stats = None, s_connectedAt = now, s_lastStatsAt = zero_time,
                    s_cmds = [], s_sending = True, s_done = False \<rparr>
          in Inr (a, hub_register (hl_WorkerId hello) a (h\<lparr>hb_heap := hb_heap h @ [s]\<rparr>)))
     | _ \<Rightarrow> Inl FirstNotHello)"

text \<open>The receiver, for one message.\<close>

definition WorkerStream_recv :: "nat \<Rightarrow> worker_message \<Rightarrow> time \<Rightarrow> hub \<Rightarrow> hub" where
  "WorkerStream_recv a msg now h = (case msg of MsgStats st \<Rightarrow> updateStats a st now h | _ \<Rightarrow> h)"

text \<open>
  The sender takes a command from the channel before it knows whether \<^verbatim>\<open>stream.Send\<close> goes through; when it does
  not (\<open>ok\<close> is false) the command is gone and the sender returns. \<open>s_sending\<close> is whether it still runs.
\<close>

definition WorkerStream_send :: "bool \<Rightarrow> nat \<Rightarrow> hub \<Rightarrow> (command \<times> hub) option" where
  "WorkerStream_send ok a h =
    (case s_cmds (hb_heap h ! a) of
       [] \<Rightarrow> None
     | c # cs \<Rightarrow> Some (c, on_session a (\<lambda>s. s\<lparr>s_cmds := cs, s_sending := s_sending s \<and> ok\<rparr>) h))"

text \<open>The return of the handler, whatever branch of the select it takes.\<close>

definition WorkerStream_close :: "nat \<Rightarrow> hub \<Rightarrow> hub" where
  "WorkerStream_close a h = hub_unregister (hl_WorkerId (s_hello (hb_heap h ! a))) a h"

record worker_view =
  wv_ID :: string
  wv_Hostname :: string
  wv_PID :: "32 word"
  wv_Active :: "32 word"
  wv_Target :: "32 word"
  wv_Processed :: "64 word"
  wv_Utilization :: rat
  wv_Paused :: bool
  wv_Types :: "string list"
  wv_ConnectedAt :: time
  wv_LastStatsAt :: time

definition worker_view_of :: "string \<Rightarrow> session \<Rightarrow> worker_view" where
  "worker_view_of i s =
    (let v = \<lparr> wv_ID = i, wv_Hostname = hl_Hostname (s_hello s), wv_PID = hl_Pid (s_hello s), wv_Active = 0,
               wv_Target = 0, wv_Processed = 0, wv_Utilization = 0, wv_Paused = False,
               wv_Types = hl_Types (s_hello s), wv_ConnectedAt = s_connectedAt s, wv_LastStatsAt = s_lastStatsAt s \<rparr>
     in case s_stats s of
          None \<Rightarrow> v
        | Some st \<Rightarrow> v\<lparr>wv_Active := ws_Active st, wv_Target := ws_Target st, wv_Processed := ws_Processed st,
                     wv_Utilization := ws_Utilization st, wv_Paused := ws_Paused st\<rparr>)"

text \<open>The Go map has no order; the list has the order of the table.\<close>

definition Workers :: "hub \<Rightarrow> worker_view list" where
  "Workers h = map (\<lambda>(i, a). worker_view_of i (hb_heap h ! a)) (hb_sessions h)"

text \<open>The channel of a session holds 16 commands; a send to a full one fails at once.\<close>

definition cmds_push :: "string \<Rightarrow> nat \<Rightarrow> command \<Rightarrow> hub \<Rightarrow> control_error + hub" where
  "cmds_push i a c h =
    (if length (s_cmds (hb_heap h ! a)) < 16
     then Inr (on_session a (\<lambda>s. s\<lparr>s_cmds := s_cmds s @ [c]\<rparr>) h)
     else Inl (CommandQueueFull i))"

definition hub_send :: "string \<Rightarrow> command \<Rightarrow> hub \<Rightarrow> control_error + hub" where
  "hub_send i c h =
    (case map_of (hb_sessions h) i of
       None \<Rightarrow> Inl (NotConnected i)
     | Some a \<Rightarrow> cmds_push i a c h)"

definition cmdID :: "time \<Rightarrow> string" where
  "cmdID now = ''cmd-'' @ dec_of_int now"

definition hub_Drain :: "time \<Rightarrow> string \<Rightarrow> hub \<Rightarrow> control_error + hub" where
  "hub_Drain now i = hub_send i \<lparr> cm_CommandId = cmdID now, cm_Cmd = Drain \<rparr>"

definition hub_Pause :: "time \<Rightarrow> string \<Rightarrow> hub \<Rightarrow> control_error + hub" where
  "hub_Pause now i = hub_send i \<lparr> cm_CommandId = cmdID now, cm_Cmd = Pause \<rparr>"

definition hub_Resume :: "time \<Rightarrow> string \<Rightarrow> hub \<Rightarrow> control_error + hub" where
  "hub_Resume now i = hub_send i \<lparr> cm_CommandId = cmdID now, cm_Cmd = Resume \<rparr>"

text \<open>The conversion \<^verbatim>\<open>int32(target)\<close> keeps the low 32 bits.\<close>

definition hub_SetConcurrency :: "time \<Rightarrow> string \<Rightarrow> int \<Rightarrow> hub \<Rightarrow> control_error + hub" where
  "hub_SetConcurrency now i target h =
    (if target < 1 then Inl TargetTooSmall
     else hub_send i \<lparr> cm_CommandId = cmdID now, cm_Cmd = SetConcurrency (word_of_int target) \<rparr> h)"

section \<open>The client\<close>

definition client_hello :: "string \<Rightarrow> string \<Rightarrow> int \<Rightarrow> string list \<Rightarrow> pool \<Rightarrow> worker_message" where
  "client_hello i host pid types p =
    MsgHello \<lparr> hl_WorkerId = i, hl_Hostname = host, hl_Pid = word_of_int pid,
      hl_Concurrency = word_of_int (pl_target p), hl_Types = types \<rparr>"

definition client_stats :: "pool \<Rightarrow> worker_message" where
  "client_stats p =
    MsgStats \<lparr> ws_Active = word_of_int (pl_active p), ws_Target = word_of_int (pl_target p),
      ws_Processed = pl_processed p,
      ws_Utilization = (if pl_target p > 0 then of_int (pl_active p) / of_int (pl_target p) else 0),
      ws_Paused = pl_paused p \<rparr>"

text \<open>
  A command executed on a pool given by its methods: the pool, the acknowledgement sent, and whether
  the drain hook is called.
\<close>

definition dispatch ::
  "(int \<Rightarrow> 'p \<Rightarrow> 'p) \<Rightarrow> (bool \<Rightarrow> 'p \<Rightarrow> 'p) \<Rightarrow> command \<Rightarrow> 'p \<Rightarrow> 'p \<times> worker_message option \<times> bool"
where
  "dispatch set_tgt set_paused c p =
    (let ack = (\<lambda>detail. Some (MsgAck (cm_CommandId c) detail)) in
     case cm_Cmd c of
       Drain \<Rightarrow> (p, ack ''draining'', True)
     | Pause \<Rightarrow> (set_paused True p, ack ''paused'', False)
     | Resume \<Rightarrow> (set_paused False p, ack ''resumed'', False)
     | SetConcurrency t \<Rightarrow> (set_tgt (sint t) p, ack ''concurrency updated'', False)
     | CmdEmpty \<Rightarrow> (p, None, False))"

fun dispatch_all :: "(int \<Rightarrow> 'p \<Rightarrow> 'p) \<Rightarrow> (bool \<Rightarrow> 'p \<Rightarrow> 'p) \<Rightarrow> command list \<Rightarrow> 'p \<Rightarrow> 'p" where
  "dispatch_all set_tgt set_paused [] p = p"
| "dispatch_all set_tgt set_paused (c # cs) p =
    dispatch_all set_tgt set_paused cs (fst (dispatch set_tgt set_paused c p))"

text \<open>
  The reconnect loop of \<^verbatim>\<open>Run\<close>: for each connection, whether it ended with an error, the pauses taken
  and the backoff afterwards.
\<close>

fun client_run :: "bool list \<Rightarrow> duration \<Rightarrow> duration list \<times> duration" where
  "client_run [] b = ([], b)"
| "client_run (failed # es) b =
    (if failed
     then (case client_run es (if b < 30 * second then wrap64 (b * 2) else b) of (ps, b') \<Rightarrow> (b # ps, b'))
     else client_run es second)"

section \<open>Runs of the hub\<close>

text \<open>
  The steps of the streams and of the callers, in any order. A send looks the session up and pushes
  the command after releasing the lock, so a push may reach a session that has ended meanwhile. The
  labels record the commands accepted for a session, those written to its stream and those whose write
  failed.
\<close>

datatype hub_label = Accepted nat command | Sent nat command | Lost nat command | Quiet

inductive hub_step :: "hub \<Rightarrow> hub_label \<Rightarrow> hub \<Rightarrow> bool" where
  step_open: "WorkerStream_open first now h = Inr (a, h') \<Longrightarrow> hub_step h Quiet h'"
| step_recv: "a < length (hb_heap h) \<Longrightarrow> hub_step h Quiet (WorkerStream_recv a msg now h)"
| step_send: "a < length (hb_heap h) \<Longrightarrow> s_sending (hb_heap h ! a) \<Longrightarrow> WorkerStream_send True a h = Some (c, h') \<Longrightarrow>
    hub_step h (Sent a c) h'"
| step_lose: "a < length (hb_heap h) \<Longrightarrow> s_sending (hb_heap h ! a) \<Longrightarrow> WorkerStream_send False a h = Some (c, h') \<Longrightarrow>
    hub_step h (Lost a c) h'"
| step_close: "a < length (hb_heap h) \<Longrightarrow> hub_step h Quiet (WorkerStream_close a h)"
| step_push: "a < length (hb_heap h) \<Longrightarrow> cmds_push i a c h = Inr h' \<Longrightarrow> hub_step h (Accepted a c) h'"

inductive hub_run :: "hub \<Rightarrow> hub_label list \<Rightarrow> bool" where
  run_new: "hub_run NewHub []"
| run_step: "hub_run h tr \<Longrightarrow> hub_step h l h' \<Longrightarrow> hub_run h' (tr @ [l])"

fun accepted :: "nat \<Rightarrow> hub_label list \<Rightarrow> command list" where
  "accepted a [] = []"
| "accepted a (l # tr) = (case l of Accepted b c \<Rightarrow> if b = a then [c] else [] | _ \<Rightarrow> []) @ accepted a tr"

fun sent :: "nat \<Rightarrow> hub_label list \<Rightarrow> command list" where
  "sent a [] = []"
| "sent a (l # tr) = (case l of Sent b c \<Rightarrow> if b = a then [c] else [] | _ \<Rightarrow> []) @ sent a tr"

fun lost :: "nat \<Rightarrow> hub_label list \<Rightarrow> command list" where
  "lost a [] = []"
| "lost a (l # tr) = (case l of Lost b c \<Rightarrow> if b = a then [c] else [] | _ \<Rightarrow> []) @ lost a tr"

lemma lost_append [simp]: "lost a (tr @ tr') = lost a tr @ lost a tr'"
  by (induction tr) simp_all

lemma accepted_append [simp]: "accepted a (tr @ tr') = accepted a tr @ accepted a tr'"
  by (induction tr) simp_all

lemma sent_append [simp]: "sent a (tr @ tr') = sent a tr @ sent a tr'"
  by (induction tr) simp_all

lemma on_session_simps [simp]:
  "hb_sessions (on_session a f h) = hb_sessions h"
  "length (hb_heap (on_session a f h)) = length (hb_heap h)"
  "a < length (hb_heap h) \<Longrightarrow> hb_heap (on_session a f h) ! b = (if b = a then f (hb_heap h ! a) else hb_heap h ! b)"
  by (auto simp: on_session_def)

text \<open>The sessions of the table are exactly those that have not ended.\<close>

definition session_ok :: "hub \<Rightarrow> string \<Rightarrow> nat \<Rightarrow> bool" where
  "session_ok h i a = (a < length (hb_heap h) \<and> \<not> s_done (hb_heap h ! a) \<and> hl_WorkerId (s_hello (hb_heap h ! a)) = i)"

definition hub_ok :: "hub \<Rightarrow> bool" where
  "hub_ok h = (distinct (map fst (hb_sessions h))
    \<and> (\<forall>i a. map_of (hb_sessions h) i = Some a \<longleftrightarrow> session_ok h i a)
    \<and> (\<forall>a < length (hb_heap h). length (s_cmds (hb_heap h ! a)) \<le> 16))"

definition hub_reflects :: "hub \<Rightarrow> bool" where
  "hub_reflects h = (distinct (map fst (hb_sessions h)) \<and> (\<forall>i a. map_of (hb_sessions h) i = Some a \<longleftrightarrow> session_ok h i a))"

lemma hub_ok_alt: "hub_ok h \<longleftrightarrow> hub_reflects h \<and> (\<forall>a < length (hb_heap h). length (s_cmds (hb_heap h ! a)) \<le> 16)"
  by (auto simp: hub_ok_def hub_reflects_def)

lemma hub_reflectsD: "hub_reflects h \<Longrightarrow> map_of (hb_sessions h) i = Some a \<longleftrightarrow> session_ok h i a"
  by (simp add: hub_reflects_def)

lemma hub_ok_on_session:
  assumes "hub_ok h" and "a < length (hb_heap h)" and "\<And>s. s_done (f s) = s_done s" and "\<And>s. s_hello (f s) = s_hello s"
    and "length (s_cmds (f (hb_heap h ! a))) \<le> 16"
  shows "hub_ok (on_session a f h)"
  using assms by (auto simp: hub_ok_def session_ok_def)

lemma session_terminate_simps [simp]:
  "hb_sessions (session_terminate a h) = hb_sessions h"
  "length (hb_heap (session_terminate a h)) = length (hb_heap h)"
  "b < length (hb_heap h) \<Longrightarrow> a < length (hb_heap h) \<Longrightarrow> s_cmds (hb_heap (session_terminate a h) ! b) = s_cmds (hb_heap h ! b)"
  "b < length (hb_heap h) \<Longrightarrow> a < length (hb_heap h) \<Longrightarrow> s_sending (hb_heap (session_terminate a h) ! b) = s_sending (hb_heap h ! b)"
  by (auto simp: session_terminate_def)

lemma session_ok_terminate:
  "b < length (hb_heap h) \<Longrightarrow> session_ok (session_terminate b h) i a \<longleftrightarrow> session_ok h i a \<and> a \<noteq> b"
  by (auto simp: session_ok_def session_terminate_def)

lemma session_ok_table [simp]: "session_ok (h\<lparr>hb_sessions := t\<rparr>) i a = session_ok h i a"
  by (simp add: session_ok_def)

lemma session_ok_less: "session_ok h i a \<Longrightarrow> a < length (hb_heap h)"
  by (simp add: session_ok_def)

lemma session_ok_id: "session_ok h i a \<Longrightarrow> session_ok h j a \<Longrightarrow> i = j"
  by (simp add: session_ok_def)

lemma hub_reflectsI:
  "distinct (map fst (hb_sessions h)) \<Longrightarrow> (\<And>i a. map_of (hb_sessions h) i = Some a \<longleftrightarrow> session_ok h i a) \<Longrightarrow>
    hub_reflects h"
  by (simp add: hub_reflects_def)

lemma hub_reflects_close:
  assumes "hub_reflects h" and "a < length (hb_heap h)"
  shows "hub_reflects (WorkerStream_close a h)"
proof -
  let ?i = "hl_WorkerId (s_hello (hb_heap h ! a))"
  have t: "map_of (hb_sessions h) j = Some b \<longleftrightarrow> session_ok h j b" for j b using hub_reflectsD [OF assms(1)] .
  have u: "session_ok h j a \<Longrightarrow> j = ?i" for j by (simp add: session_ok_def)
  have d: "distinct (map fst (hb_sessions h))" using assms(1) by (simp add: hub_reflects_def)
  show ?thesis
  proof (cases "map_of (hb_sessions h) ?i = Some a")
    case True
    then have e: "WorkerStream_close a h = (session_terminate a h)\<lparr>hb_sessions := AList.delete ?i (hb_sessions h)\<rparr>"
      by (simp add: WorkerStream_close_def hub_unregister_def Let_def)
    show ?thesis
    proof (rule hub_reflectsI)
      show "distinct (map fst (hb_sessions (WorkerStream_close a h)))" using d by (simp add: e AList.distinct_delete)
      show "map_of (hb_sessions (WorkerStream_close a h)) j = Some b \<longleftrightarrow> session_ok (WorkerStream_close a h) j b" for j b
        using t [of j b] t [of ?i b] True u [of j] by (auto simp: e AList.delete_conv' session_ok_terminate [OF assms(2)])
    qed
  next
    case False
    then have e: "WorkerStream_close a h = session_terminate a h"
      by (simp add: WorkerStream_close_def hub_unregister_def Let_def)
    show ?thesis
    proof (rule hub_reflectsI)
      show "distinct (map fst (hb_sessions (WorkerStream_close a h)))" using d by (simp add: e)
      show "map_of (hb_sessions (WorkerStream_close a h)) j = Some b \<longleftrightarrow> session_ok (WorkerStream_close a h) j b" for j b
        using t [of j b] False u [of j] by (auto simp: e session_ok_terminate [OF assms(2)])
    qed
  qed
qed

text \<open>Before a new session is registered, the table holds the live sessions but that one.\<close>

lemma hub_reflects_register:
  assumes t: "\<And>j b. map_of (hb_sessions h) j = Some b \<longleftrightarrow> session_ok h j b \<and> b \<noteq> a"
    and d: "distinct (map fst (hb_sessions h))" and i: "session_ok h i a"
  shows "hub_reflects (hub_register i a h)"
proof (cases "map_of (hb_sessions h) i")
  case None
  then have e: "hub_register i a h = h\<lparr>hb_sessions := AList.update i a (hb_sessions h)\<rparr>"
    by (simp add: hub_register_def)
  show ?thesis
  proof (rule hub_reflectsI)
    show "distinct (map fst (hb_sessions (hub_register i a h)))" using d by (simp add: e AList.distinct_update)
    show "map_of (hb_sessions (hub_register i a h)) j = Some b \<longleftrightarrow> session_ok (hub_register i a h) j b" for j b
    proof (cases "j = i")
      case True
      with t [of i b] i None show ?thesis by (auto simp: e AList.update_conv')
    next
      case False
      with t [of j b] session_ok_id [OF i, of j] show ?thesis by (auto simp: e AList.update_conv')
    qed
  qed
next
  case (Some old)
  with t have o: "session_ok h i old" "old \<noteq> a" by simp_all
  from Some have e: "hub_register i a h = (session_terminate old h)\<lparr>hb_sessions := AList.update i a (hb_sessions h)\<rparr>"
    by (simp add: hub_register_def)
  show ?thesis
  proof (rule hub_reflectsI)
    show "distinct (map fst (hb_sessions (hub_register i a h)))" using d by (simp add: e AList.distinct_update)
    show "map_of (hb_sessions (hub_register i a h)) j = Some b \<longleftrightarrow> session_ok (hub_register i a h) j b" for j b
    proof (cases "j = i")
      case True
      with t [of i b] i Some o show ?thesis
        by (auto simp: e AList.update_conv' session_ok_terminate [OF session_ok_less [OF o(1)]])
    next
      case False
      with t [of j b] session_ok_id [OF i, of j] session_ok_id [OF o(1), of j] show ?thesis
        by (auto simp: e AList.update_conv' session_ok_terminate [OF session_ok_less [OF o(1)]])
    qed
  qed
qed

lemma hub_register_cmds:
  assumes "\<And>b. map_of (hb_sessions h) i = Some b \<Longrightarrow> b < length (hb_heap h)" and "c < length (hb_heap h)"
  shows "length (hb_heap (hub_register i a h)) = length (hb_heap h)"
    and "s_cmds (hb_heap (hub_register i a h) ! c) = s_cmds (hb_heap h ! c)"
    and "s_sending (hb_heap (hub_register i a h) ! c) = s_sending (hb_heap h ! c)"
  using assms by (auto simp: hub_register_def split: option.split)

lemma hub_ok_open:
  assumes "hub_ok h" and "WorkerStream_open first now h = Inr (a, h')"
  shows "hub_ok h' \<and> length (hb_heap h') = Suc (length (hb_heap h))
    \<and> (\<forall>b < length (hb_heap h). s_cmds (hb_heap h' ! b) = s_cmds (hb_heap h ! b) \<and> s_sending (hb_heap h' ! b) = s_sending (hb_heap h ! b))
    \<and> s_cmds (hb_heap h' ! length (hb_heap h)) = [] \<and> s_sending (hb_heap h' ! length (hb_heap h))"
proof -
  obtain hello where f: "first = MsgHello hello" using assms(2) by (cases first) (simp_all add: WorkerStream_open_def)
  define s where "s = \<lparr> s_hello = hello, s_stats = None, s_connectedAt = now, s_lastStatsAt = zero_time,
                    s_cmds = [], s_sending = True, s_done = False \<rparr>"
  define g where "g = h\<lparr>hb_heap := hb_heap h @ [s]\<rparr>"
  have a: "a = length (hb_heap h)" and h': "h' = hub_register (hl_WorkerId hello) a g"
    using assms(2) f by (auto simp: WorkerStream_open_def g_def s_def Let_def)
  have r: "hub_reflects h" and q: "\<forall>b < length (hb_heap h). length (s_cmds (hb_heap h ! b)) \<le> 16"
    using assms(1) by (simp_all add: hub_ok_alt)
  have t: "map_of (hb_sessions g) j = Some b \<longleftrightarrow> session_ok g j b \<and> b \<noteq> a" for j b
    using hub_reflectsD [OF r, of j b] a by (auto simp: g_def session_ok_def nth_append)
  have "session_ok g (hl_WorkerId hello) a" by (simp add: session_ok_def g_def s_def a)
  with t r have ok: "hub_reflects h'" unfolding h' by (intro hub_reflects_register) (simp_all add: g_def hub_reflects_def)
  have less: "b < length (hb_heap g)" if "map_of (hb_sessions g) (hl_WorkerId hello) = Some b" for b
    using t [of _ b] that session_ok_less by blast
  have c: "length (hb_heap h') = length (hb_heap g)"
    "b < length (hb_heap g) \<Longrightarrow> s_cmds (hb_heap h' ! b) = s_cmds (hb_heap g ! b)"
    "b < length (hb_heap g) \<Longrightarrow> s_sending (hb_heap h' ! b) = s_sending (hb_heap g ! b)" for b
    using hub_register_cmds [OF less, where a = a] unfolding h' by (auto simp: g_def)
  have g: "length (hb_heap g) = Suc (length (hb_heap h))" "hb_heap g ! length (hb_heap h) = s"
    "b < length (hb_heap h) \<Longrightarrow> hb_heap g ! b = hb_heap h ! b" for b by (simp_all add: g_def nth_append)
  show ?thesis using ok c g q by (auto simp: hub_ok_alt s_def less_Suc_eq)
qed

lemma close_cmds:
  "a < length (hb_heap h) \<Longrightarrow> length (hb_heap (WorkerStream_close a h)) = length (hb_heap h)"
  "a < length (hb_heap h) \<Longrightarrow> b < length (hb_heap h) \<Longrightarrow> s_cmds (hb_heap (WorkerStream_close a h) ! b) = s_cmds (hb_heap h ! b)"
  "a < length (hb_heap h) \<Longrightarrow> b < length (hb_heap h) \<Longrightarrow> s_sending (hb_heap (WorkerStream_close a h) ! b) = s_sending (hb_heap h ! b)"
  by (simp_all add: WorkerStream_close_def hub_unregister_def Let_def)

lemma recv_cmds:
  "length (hb_heap (WorkerStream_recv a msg now h)) = length (hb_heap h)"
  "a < length (hb_heap h) \<Longrightarrow> s_cmds (hb_heap (WorkerStream_recv a msg now h) ! b) = s_cmds (hb_heap h ! b)"
  "a < length (hb_heap h) \<Longrightarrow> s_sending (hb_heap (WorkerStream_recv a msg now h) ! b) = s_sending (hb_heap h ! b)"
  by (auto simp: WorkerStream_recv_def updateStats_def split: worker_message.split)

lemma hub_ok_recv: "hub_ok h \<Longrightarrow> a < length (hb_heap h) \<Longrightarrow> hub_ok (WorkerStream_recv a msg now h)"
  by (cases msg) (simp_all add: WorkerStream_recv_def updateStats_def hub_ok_on_session hub_ok_alt [THEN iffD1])

text \<open>One step: the invariant, and how the queues move with the labels.\<close>

lemma hub_ok_send:
  assumes "hub_ok h" and "a < length (hb_heap h)" and "WorkerStream_send ok a h = Some (c, h')"
  shows "hub_ok h' \<and> length (hb_heap h') = length (hb_heap h)
    \<and> (\<forall>b. s_cmds (hb_heap h ! b) = (if b = a then [c] else []) @ s_cmds (hb_heap h' ! b)
        \<and> s_sending (hb_heap h' ! b) = (s_sending (hb_heap h ! b) \<and> (b = a \<longrightarrow> ok)))"
proof -
  from assms(3) obtain cs where c: "s_cmds (hb_heap h ! a) = c # cs"
    "h' = on_session a (\<lambda>s. s\<lparr>s_cmds := cs, s_sending := s_sending s \<and> ok\<rparr>) h"
    by (auto simp: WorkerStream_send_def split: list.splits)
  moreover have "length (s_cmds (hb_heap h ! a)) \<le> 16" using assms(1,2) by (simp add: hub_ok_alt)
  ultimately have "hub_ok h'" using assms by (auto intro: hub_ok_on_session)
  with c assms(2) show ?thesis by auto
qed

lemma hub_step_ok:
  assumes "hub_step h l h'" and "hub_ok h"
  shows "hub_ok h' \<and> length (hb_heap h) \<le> length (hb_heap h')
    \<and> (\<forall>b < length (hb_heap h'). (if b < length (hb_heap h) then s_cmds (hb_heap h ! b) else []) @ accepted b [l]
        = sent b [l] @ lost b [l] @ s_cmds (hb_heap h' ! b))
    \<and> (\<forall>b < length (hb_heap h).
        (sent b [l] @ lost b [l] \<noteq> [] \<longrightarrow> s_sending (hb_heap h ! b))
        \<and> s_sending (hb_heap h' ! b) = (s_sending (hb_heap h ! b) \<and> lost b [l] = []))"
  using assms
proof (induction rule: hub_step.induct)
  case (step_open first now h a h')
  then show ?case using hub_ok_open [OF step_open(2,1)] by (auto simp: less_Suc_eq)
next
  case (step_recv a h msg now)
  then show ?case by (simp add: hub_ok_recv recv_cmds)
next
  case (step_send a h c h')
  then show ?case using hub_ok_send [OF step_send(4,1,3)] by auto
next
  case (step_lose a h c h')
  then show ?case using hub_ok_send [OF step_lose(4,1,3)] by auto
next
  case (step_close a h)
  then show ?case by (simp add: close_cmds hub_ok_alt hub_reflects_close)
next
  case (step_push a h i c h')
  then have c: "length (s_cmds (hb_heap h ! a)) < 16" "h' = on_session a (\<lambda>s. s\<lparr>s_cmds := s_cmds s @ [c]\<rparr>) h"
    by (auto simp: cmds_push_def split: if_splits)
  with step_push have "hub_ok h'" by (auto intro: hub_ok_on_session)
  with c step_push show ?case by auto
qed

text \<open>The history of a session: what was accepted, and the end of the sender at the first lost command.\<close>

definition session_history :: "hub \<Rightarrow> hub_label list \<Rightarrow> nat \<Rightarrow> bool" where
  "session_history h tr a =
    (if a < length (hb_heap h)
     then accepted a tr = sent a tr @ lost a tr @ s_cmds (hb_heap h ! a)
       \<and> length (lost a tr) = (if s_sending (hb_heap h ! a) then 0 else 1)
     else accepted a tr = [] \<and> sent a tr = [] \<and> lost a tr = [])"

lemma new_session_sends:
  assumes "hub_step h l h'" and "hub_ok h" and "length (hb_heap h) \<le> b" and "b < length (hb_heap h')"
  shows "s_sending (hb_heap h' ! b) \<and> accepted b [l] = [] \<and> sent b [l] = [] \<and> lost b [l] = []"
  using assms
proof (cases rule: hub_step.cases)
  case (step_open first now a)
  have o: "length (hb_heap h') = Suc (length (hb_heap h))" "s_sending (hb_heap h' ! length (hb_heap h))"
    using hub_ok_open [OF assms(2) step_open(2)] by blast+
  have "b = length (hb_heap h)" using o(1) assms(3,4) by linarith
  with o(2) step_open(1) show ?thesis by simp
qed (auto simp: recv_cmds close_cmds WorkerStream_send_def cmds_push_def split: list.splits if_splits)

lemma session_history_step:
  assumes "session_history h tr b" and "b < length (hb_heap h)" and "b < length (hb_heap h')"
    and "s_cmds (hb_heap h ! b) @ accepted b [l] = sent b [l] @ lost b [l] @ s_cmds (hb_heap h' ! b)"
    and "sent b [l] @ lost b [l] \<noteq> [] \<longrightarrow> s_sending (hb_heap h ! b)"
    and "s_sending (hb_heap h' ! b) = (s_sending (hb_heap h ! b) \<and> lost b [l] = [])"
  shows "session_history h' (tr @ [l]) b"
proof -
  have one: "length (lost b [l]) \<le> 1" "sent b [l] = [] \<or> lost b [l] = []" by (cases l; simp)+
  have i: "accepted b tr = sent b tr @ lost b tr @ s_cmds (hb_heap h ! b)"
    "length (lost b tr) = (if s_sending (hb_heap h ! b) then 0 else 1)"
    using assms(1,2) by (simp_all add: session_history_def)
  show ?thesis
  proof (cases "s_sending (hb_heap h ! b)")
    case True
    then have "lost b tr = []" using i(2) by simp
    moreover have "length (lost b [l]) = (if lost b [l] = [] then 0 else 1)" using one(1) by (cases "lost b [l]") simp_all
    ultimately show ?thesis using True assms(2-4,6) i(1) one(2) by (simp add: session_history_def accepted_append sent_append lost_append)
  next
    case False
    then have "sent b [l] = []" "lost b [l] = []" using assms(5) by simp_all
    with False assms(2-4,6) i show ?thesis by (simp add: session_history_def accepted_append sent_append lost_append)
  qed
qed

lemma hub_run_ok: "hub_run h tr \<Longrightarrow> hub_ok h \<and> (\<forall>a. session_history h tr a)"
proof (induction rule: hub_run.induct)
  case run_new
  show ?case by (simp add: NewHub_def hub_ok_def session_ok_def session_history_def)
next
  case (run_step h tr l h')
  note s = hub_step_ok [OF run_step.hyps(2) conjunct1 [OF run_step.IH]]
  have out: "accepted b [l] = [] \<and> sent b [l] = [] \<and> lost b [l] = []" if "length (hb_heap h') \<le> b" for b
    using run_step.hyps(2) that s by (cases rule: hub_step.cases) auto
  have "session_history h' (tr @ [l]) b" for b
  proof -
    have IH: "session_history h tr b" using run_step.IH by blast
    consider "b < length (hb_heap h)" | "length (hb_heap h) \<le> b" "b < length (hb_heap h')" | "length (hb_heap h') \<le> b" by linarith
    then show ?thesis
    proof cases
      case 1
      have b: "b < length (hb_heap h')" using 1 s by linarith
      have "(if b < length (hb_heap h) then s_cmds (hb_heap h ! b) else []) @ accepted b [l]
          = sent b [l] @ lost b [l] @ s_cmds (hb_heap h' ! b)" using s b by blast
      then have e: "s_cmds (hb_heap h ! b) @ accepted b [l] = sent b [l] @ lost b [l] @ s_cmds (hb_heap h' ! b)"
        by (simp only: 1 if_True)
      from s 1 show ?thesis by (intro session_history_step [OF IH 1 b e]) blast+
    next
      case 2
      have "[] @ accepted b [l] = sent b [l] @ lost b [l] @ s_cmds (hb_heap h' ! b)" using 2 s by (metis not_le)
      then have "s_cmds (hb_heap h' ! b) = []" using new_session_sends [OF run_step.hyps(2) conjunct1 [OF run_step.IH] 2] by simp
      with IH new_session_sends [OF run_step.hyps(2) conjunct1 [OF run_step.IH] 2] 2 show ?thesis by (simp add: session_history_def)
    next
      case 3
      with s IH out [OF 3] show ?thesis by (simp add: session_history_def)
    qed
  qed
  with s show ?case by blast
qed

section \<open>The client's contract with the pool\<close>

text \<open>The interface \<^verbatim>\<open>PoolControls\<close>: what the autoscaler needs of a pool, and its pause flag.\<close>

locale commandable = steerable act tgt set_tgt
  for act :: "'p \<Rightarrow> int" and tgt :: "'p \<Rightarrow> int" and set_tgt :: "int \<Rightarrow> 'p \<Rightarrow> 'p" +
  fixes paused :: "'p \<Rightarrow> bool" and set_paused :: "bool \<Rightarrow> 'p \<Rightarrow> 'p"
  assumes paused_set: "paused (set_paused v p) = v"
    and paused_set_tgt: "paused (set_tgt n p) = paused p"
    and tgt_set_paused: "tgt (set_paused v p) = tgt p"
begin

lemma dispatch_all_tgt:
  "tgt (dispatch_all set_tgt set_paused cs p) =
    foldl (\<lambda>t c. case cm_Cmd c of SetConcurrency w \<Rightarrow> max 1 (sint w) | _ \<Rightarrow> t) (tgt p) cs"
proof (induction cs arbitrary: p)
  case (Cons c cs)
  have "tgt (fst (dispatch set_tgt set_paused c p)) =
    (case cm_Cmd c of SetConcurrency w \<Rightarrow> max 1 (sint w) | _ \<Rightarrow> tgt p)"
    by (cases "cm_Cmd c") (simp_all add: dispatch_def tgt_set tgt_set_paused)
  with Cons show ?case by simp
qed simp

lemma dispatch_all_paused:
  "paused (dispatch_all set_tgt set_paused cs p) =
    foldl (\<lambda>b c. case cm_Cmd c of Pause \<Rightarrow> True | Resume \<Rightarrow> False | _ \<Rightarrow> b) (paused p) cs"
proof (induction cs arbitrary: p)
  case (Cons c cs)
  have "paused (fst (dispatch set_tgt set_paused c p)) =
    (case cm_Cmd c of Pause \<Rightarrow> True | Resume \<Rightarrow> False | _ \<Rightarrow> paused p)"
    by (cases "cm_Cmd c") (simp_all add: dispatch_def paused_set paused_set_tgt)
  with Cons show ?case by simp
qed simp

end

interpretation worker_controls: commandable pl_active pl_target SetTarget pl_paused SetPaused
  by unfold_locales (simp_all add: SetTarget_def SetPaused_def)

section \<open>The properties\<close>

text \<open>
  C13. One live session for each worker. In every reachable state of the hub the table maps a worker to
  a session exactly when that session is the worker's and has not been ended; so a worker has at most
  one live session, the listing shows each worker once, and the late teardown of a session that was
  replaced changes nothing.
\<close>

theorem hub_one_session:
  assumes "hub_run h tr"
  shows "(\<forall>i a. map_of (hb_sessions h) i = Some a \<longleftrightarrow>
      a < length (hb_heap h) \<and> \<not> s_done (hb_heap h ! a) \<and> hl_WorkerId (s_hello (hb_heap h ! a)) = i)
    \<and> distinct (map wv_ID (Workers h))
    \<and> (\<forall>a < length (hb_heap h). s_done (hb_heap h ! a) \<longrightarrow> WorkerStream_close a h = h)"
proof (intro conjI allI impI)
  have ok: "hub_reflects h" using hub_run_ok [OF assms] by (simp add: hub_ok_alt)
  show t: "map_of (hb_sessions h) i = Some a \<longleftrightarrow>
      a < length (hb_heap h) \<and> \<not> s_done (hb_heap h ! a) \<and> hl_WorkerId (s_hello (hb_heap h ! a)) = i" for i a
    using hub_reflectsD [OF ok] by (simp add: session_ok_def)
  have "map wv_ID (Workers h) = map fst (hb_sessions h)"
    by (auto simp: Workers_def worker_view_of_def Let_def split: option.split)
  then show "distinct (map wv_ID (Workers h))" using ok by (simp add: hub_reflects_def)
  fix a assume a: "a < length (hb_heap h)" and d: "s_done (hb_heap h ! a)"
  from d have "(hb_heap h ! a)\<lparr>s_done := True\<rparr> = hb_heap h ! a" by simp
  then have "session_terminate a h = h" by (simp add: session_terminate_def on_session_def list_update_id)
  moreover have "map_of (hb_sessions h) (hl_WorkerId (s_hello (hb_heap h ! a))) \<noteq> Some a" using t a d by blast
  ultimately show "WorkerStream_close a h = h" by (simp add: WorkerStream_close_def hub_unregister_def Let_def)
qed

definition demo_hello :: worker_message where
  "demo_hello = MsgHello \<lparr> hl_WorkerId = ''w1'', hl_Hostname = ''h'', hl_Pid = 7, hl_Concurrency = 1, hl_Types = [] \<rparr>"

definition demo_hub :: hub where
  "demo_hub = snd (projr (WorkerStream_open demo_hello 20 (snd (projr (WorkerStream_open demo_hello 10 NewHub)))))"

lemmas hub_eval = demo_hub_def demo_hello_def WorkerStream_open_def NewHub_def hub_register_def Let_def
  session_terminate_def on_session_def

lemma demo_hub_run: "hub_run demo_hub [Quiet, Quiet]"
proof -
  define h1 where "h1 = snd (projr (WorkerStream_open demo_hello 10 NewHub))"
  have "hub_step NewHub Quiet h1"
    by (rule step_open [of demo_hello 10 _ 0]) (simp add: h1_def WorkerStream_open_def demo_hello_def NewHub_def Let_def)
  with run_new have "hub_run h1 ([] @ [Quiet])" by (rule run_step)
  moreover have "hub_step h1 Quiet demo_hub"
    by (rule step_open [of demo_hello 20 _ 1]) (simp add: h1_def hub_eval)
  ultimately show ?thesis using run_step by fastforce
qed

theorem hub_one_session_witness:
  "hub_run demo_hub [Quiet, Quiet] \<and> s_done (hb_heap demo_hub ! 0) \<and> WorkerStream_close 0 demo_hub = demo_hub"
proof -
  have "0 < length (hb_heap demo_hub)" "s_done (hb_heap demo_hub ! 0)" by (simp_all add: hub_eval)
  with hub_one_session [OF demo_hub_run] demo_hub_run show ?thesis by blast
qed

text \<open>
  C16. Commands are neither repeated nor reordered on a session, and at most one is lost. What was accepted for
  it is what was written to its stream, then the one command whose write failed, if one did, then
  what its channel still holds, at most 16 commands; after the failed write nothing more is written. A pool that
  executes what was written has the target and the pause flag of the last commands that set them.
\<close>

theorem commands_in_order:
  assumes "hub_run h tr" and "a < length (hb_heap h)"
  shows "accepted a tr = sent a tr @ lost a tr @ s_cmds (hb_heap h ! a)
    \<and> length (s_cmds (hb_heap h ! a)) \<le> 16
    \<and> length (lost a tr) \<le> 1
    \<and> (lost a tr \<noteq> [] \<longrightarrow> (\<forall>l h'. hub_step h l h' \<longrightarrow> sent a [l] = [] \<and> lost a [l] = []))
    \<and> pl_target (dispatch_all SetTarget SetPaused (sent a tr) p) =
        foldl (\<lambda>t c. case cm_Cmd c of SetConcurrency w \<Rightarrow> max 1 (sint w) | _ \<Rightarrow> t) (pl_target p) (sent a tr)
    \<and> pl_paused (dispatch_all SetTarget SetPaused (sent a tr) p) =
        foldl (\<lambda>b c. case cm_Cmd c of Pause \<Rightarrow> True | Resume \<Rightarrow> False | _ \<Rightarrow> b) (pl_paused p) (sent a tr)"
proof -
  have ok: "hub_ok h" and s: "session_history h tr a" using hub_run_ok [OF assms(1)] by blast+
  have "sent a [l] = [] \<and> lost a [l] = []" if "lost a tr \<noteq> []" "hub_step h l h'" for l h'
    using hub_step_ok [OF that(2) ok] s assms(2) that(1) by (auto simp: session_history_def split: if_splits)
  moreover have "length (s_cmds (hb_heap h ! a)) \<le> 16" using ok assms(2) by (simp add: hub_ok_alt)
  ultimately show ?thesis using s assms(2)
    by (auto simp: session_history_def worker_controls.dispatch_all_tgt worker_controls.dispatch_all_paused split: if_splits)
qed

theorem commands_in_order_witness:
  "\<exists>h c. hub_Pause 30 ''w1'' demo_hub = Inr h \<and> hub_run h [Quiet, Quiet, Accepted 1 c] \<and> s_cmds (hb_heap h ! 1) = [c]"
proof -
  have m: "map_of (hb_sessions demo_hub) ''w1'' = Some 1" "1 < length (hb_heap demo_hub)" "s_cmds (hb_heap demo_hub ! 1) = []"
    by (simp_all add: hub_eval)
  let ?c = "\<lparr> cm_CommandId = cmdID 30, cm_Cmd = Pause \<rparr>"
  let ?h = "on_session 1 (\<lambda>s. s\<lparr>s_cmds := s_cmds s @ [?c]\<rparr>) demo_hub"
  have p: "cmds_push ''w1'' 1 ?c demo_hub = Inr ?h" using m by (simp add: cmds_push_def)
  from run_step [OF demo_hub_run step_push [OF m(2) p]] have r: "hub_run ?h [Quiet, Quiet, Accepted 1 ?c]" by simp
  have "1 < length (hb_heap ?h)" using m(2) by simp
  from commands_in_order [OF r this] have "s_cmds (hb_heap ?h ! 1) = [?c]" by simp
  moreover have "hub_Pause 30 ''w1'' demo_hub = Inr ?h" using m p by (simp add: hub_Pause_def hub_send_def)
  ultimately show ?thesis using r by blast
qed



lemma client_run_pauses:
  "b \<in> {second, 2 * second, 4 * second, 8 * second, 16 * second, 32 * second} \<Longrightarrow>
    set (fst (client_run es b)) \<subseteq> {second, 2 * second, 4 * second, 8 * second, 16 * second, 32 * second}"
proof (induction es arbitrary: b)
  case (Cons failed es)
  have "(if b < 30 * second then wrap64 (b * 2) else b)
    \<in> {second, 2 * second, 4 * second, 8 * second, 16 * second, 32 * second}"
    using Cons.prems by (auto simp: wrap64_def)
  from Cons.IH [OF this] Cons.IH [of second] Cons.prems show ?case by (auto split: prod.split)
qed simp

text \<open>
  The client's reconnection pauses double from one second and never exceed 32 seconds, however
  many connections fail and wherever the sequence starts over.
\<close>

lemma reconnect_backoff: "\<forall>pause \<in> set (fst (client_run es second)). second \<le> pause \<and> pause \<le> 32 * second"
  using client_run_pauses [of second es] by auto

end
