(* ===== verification/Summary.thy ===== *)
theory Summary
  imports World
begin

text \<open>
  The summary of a run, \<^verbatim>\<open>Summary\<close> of \<^verbatim>\<open>internal/store/store.go\<close>: three queries, each on the database as it
  is when it runs. Seconds are rational numbers.
\<close>

section \<open>Percentiles\<close>

text \<open>
  SQL's \<^verbatim>\<open>percentile_cont\<close>: linear interpolation between the two rows around the position \<open>p * (n - 1)\<close> of
  the ordered values.
\<close>

definition interpolate :: "rat list \<Rightarrow> rat \<Rightarrow> rat" where
  "interpolate xs x =
    (let lo = xs ! nat \<lfloor>x\<rfloor>; hi = xs ! nat \<lceil>x\<rceil> in lo + (x - of_int \<lfloor>x\<rfloor>) * (hi - lo))"

definition percentile_cont :: "rat \<Rightarrow> rat list \<Rightarrow> rat option" where
  "percentile_cont p xs = (if xs = [] then None else Some (interpolate (sort xs) (p * of_nat (length xs - 1))))"

record latency_percentiles =
  lp_P50 :: rat
  lp_P95 :: rat
  lp_P99 :: rat

definition percentiles :: "rat list \<Rightarrow> latency_percentiles" where
  "percentiles xs =
    \<lparr> lp_P50 = case_option 0 id (percentile_cont (1 / 2) xs), lp_P95 = case_option 0 id (percentile_cont (19 / 20) xs),
      lp_P99 = case_option 0 id (percentile_cont (99 / 100) xs) \<rparr>"

section \<open>The summary\<close>

record summary =
  su_Since :: time
  su_Counts :: "(status \<times> nat) list"
  su_Total :: nat
  su_RetriedJobs :: nat
  su_TotalAttempts :: int
  su_E2ESeconds :: latency_percentiles
  su_ExecSeconds :: latency_percentiles

definition seconds_between :: "time \<Rightarrow> time \<Rightarrow> rat" where
  "seconds_between a b = of_int (b - a) / of_int second"

definition created_since :: "time \<Rightarrow> db \<Rightarrow> job_row list" where
  "created_since since d = filter (\<lambda>r. r_created_at r \<ge> since) (jobs d)"

text \<open>The groups of the first query; a status with no row has no group.\<close>

definition summary_counts :: "time \<Rightarrow> db \<Rightarrow> (status \<times> nat) list" where
  "summary_counts since d =
    map (\<lambda>s. (s, length (filter (\<lambda>r. r_status r = s) (created_since since d))))
      (remdups (map r_status (created_since since d)))"

definition summary_attempts :: "time \<Rightarrow> db \<Rightarrow> nat \<times> int" where
  "summary_attempts since d =
    (length (filter (\<lambda>r. r_attempt_count r > 1) (created_since since d)),
     sum_list (map r_attempt_count (created_since since d)))"

definition summary_latencies :: "time \<Rightarrow> db \<Rightarrow> latency_percentiles \<times> latency_percentiles" where
  "summary_latencies since d =
    (let rs = filter (\<lambda>r. r_status r = StatusCompleted \<and> r_completed_at r \<noteq> None) (created_since since d)
     in (percentiles (map (\<lambda>r. seconds_between (r_created_at r) (the (r_completed_at r))) rs),
         percentiles (map (\<lambda>r. seconds_between (the (r_started_at r)) (the (r_completed_at r)))
           (filter (\<lambda>r. r_started_at r \<noteq> None) rs))))"

text \<open>A query that reads the database.\<close>

definition query :: "string \<Rightarrow> (db \<Rightarrow> 'a) \<Rightarrow> ('r, 'a res) prog" where
  "query msg f = db_read (\<lambda>ft d.
    case ft of Good \<Rightarrow> Inr (f d) | Drop e \<Rightarrow> Inl (ErrorfW msg e) | Late e \<Rightarrow> Inl (ErrorfW msg e))"

definition store_Summary :: "time \<Rightarrow> ('r, summary res) prog" where
  "store_Summary since = do {
    x \<leftarrow> query ''store: summary counts: '' (summary_counts since);
    (case x of
       Inl e \<Rightarrow> pass (Inl e)
     | Inr counts \<Rightarrow> do {
         y \<leftarrow> query ''store: summary attempts: '' (summary_attempts since);
         (case y of
            Inl e \<Rightarrow> pass (Inl e)
          | Inr (retried, attempts) \<Rightarrow> do {
              z \<leftarrow> query ''store: summary percentiles: '' (summary_latencies since);
              (case z of
                 Inl e \<Rightarrow> pass (Inl e)
               | Inr (e2e, exec) \<Rightarrow>
                   pass (Inr \<lparr> su_Since = since, su_Counts = counts, su_Total = sum_list (map snd counts),
                     su_RetriedJobs = retried, su_TotalAttempts = attempts, su_E2ESeconds = e2e,
                     su_ExecSeconds = exec \<rparr>)) }) }) }"

section \<open>What it reports\<close>

lemma map_of_map_keys: "map_of (map (\<lambda>x. (x, f x)) xs) k = (if k \<in> set xs then Some (f k) else None)"
  by (induction xs) auto

lemma sum_by_status: "sum_list (map (\<lambda>s. length (filter (\<lambda>r. f r = s) xs)) (remdups (map f xs))) = length xs"
proof -
  have "sum_list (map (\<lambda>s. length (filter (\<lambda>r. f r = s) xs)) (remdups (map f xs)))
    = (\<Sum>s \<in> f ` set xs. length (filter (\<lambda>r. f r = s) xs))"
    by (simp add: sum_list_distinct_conv_sum_set)
  also have "\<dots> = length xs"
  proof (induction xs)
    case (Cons x xs)
    have "(\<Sum>s \<in> insert (f x) (f ` set xs). length (filter (\<lambda>r. f r = s) (x # xs)))
      = (\<Sum>s \<in> insert (f x) (f ` set xs). (if s = f x then 1 else 0) + length (filter (\<lambda>r. f r = s) xs))"
      by (rule sum.cong) auto
    also have "\<dots> = 1 + (\<Sum>s \<in> insert (f x) (f ` set xs). length (filter (\<lambda>r. f r = s) xs))"
      by (simp add: sum.distrib)
    also have "(\<Sum>s \<in> insert (f x) (f ` set xs). length (filter (\<lambda>r. f r = s) xs)) = (\<Sum>s \<in> f ` set xs. length (filter (\<lambda>r. f r = s) xs))"
      by (rule sum.mono_neutral_right) (auto simp: filter_empty_conv)
    finally show ?case using Cons by simp
  qed simp
  finally show ?thesis .
qed

lemma interpolate_between:
  assumes "sorted xs" and "0 \<le> x" and "x \<le> of_nat (length xs - 1)" and "xs \<noteq> []"
  shows "xs ! nat \<lfloor>x\<rfloor> \<le> interpolate xs x" and "interpolate xs x \<le> xs ! nat \<lceil>x\<rceil>"
proof -
  have c: "nat \<lceil>x\<rceil> < length xs"
  proof -
    have "\<lceil>x\<rceil> \<le> int (length xs - 1)" using assms(3) by (simp add: ceiling_le_iff)
    with assms(4) show ?thesis by (cases xs) auto
  qed
  have fc: "nat \<lfloor>x\<rfloor> \<le> nat \<lceil>x\<rceil>" by (intro nat_mono floor_le_ceiling)
  let ?lo = "xs ! nat \<lfloor>x\<rfloor>" and ?hi = "xs ! nat \<lceil>x\<rceil>"
  have le: "?lo \<le> ?hi" using sorted_nth_mono [OF assms(1) fc c] .
  have f: "0 \<le> x - of_int \<lfloor>x\<rfloor>" "x - of_int \<lfloor>x\<rfloor> \<le> 1" by (simp_all, linarith)
  show "?lo \<le> interpolate xs x" using f le by (simp add: interpolate_def Let_def)
  have "(x - of_int \<lfloor>x\<rfloor>) * (?hi - ?lo) \<le> 1 * (?hi - ?lo)" using f le by (intro mult_right_mono) simp_all
  then show "interpolate xs x \<le> ?hi" by (simp add: interpolate_def Let_def)
qed

lemma interpolate_mono:
  assumes "sorted xs" and "0 \<le> x" and "x \<le> y" and "y \<le> of_nat (length xs - 1)" and "xs \<noteq> []"
  shows "interpolate xs x \<le> interpolate xs y"
proof (cases "\<lfloor>x\<rfloor> = \<lfloor>y\<rfloor>")
  case True
  show ?thesis
  proof (cases "x = of_int \<lfloor>x\<rfloor>")
    case True
    have "interpolate xs x = xs ! nat \<lfloor>x\<rfloor>" using True by (simp add: interpolate_def Let_def)
    also have "\<dots> = xs ! nat \<lfloor>y\<rfloor>" using \<open>\<lfloor>x\<rfloor> = \<lfloor>y\<rfloor>\<close> by simp
    also have "\<dots> \<le> interpolate xs y" using assms by (intro interpolate_between(1)) simp_all
    finally show ?thesis .
  next
    case False
    then have "of_int \<lfloor>x\<rfloor> < x" by (metis of_int_floor_le order_le_less)
    then have cx: "\<lceil>x\<rceil> = \<lfloor>x\<rfloor> + 1" by linarith
    have cy: "\<lceil>y\<rceil> = \<lfloor>y\<rfloor> + 1" using \<open>of_int \<lfloor>x\<rfloor> < x\<close> True assms(3) by linarith
    have "xs ! nat \<lfloor>y\<rfloor> \<le> xs ! nat \<lceil>y\<rceil>"
      using interpolate_between [OF assms(1) _ assms(4,5)] assms(2,3) by fastforce
    then have "(x - of_int \<lfloor>y\<rfloor>) * (xs ! nat \<lceil>y\<rceil> - xs ! nat \<lfloor>y\<rfloor>) \<le> (y - of_int \<lfloor>y\<rfloor>) * (xs ! nat \<lceil>y\<rceil> - xs ! nat \<lfloor>y\<rfloor>)"
      using assms(3) by (intro mult_right_mono) simp_all
    then show ?thesis using True cx cy by (simp add: interpolate_def Let_def)
  qed
next
  case False
  then have l: "\<lceil>x\<rceil> \<le> \<lfloor>y\<rfloor>" using assms(3) by linarith
  have n: "nat \<lfloor>y\<rfloor> < length xs"
  proof -
    have "\<lfloor>y\<rfloor> \<le> int (length xs - 1)" using assms(4) by (simp add: floor_le_iff)
    with assms(5) show ?thesis by (cases xs) auto
  qed
  have "interpolate xs x \<le> xs ! nat \<lceil>x\<rceil>" using assms by (intro interpolate_between(2)) simp_all
  also have "\<dots> \<le> xs ! nat \<lfloor>y\<rfloor>" using l n by (intro sorted_nth_mono [OF assms(1)] nat_mono) simp_all
  also have "\<dots> \<le> interpolate xs y" using assms by (intro interpolate_between(1)) simp_all
  finally show ?thesis .
qed

lemma percentiles_ordered: "lp_P50 (percentiles xs) \<le> lp_P95 (percentiles xs) \<and> lp_P95 (percentiles xs) \<le> lp_P99 (percentiles xs)"
proof (cases "xs = []")
  case False
  then have s: "sorted (sort xs)" "sort xs \<noteq> []" "length (sort xs) = length xs" by simp_all (metis length_0_conv length_sort)
  have n: "0 \<le> (of_nat (length xs - 1) :: rat)" by simp
  have m: "interpolate (sort xs) (p * of_nat (length xs - 1)) \<le> interpolate (sort xs) (q * of_nat (length xs - 1))"
    if "0 \<le> p" "p \<le> q" "q \<le> 1" for p q :: rat
    using that n s by (intro interpolate_mono mult_nonneg_nonneg mult_right_mono) (simp_all add: mult_left_le_one_le)
  from False m [of "1 / 2" "19 / 20"] m [of "19 / 20" "99 / 100"] show ?thesis
    by (simp add: percentiles_def percentile_cont_def)
qed (simp add: percentiles_def percentile_cont_def)

text \<open>
  C38. The summary of a database that does not change meanwhile is consistent: its total is the number of
  jobs created since the given time and the sum of the counts; the counts list each status of such a
  job once, with the number of such jobs in it, and no other status, so a status that is not listed has
  none; no more jobs were retried than there are, the percentiles are in order, and reading it changes
  neither the database nor the server.
\<close>

theorem summary_consistent:
  assumes "run_state (store_Summary since) w = (Inr s, w')"
  shows "w_db w' = w_db w \<and> w_rd w' = w_rd w
    \<and> su_Total s = length (created_since since (w_db w)) \<and> su_Total s = sum_list (map snd (su_Counts s))
    \<and> distinct (map fst (su_Counts s))
    \<and> (\<forall>st. map_of (su_Counts s) st =
        (let n = length (filter (\<lambda>r. r_status r = st) (created_since since (w_db w))) in if n = 0 then None else Some n))
    \<and> su_RetriedJobs s \<le> su_Total s
    \<and> lp_P50 (su_E2ESeconds s) \<le> lp_P95 (su_E2ESeconds s) \<and> lp_P95 (su_E2ESeconds s) \<le> lp_P99 (su_E2ESeconds s)
    \<and> lp_P50 (su_ExecSeconds s) \<le> lp_P95 (su_ExecSeconds s) \<and> lp_P95 (su_ExecSeconds s) \<le> lp_P99 (su_ExecSeconds s)"
proof -
  have s: "w_db w' = w_db w" "w_rd w' = w_rd w" "su_Counts s = summary_counts since (w_db w)"
    "su_Total s = sum_list (map snd (summary_counts since (w_db w)))"
    "su_RetriedJobs s = fst (summary_attempts since (w_db w))"
    "su_E2ESeconds s = fst (summary_latencies since (w_db w))" "su_ExecSeconds s = snd (summary_latencies since (w_db w))"
    using assms
    by (auto simp: store_Summary_def query_def db_read_def db1_def pop_fault_def on_db_def pass_def
        split: fault.splits prod.splits)
  have total: "su_Total s = length (created_since since (w_db w))"
    using sum_by_status [of r_status "created_since since (w_db w)"] by (simp add: s summary_counts_def comp_def)
  have keys: "distinct (map fst (su_Counts s))" by (simp add: s summary_counts_def comp_def)
  have counts: "map_of (su_Counts s) st =
      (let n = length (filter (\<lambda>r. r_status r = st) (created_since since (w_db w))) in if n = 0 then None else Some n)" for st
    by (auto simp: s summary_counts_def map_of_map_keys Let_def filter_empty_conv)
  have retried: "su_RetriedJobs s \<le> su_Total s" by (simp add: total s(5) summary_attempts_def)
  show ?thesis using s(1,2) total s(3,4) keys counts retried percentiles_ordered
    by (simp add: s(6,7) summary_latencies_def Let_def)
qed

definition demo_summary_world :: "unit world" where
  "demo_summary_world =
    \<lparr> w_db = demo_db, w_rd = (), w_faults = \<lambda>_. Good, w_clock = \<lambda>_. 0, w_rand = \<lambda>_. 0 \<rparr>"

theorem summary_consistent_witness:
  "\<exists>s w'. run_state (store_Summary 0) demo_summary_world = (Inr s, w') \<and> su_Total s = 1 \<and> w_db w' = demo_db"
proof -
  obtain s w' where r: "run_state (store_Summary 0) demo_summary_world = (Inr s, w')"
    by (simp add: store_Summary_def query_def db_read_def db1_def pop_fault_def on_db_def pass_def demo_summary_world_def
        case_prod_beta)
  have "length (created_since 0 (w_db demo_summary_world)) = 1"
    by (simp add: demo_summary_world_def demo_db_def demo_row_def created_since_def)
  with summary_consistent [OF r] r show ?thesis by (simp add: demo_summary_world_def)
qed

end
