(* ===== verification/Router.thy ===== *)
theory Router
  imports Control Summary Runner_Props
begin

text \<open>
  The HTTP surface as a whole, \<^verbatim>\<open>Handler\<close> of \<^verbatim>\<open>internal/api/server.go\<close>: the table of routes, the
  authentication around them, and the handlers that are not about jobs (probes, summary, metadata and
  the control plane). The state of a site is the world of the job handlers and the hub, which may be
  absent. Requests arrive parsed: the method, the segments of the (clean) path, the header, and the
  body as its handler decodes it. Prometheus' own handler answers \<^verbatim>\<open>/metrics\<close>.
\<close>

section \<open>Requests and replies\<close>

record request =
  rq_Method :: string
  rq_Path :: "string list"
  rq_Authorization :: string
  rq_Since :: string
  rq_Submit :: "submit_request decoded_body"
  rq_Target :: "int decoded_body"

datatype reply =
    Reply response
  | ErrReply int string string
  | ControlErrReply int control_error
  | ControlWorkersReply "worker_view list"
  | SentReply string
  | TargetReply string int
  | SummaryReply summary
  | MetaReply string
  | StatusReply string
  | MetricsReply
  | MuxReply int

fun reply_status :: "reply \<Rightarrow> int" where
  "reply_status (Reply r) = rs_Status r"
| "reply_status (ErrReply n _ _) = n"
| "reply_status (ControlErrReply n _) = n"
| "reply_status (ControlWorkersReply _) = 200"
| "reply_status (SentReply _) = 202"
| "reply_status (TargetReply _ _) = 202"
| "reply_status (SummaryReply _) = 200"
| "reply_status (MetaReply _) = 200"
| "reply_status (StatusReply _) = 200"
| "reply_status MetricsReply = 200"
| "reply_status (MuxReply n) = n"

record 'r site =
  st_world :: "'r world"
  st_hub :: "hub option"

type_synonym 'r serve = "('r site, reply) state"

definition answer :: "reply \<Rightarrow> 'r serve" where
  "answer x = State_Monad.return x"

text \<open>A handler that uses the store and the queue only.\<close>

definition on_world :: "('r, reply) prog \<Rightarrow> 'r serve" where
  "on_world m = State (\<lambda>s. case run_state m (st_world s) of (x, w) \<Rightarrow> (x, s\<lparr>st_world := w\<rparr>))"

definition job_handler :: "('r, response) prog \<Rightarrow> 'r serve" where
  "job_handler m = on_world (do { x \<leftarrow> m; pass (Reply x) })"

section \<open>The other handlers\<close>

text \<open>A ping is a call with no effect.\<close>

definition ping :: "('r, unit res) prog" where
  "ping = do {
    ft \<leftarrow> pop_fault;
    pass (case ft of Good \<Rightarrow> Inr () | Drop e \<Rightarrow> Inl e | Late e \<Rightarrow> Inl e) }"

definition handleHealthz :: "'r serve" where
  "handleHealthz = answer (StatusReply ''ok'')"

definition handleReadyz :: "'r serve" where
  "handleReadyz = on_world (do {
    x \<leftarrow> ping;
    (case x of
       Inl _ \<Rightarrow> pass (ErrReply 503 ''not_ready'' ''database unreachable'')
     | Inr _ \<Rightarrow> do {
         y \<leftarrow> ping;
         (case y of
            Inl _ \<Rightarrow> pass (ErrReply 503 ''not_ready'' ''redis unreachable'')
          | Inr _ \<Rightarrow> pass (StatusReply ''ready'')) }) })"

text \<open>\<open>parse_time\<close> is \<^verbatim>\<open>time.Parse\<close> with the layout \<^verbatim>\<open>RFC3339\<close>.\<close>

definition handleSummary :: "(string \<Rightarrow> time option) \<Rightarrow> string \<Rightarrow> 'r serve" where
  "handleSummary parse_time q = on_world (do {
    now \<leftarrow> time_Now;
    (case (if q = [] then Some (now - 3600 * second) else parse_time q) of
       None \<Rightarrow> pass (ErrReply 400 ''invalid_since'' ''since must be RFC3339.'')
     | Some since \<Rightarrow> do {
         x \<leftarrow> store_Summary since;
         (case x of
            Inl e \<Rightarrow> pass (ErrReply 503 ''storage_unavailable'' (Error e))
          | Inr su \<Rightarrow> pass (SummaryReply su)) }) })"

definition handleMeta :: "string \<Rightarrow> 'r serve" where
  "handleMeta version = answer (MetaReply version)"

definition no_control_plane :: reply where
  "no_control_plane = ErrReply 503 ''no_control_plane'' ''This API has no control plane attached.''"

definition handleControlWorkers :: "'r serve" where
  "handleControlWorkers = State (\<lambda>s.
    case st_hub s of None \<Rightarrow> (no_control_plane, s) | Some h \<Rightarrow> (ControlWorkersReply (Workers h), s))"

text \<open>A command stamps its identifier with the clock.\<close>

definition hub_command :: "(time \<Rightarrow> hub \<Rightarrow> control_error + hub) \<Rightarrow> reply \<Rightarrow> 'r serve" where
  "hub_command f ok = State (\<lambda>s.
    case st_hub s of
      None \<Rightarrow> (no_control_plane, s)
    | Some h \<Rightarrow>
        (case run_state time_Now (st_world s) of (now, w) \<Rightarrow>
           (case f now h of
              Inl e \<Rightarrow> (ControlErrReply 404 e, s\<lparr>st_world := w\<rparr>)
            | Inr h' \<Rightarrow> (ok, s\<lparr>st_world := w, st_hub := Some h'\<rparr>))))"

definition controlCmd :: "(time \<Rightarrow> string \<Rightarrow> hub \<Rightarrow> control_error + hub) \<Rightarrow> string \<Rightarrow> 'r serve" where
  "controlCmd f i = hub_command (\<lambda>now. f now i) (SentReply i)"

definition handleSetConcurrency :: "string \<Rightarrow> int decoded_body \<Rightarrow> 'r serve" where
  "handleSetConcurrency i body = State (\<lambda>s.
    case st_hub s of
      None \<Rightarrow> (no_control_plane, s)
    | Some _ \<Rightarrow>
        (case body of
           TooLarge \<Rightarrow> (ErrReply 400 ''invalid_json'' ''http: request body too large'', s)
         | BadJSON e \<Rightarrow> (ErrReply 400 ''invalid_json'' e, s)
         | Decoded target \<Rightarrow>
             run_state (hub_command (\<lambda>now. hub_SetConcurrency now i target) (TargetReply i target)) s))"

section \<open>Routes\<close>

datatype endpoint =
    Healthz | Readyz | MetricsPage
  | SubmitJob | GetJobPage | GetResult | GetAttempts | CancelJobPage | DepthsPage | SummaryPage | ListDLQPage | RequeueDLQ
  | WorkersPage | MetaPage | ControlWorkers | DrainWorker | PauseWorker | ResumeWorker | ResizeWorker

datatype segment = Lit string | Wild

definition open_routes :: "bool \<Rightarrow> (string \<times> segment list \<times> endpoint) list" where
  "open_routes meters =
    [(''GET'', [Lit ''healthz''], Healthz), (''GET'', [Lit ''readyz''], Readyz)]
    @ (if meters then [(''GET'', [Lit ''metrics''], MetricsPage)] else [])"

definition api_path :: "segment list \<Rightarrow> segment list" where
  "api_path ps = Lit ''api'' # Lit ''v1'' # ps"

definition authed_routes :: "(string \<times> segment list \<times> endpoint) list" where
  "authed_routes =
    [(''POST'', api_path [Lit ''jobs''], SubmitJob),
     (''GET'', api_path [Lit ''jobs'', Wild], GetJobPage),
     (''GET'', api_path [Lit ''jobs'', Wild, Lit ''result''], GetResult),
     (''GET'', api_path [Lit ''jobs'', Wild, Lit ''attempts''], GetAttempts),
     (''DELETE'', api_path [Lit ''jobs'', Wild], CancelJobPage),
     (''GET'', api_path [Lit ''queues'', Lit ''depths''], DepthsPage),
     (''GET'', api_path [Lit ''stats'', Lit ''summary''], SummaryPage),
     (''GET'', api_path [Lit ''dlq''], ListDLQPage),
     (''POST'', api_path [Lit ''dlq'', Wild, Lit ''requeue''], RequeueDLQ),
     (''GET'', api_path [Lit ''workers''], WorkersPage),
     (''GET'', api_path [Lit ''meta''], MetaPage),
     (''GET'', api_path [Lit ''control'', Lit ''workers''], ControlWorkers),
     (''POST'', api_path [Lit ''control'', Lit ''workers'', Wild, Lit ''drain''], DrainWorker),
     (''POST'', api_path [Lit ''control'', Lit ''workers'', Wild, Lit ''pause''], PauseWorker),
     (''POST'', api_path [Lit ''control'', Lit ''workers'', Wild, Lit ''resume''], ResumeWorker),
     (''POST'', api_path [Lit ''control'', Lit ''workers'', Wild, Lit ''concurrency''], ResizeWorker)]"

text \<open>The match of a pattern, with the value of its wildcard; a wildcard does not match an empty segment.\<close>

fun match_path :: "segment list \<Rightarrow> string list \<Rightarrow> string option" where
  "match_path [] [] = Some []"
| "match_path (Lit s # ps) (x # xs) = (if x = s then match_path ps xs else None)"
| "match_path (Wild # ps) (x # xs) = (if x = [] then None else map_option (\<lambda>_. x) (match_path ps xs))"
| "match_path _ _ = None"

text \<open>A pattern with the method GET matches HEAD too.\<close>

definition match_method :: "string \<Rightarrow> string \<Rightarrow> bool" where
  "match_method pat meth = (pat = meth \<or> pat = ''GET'' \<and> meth = ''HEAD'')"

definition matches :: "string \<Rightarrow> string list \<Rightarrow> (string \<times> segment list \<times> endpoint) list \<Rightarrow> (endpoint \<times> string) list" where
  "matches meth path rs =
    List.map_filter (\<lambda>(m, ps, e). if match_method m meth then map_option (Pair e) (match_path ps path) else None) rs"

text \<open>What a path with no route for its method gets: 405 when another method has one, else 404.\<close>

definition mux_error :: "bool \<Rightarrow> string list \<Rightarrow> reply" where
  "mux_error meters path =
    MuxReply (if list_ex (\<lambda>(m, ps, e). match_path ps path \<noteq> None) (open_routes meters @ authed_routes) then 405 else 404)"

section \<open>The handler\<close>

record 'r deployment =
  se_redis :: "'r redis"
  se_codec :: codec
  se_queue :: queue
  se_server :: server
  se_meters :: bool
  se_version :: string
  se_sha256 :: "string \<Rightarrow> string"
  se_json_valid :: "string \<Rightarrow> bool"
  se_jsonb :: "string \<Rightarrow> string option"
  se_parse_time :: "string \<Rightarrow> time option"

text \<open>The handler of an endpoint; \<open>uuid\<close> is the identifier a submission draws.\<close>

fun handle_endpoint :: "'r deployment \<Rightarrow> request \<Rightarrow> string \<Rightarrow> string \<Rightarrow> endpoint \<Rightarrow> 'r serve" where
  "handle_endpoint u rq uuid i Healthz = handleHealthz"
| "handle_endpoint u rq uuid i Readyz = handleReadyz"
| "handle_endpoint u rq uuid i MetricsPage = answer MetricsReply"
| "handle_endpoint u rq uuid i SubmitJob = job_handler
    (handleSubmit (se_redis u) (se_codec u) (se_queue u) (se_server u) (se_json_valid u) (se_jsonb u) uuid (rq_Submit rq))"
| "handle_endpoint u rq uuid i GetJobPage = job_handler (handleGetJob i)"
| "handle_endpoint u rq uuid i GetResult = job_handler (handleGetResult i)"
| "handle_endpoint u rq uuid i GetAttempts = job_handler (handleGetAttempts i)"
| "handle_endpoint u rq uuid i CancelJobPage = job_handler (handleCancel (se_redis u) (se_queue u) i)"
| "handle_endpoint u rq uuid i DepthsPage = job_handler (handleDepths (se_redis u) (se_queue u))"
| "handle_endpoint u rq uuid i SummaryPage = handleSummary (se_parse_time u) (rq_Since rq)"
| "handle_endpoint u rq uuid i ListDLQPage = job_handler handleListDLQ"
| "handle_endpoint u rq uuid i RequeueDLQ = job_handler (handleRequeueDLQ (se_redis u) (se_codec u) (se_queue u) i)"
| "handle_endpoint u rq uuid i WorkersPage = job_handler handleWorkers"
| "handle_endpoint u rq uuid i MetaPage = handleMeta (se_version u)"
| "handle_endpoint u rq uuid i ControlWorkers = handleControlWorkers"
| "handle_endpoint u rq uuid i DrainWorker = controlCmd hub_Drain i"
| "handle_endpoint u rq uuid i PauseWorker = controlCmd hub_Pause i"
| "handle_endpoint u rq uuid i ResumeWorker = controlCmd hub_Resume i"
| "handle_endpoint u rq uuid i ResizeWorker = handleSetConcurrency i (rq_Target rq)"

definition refuse :: "string \<Rightarrow> 'r serve" where
  "refuse msg = answer (ErrReply 401 ''unauthorized'' msg)"

definition serve_http :: "'r deployment \<Rightarrow> string \<Rightarrow> request \<Rightarrow> 'r serve" where
  "serve_http u uuid rq =
    (case matches (rq_Method rq) (rq_Path rq) (open_routes (se_meters u)) of
       (e, i) # _ \<Rightarrow> handle_endpoint u rq uuid i e
     | [] \<Rightarrow>
         (case matches (rq_Method rq) (rq_Path rq) authed_routes of
            (e, i) # _ \<Rightarrow> auth (se_sha256 u) (se_server u) (rq_Authorization rq) refuse (handle_endpoint u rq uuid i e)
          | [] \<Rightarrow> answer (mux_error (se_meters u) (rq_Path rq))))"

section \<open>Authentication around the routes\<close>

lemma matches_endpoint: "(e, i) \<in> set (matches meth path rs) \<Longrightarrow> e \<in> (snd \<circ> snd) ` set rs"
  by (force simp: matches_def List.map_filter_def split: if_splits)

lemma open_endpoints: "matches meth path (open_routes b) = (e, i) # es \<Longrightarrow> e \<in> {Healthz, Readyz, MetricsPage}"
  using matches_endpoint [of e i meth path "open_routes b"] by (auto simp: open_routes_def split: if_splits)

lemma open_endpoint_keeps:
  assumes "e \<in> {Healthz, Readyz, MetricsPage}" and "run_state (handle_endpoint u rq uuid i e) s = (x, s')"
  shows "st_hub s' = st_hub s \<and> w_db (st_world s') = w_db (st_world s) \<and> w_rd (st_world s') = w_rd (st_world s)"
  using assms
  by (auto simp: handleHealthz_def handleReadyz_def answer_def on_world_def ping_def pop_fault_def pass_def
      split: prod.splits fault.splits)

text \<open>The tokens a server accepts, under the idealisation that its digests have no second preimage.\<close>

lemma auth_check_tokens:
  assumes "sv_tokens sv = NewServer_tokens sha256 ts" and "ts \<noteq> []"
    and "\<And>x t. t \<in> set ts \<Longrightarrow> sha256 x = sha256 t \<Longrightarrow> x = t"
  shows "auth_check sha256 sv h = None \<longleftrightarrow> (\<exists>t \<in> set ts. t \<noteq> [] \<and> h = bearer_prefix @ t)"
proof
  assume "auth_check sha256 sv h = None"
  with assms(1,2) have h: "\<not> length h \<le> length bearer_prefix" "take (length bearer_prefix) h = bearer_prefix"
    and "list_ex (\<lambda>want. sha256 (drop (length bearer_prefix) h) = want) (sv_tokens sv)"
    by (auto simp: auth_check_def NewServer_tokens_def split: if_splits)
  then obtain t where t: "t \<in> set ts" "sha256 (drop (length bearer_prefix) h) = sha256 t"
    using assms(1) by (auto simp: list_ex_iff NewServer_tokens_def)
  then have "drop (length bearer_prefix) h = t" using assms(3) by blast
  moreover have "h = take (length bearer_prefix) h @ drop (length bearer_prefix) h" by simp
  ultimately have "h = bearer_prefix @ t" using h(2) by simp
  with h t show "\<exists>t \<in> set ts. t \<noteq> [] \<and> h = bearer_prefix @ t" by auto
next
  assume "\<exists>t \<in> set ts. t \<noteq> [] \<and> h = bearer_prefix @ t"
  then show "auth_check sha256 sv h = None"
    using assms(1) by (auto simp: auth_check_def NewServer_tokens_def list_ex_iff)
qed

text \<open>
  C12. Nothing is done for a stranger. When the server has tokens and the request carries none of them, no
  request, of any method and path, changes the database, the queue or the hub; its reply is 401, 404 or
  405, unless the path is one of the probes or the metrics page. The digest is taken to have no second
  preimage for the configured tokens.
\<close>

theorem stranger_changes_nothing:
  assumes "sv_tokens (se_server u) = NewServer_tokens (se_sha256 u) ts" and "ts \<noteq> []"
    and "\<And>x t. t \<in> set ts \<Longrightarrow> se_sha256 u x = se_sha256 u t \<Longrightarrow> x = t"
    and "\<And>t. t \<in> set ts \<Longrightarrow> rq_Authorization rq \<noteq> bearer_prefix @ t"
    and "run_state (serve_http u uuid rq) s = (x, s')"
  shows "st_hub s' = st_hub s \<and> w_db (st_world s') = w_db (st_world s) \<and> w_rd (st_world s') = w_rd (st_world s)
    \<and> (reply_status x \<in> {401, 404, 405} \<or> matches (rq_Method rq) (rq_Path rq) (open_routes (se_meters u)) \<noteq> [])"
proof (cases "matches (rq_Method rq) (rq_Path rq) (open_routes (se_meters u))")
  case Nil
  have no: "auth_check (se_sha256 u) (se_server u) (rq_Authorization rq) \<noteq> None"
    using auth_check_tokens [OF assms(1-3)] assms(4) by blast
  then obtain msg where "auth_check (se_sha256 u) (se_server u) (rq_Authorization rq) = Some msg" by auto
  with Nil assms(5) show ?thesis
    by (auto simp: serve_http_def auth_def refuse_def answer_def mux_error_def split: list.splits prod.splits if_splits)
next
  case (Cons a es)
  obtain e i where a: "a = (e, i)" by fastforce
  with Cons assms(5) have "run_state (handle_endpoint u rq uuid i e) s = (x, s')" by (simp add: serve_http_def)
  moreover have "e \<in> {Healthz, Readyz, MetricsPage}" using open_endpoints Cons a by simp
  ultimately show ?thesis using open_endpoint_keeps Cons by simp
qed

lemma handle_endpoint_tokens:
  "handle_endpoint (u\<lparr>se_server := (se_server u)\<lparr>sv_tokens := ts\<rparr>\<rparr>) rq uuid i e = handle_endpoint u rq uuid i e"
  by (cases e) (simp_all add: handleSubmit_def split: decoded_body.split)

text \<open>
  A token changes nothing else. A request that carries one of the server's tokens is served exactly as
  by the same server without authentication, in every state.
\<close>

lemma token_transparent:
  assumes "sv_tokens (se_server u) = NewServer_tokens (se_sha256 u) ts" and "t \<in> set ts" and "t \<noteq> []"
    and "rq_Authorization rq = bearer_prefix @ t"
  shows "serve_http u uuid rq = serve_http (u\<lparr>se_server := (se_server u)\<lparr>sv_tokens := []\<rparr>\<rparr>) uuid rq"
proof -
  have "auth_check (se_sha256 u) (se_server u) (rq_Authorization rq) = None"
    using assms by (auto simp: auth_check_def NewServer_tokens_def list_ex_iff)
  moreover have "auth_check (se_sha256 u) ((se_server u)\<lparr>sv_tokens := []\<rparr>) (rq_Authorization rq) = None"
    by (simp add: auth_check_def)
  ultimately show ?thesis
    by (auto simp: serve_http_def auth_def handle_endpoint_tokens split: list.split)
qed

section \<open>Submission\<close>

lemma Enqueue_db: "hoare (services (\<lambda>d s. G d)) (Enqueue R C q env t) (\<lambda>_. services (\<lambda>d s. G d))"
  by (cases "Encode C env")
    (auto simp: Enqueue_def intro!: services_pass hoare_if hoare_bind [OF rcmd_db] hoare_bind [OF services_time_Now])

text \<open>
  What a submission leaves in the database: a fresh PENDING row with everything that was asked for, the
  defaults where nothing was. A delay counts from the creation, a time is taken as it is.
\<close>

definition requested_time :: "submit_request \<Rightarrow> time \<Rightarrow> time" where
  "requested_time req created =
    (let t = (if sq_DelaySeconds req > 0 then created + wrap64 (sq_DelaySeconds req * second) else sq_ScheduledAt req)
     in if IsZero t then created else t)"

definition as_requested :: "(string \<Rightarrow> string option) \<Rightarrow> submit_request \<Rightarrow> job_row \<Rightarrow> bool" where
  "as_requested jsonb req r =
    (r_status r = StatusPending \<and> r_attempt_count r = 0 \<and> r_lease_epoch r = 0
      \<and> r_type r = sq_Type req
      \<and> jsonb (if length (sq_Payload req) > 0 then sq_Payload req else ''null'') = Some (r_payload r)
      \<and> r_queue r = (if sq_Queue req = [] then ''default'' else sq_Queue req)
      \<and> r_priority r = (if sq_Priority req = [] then ''default'' else sq_Priority req)
      \<and> r_max_attempts r = (if sq_MaxAttempts req = 0 then 5 else sq_MaxAttempts req)
      \<and> r_idempotency_key r = (if sq_IdempotencyKey req = [] then None else Some (sq_IdempotencyKey req))
      \<and> r_scheduled_at r = requested_time req (r_created_at r))"

definition stored_job :: "(string \<Rightarrow> string option) \<Rightarrow> submit_request \<Rightarrow> string \<Rightarrow> db \<Rightarrow> bool" where
  "stored_job jsonb req uuid d =
    ((sq_DelaySeconds req \<le> 0 \<or> IsZero (sq_ScheduledAt req))
      \<and> (\<exists>r. job_at d uuid = Some r \<and> as_requested jsonb req r))"

lemma stored_job_SetEnqueued:
  assumes "stored_job jsonb req uuid d"
  shows "stored_job jsonb req uuid (snd (SetEnqueued ft i sid d))"
proof -
  have "jobs (snd (SetEnqueued ft i sid d)) = jobs d \<or>
    jobs (snd (SetEnqueued ft i sid d)) = update_where (\<lambda>r. r_id r = i \<and> r_enqueued_stream_id r = None)
         (\<lambda>r. r\<lparr>r_enqueued_stream_id := Some sid, r_updated_at := db_now d\<rparr>) (jobs d)"
    by (cases ft) (simp_all add: SetEnqueued_def exec_stmt_def update_jobs_def)
  with assms show ?thesis by (auto simp: stored_job_def job_at_def as_requested_def table_simps)
qed

lemma New_as_requested:
  assumes "submit_schedule req now = Some sched"
    and "New json_valid uuid (sq_Type req) (sq_Payload req)
      \<lparr> o_Queue = sq_Queue req, o_Priority = sq_Priority req, o_MaxAttempts = sq_MaxAttempts req,
        o_IdempotencyKey = sq_IdempotencyKey req, o_ScheduledAt = sched \<rparr> now = Inr j"
    and "jsonb (if length (sq_Payload req) > 0 then sq_Payload req else ''null'') = Some p"
  shows "as_requested jsonb req (new_row j p t)"
proof -
  have "j_CreatedAt j = now" "j_ScheduledAt j = (if IsZero sched then now else sched)"
    using assms(2) by (auto simp: New_def Let_def split: if_splits)
  then have "j_ScheduledAt j = requested_time req (j_CreatedAt j)"
    using assms(1) by (auto simp: requested_time_def submit_schedule_def IsZero_def Let_def split: if_splits)
  then show ?thesis using assms(2,3)
    by (auto simp: as_requested_def new_row_def New_def Let_def DefaultQueue_def PriorityDefault_def DefaultMaxAttempts_def
        split: if_splits)
qed

lemma CreateJob_stored:
  assumes "CreateJob jsonb ft fe j d = (x, d')" and "submit_schedule req now = Some sched"
    and "New json_valid uuid (sq_Type req) (sq_Payload req)
      \<lparr> o_Queue = sq_Queue req, o_Priority = sq_Priority req, o_MaxAttempts = sq_MaxAttempts req,
        o_IdempotencyKey = sq_IdempotencyKey req, o_ScheduledAt = sched \<rparr> now = Inr j"
  shows "(x = Inr (j, True) \<and> stored_job jsonb req uuid d') \<or> (\<exists>j'. x = Inr (j', False) \<and> d' = d) \<or> (\<exists>e. x = Inl e)"
proof -
  have j: "j_ID j = uuid" "j_Payload j = sq_Payload req"
    using assms(3) by (auto simp: New_def Let_def split: if_splits)
  let ?p = "if length (j_Payload j) > 0 then j_Payload j else ''null''"
  obtain y d1 where r: "remote ft (insert_job jsonb j ?p) d = (y, d1)" by fastforce
  show ?thesis
  proof (cases "y = Inr Inserted")
    case True
    with r have "insert_job jsonb j ?p d = (Inserted, d1)" by (auto intro: remote_Inr)
    then obtain p where "jsonb ?p = Some p" "jobs d1 = jobs d @ [new_row j p (db_now d)]" "job_at d uuid = None"
      using j by (auto simp: insert_job_def split: option.splits if_splits)
    moreover have "sq_DelaySeconds req \<le> 0 \<or> IsZero (sq_ScheduledAt req)" "r_id (new_row j p (db_now d)) = uuid"
      using assms(2) j by (auto simp: submit_schedule_def new_row_def split: if_splits)
    ultimately have "stored_job jsonb req uuid d1"
      using New_as_requested [OF assms(2,3), of jsonb p "db_now d"] unfolding j(2)
      by (simp add: stored_job_def job_at_def)
    moreover have "x = Inr (j, True) \<and> (\<exists>ev dt. d' = addEvent fe (j_ID j) ev dt d1)"
      using assms(1) r True by (auto simp: CreateJob_def Let_def)
    ultimately show ?thesis by (auto simp: stored_job_def)
  next
    case False
    have "d1 = d" if "y = Inr NoRows"
      using remote_Inr [of ft "insert_job jsonb j ?p" d] r that by (auto simp: insert_job_def split: option.splits if_splits)
    with False assms(1) r show ?thesis
      by (cases y) (auto simp: CreateJob_def Let_def split: insert_result.splits sum.splits if_splits)
  qed
qed

text \<open>The answers of a submission, from a database \<open>d0\<close> and a server \<open>s0\<close>.\<close>

definition submit_post ::
  "(string \<Rightarrow> string option) \<Rightarrow> submit_request decoded_body \<Rightarrow> string \<Rightarrow> db \<Rightarrow> 'r \<Rightarrow> response \<Rightarrow> db \<Rightarrow> 'r \<Rightarrow> bool"
where
  "submit_post jsonb body uuid d0 s0 rs d s =
    (rs_Status rs = 201 \<and> (\<exists>req. body = Decoded req \<and> stored_job jsonb req uuid d)
     \<or> rs_Status rs \<in> {200, 400, 413} \<and> d = d0 \<and> s = s0
     \<or> rs_Status rs = 503 \<and> s = s0)"

lemma refused_post:
  "st \<in> {200, 400, 413} \<Longrightarrow>
    hoare (services (\<lambda>d s. d = d0 \<and> s = s0)) (writeJSON st b) (\<lambda>rs. services (submit_post jsonb body uuid d0 s0 rs))"
  by (auto simp: writeJSON_def submit_post_def intro!: services_pass)

lemma handleSubmit_post:
  "hoare (services (\<lambda>d s. d = d0 \<and> s = s0)) (handleSubmit R C q sv json_valid jsonb uuid body)
    (\<lambda>rs. services (submit_post jsonb body uuid d0 s0 rs))"
proof (cases body)
  case (Decoded req)
  let ?I = "\<lambda>d s. d = d0 \<and> s = s0"
  let ?Q = "\<lambda>rs. services (submit_post jsonb body uuid d0 s0 rs)"
  have hand: "hoare (services (\<lambda>d s. stored_job jsonb req uuid d)) (submit_handoff R C q j now)
      (\<lambda>_. services (\<lambda>d s. stored_job jsonb req uuid d))" for j now
    unfolding submit_handoff_def
    by (intro hoare_bind [OF Enqueue_db] hoare_res services_pass
        services_then [OF services_db1 [where J = "\<lambda>_ d s. stored_job jsonb req uuid d"] services_pass] stored_job_SetEnqueued)
  have answered: "hoare (services (\<lambda>d s. (created = Inr (j, True) \<and> stored_job jsonb req uuid d)
        \<or> (\<exists>j'. created = Inr (j', False) \<and> ?I d s) \<or> (\<exists>e. created = Inl e \<and> s = s0)))
      (case created of
         Inl _ \<Rightarrow> writeErr 503 ''storage_unavailable'' ''Could not persist the job.''
       | Inr (existing, False) \<Rightarrow> writeJSON 200 (JobBody existing)
       | Inr (_, True) \<Rightarrow> do { submit_handoff R C q j now; writeJSON 201 (JobBody j) }) ?Q"
    for j now and created :: "(job \<times> bool) res"
  proof (cases created)
    case (Inl e)
    then show ?thesis by (auto simp: writeErr_def writeJSON_def submit_post_def intro!: services_pass)
  next
    case (Inr p)
    obtain j' b where p: "p = (j', b)" by fastforce
    show ?thesis
    proof (cases b)
      case True
      have "hoare (services (\<lambda>d s. stored_job jsonb req uuid d)) (do { submit_handoff R C q j now; writeJSON 201 (JobBody j) }) ?Q"
        by (rule services_then [OF hand]) (auto simp: writeJSON_def submit_post_def Decoded intro!: services_pass)
      then have "hoare (services (\<lambda>d s. j' = j \<and> stored_job jsonb req uuid d))
          (do { submit_handoff R C q j now; writeJSON 201 (JobBody j) }) ?Q" by (rule services_pre [rotated]) simp
      with True Inr p show ?thesis by simp
    next
      case False
      have "hoare (services ?I) (writeJSON 200 (JobBody j')) ?Q" by (rule refused_post) simp
      with False Inr p show ?thesis by simp
    qed
  qed
  have create: "hoare (services ?I) (db2 (\<lambda>ft fe. CreateJob jsonb ft fe j))
      (\<lambda>created. services (\<lambda>d s. (created = Inr (j, True) \<and> stored_job jsonb req uuid d)
        \<or> (\<exists>j'. created = Inr (j', False) \<and> ?I d s) \<or> (\<exists>e. created = Inl e \<and> s = s0)))"
    if "submit_schedule req now = Some sched"
      and "New json_valid uuid (sq_Type req) (sq_Payload req)
        \<lparr> o_Queue = sq_Queue req, o_Priority = sq_Priority req, o_MaxAttempts = sq_MaxAttempts req,
          o_IdempotencyKey = sq_IdempotencyKey req, o_ScheduledAt = sched \<rparr> now = Inr j" for j sched now
  proof (rule services_db2)
    fix ft fe d s assume "?I d s"
    with CreateJob_stored [OF prod.collapse [symmetric] that, of jsonb ft fe d]
    show "fst (CreateJob jsonb ft fe j d) = Inr (j, True) \<and> stored_job jsonb req uuid (snd (CreateJob jsonb ft fe j d))
        \<or> (\<exists>j'. fst (CreateJob jsonb ft fe j d) = Inr (j', False) \<and> ?I (snd (CreateJob jsonb ft fe j d)) s)
        \<or> (\<exists>e. fst (CreateJob jsonb ft fe j d) = Inl e \<and> s = s0)" by auto
  qed
  show ?thesis
    unfolding handleSubmit_def writeErr_def
    by (auto simp: Decoded intro!: refused_post [where body = body, unfolded Decoded] hoare_bind [OF services_time_Now]
        hoare_bind [OF create answered [unfolded Decoded writeErr_def]] split: option.split sum.split)
qed (auto simp: handleSubmit_def writeErr_def intro!: refused_post)

text \<open>
  C10. The contract of a submission. Every answer is 200, 201, 400, 413 or 503. After a 201 the job is in the
  database as it was requested, whatever happened to the handoff to the queue: PENDING, never claimed, with the
  type, payload, queue, priority, number of attempts and idempotency key of the request, or their defaults where
  the request leaves them out, and due at its creation plus the delay, at the requested time, or at
  once; a request with both a delay and a time is never accepted. After a refusal or a replayed key the database and the queue are as before; after a 503 the queue is.
\<close>

theorem submission_contract:
  assumes "run_state (handleSubmit R C q sv json_valid jsonb uuid body) w = (rs, w')"
  shows "rs_Status rs \<in> {200, 201, 400, 413, 503}
    \<and> (rs_Status rs = 201 \<longrightarrow> (\<exists>req r. body = Decoded req \<and> job_at (w_db w') uuid = Some r
        \<and> (sq_DelaySeconds req \<le> 0 \<or> IsZero (sq_ScheduledAt req))
        \<and> r_status r = StatusPending \<and> r_attempt_count r = 0 \<and> r_lease_epoch r = 0
        \<and> r_type r = sq_Type req
        \<and> jsonb (if length (sq_Payload req) > 0 then sq_Payload req else ''null'') = Some (r_payload r)
        \<and> r_queue r = (if sq_Queue req = [] then ''default'' else sq_Queue req)
        \<and> r_priority r = (if sq_Priority req = [] then ''default'' else sq_Priority req)
        \<and> r_max_attempts r = (if sq_MaxAttempts req = 0 then 5 else sq_MaxAttempts req)
        \<and> r_idempotency_key r = (if sq_IdempotencyKey req = [] then None else Some (sq_IdempotencyKey req))
        \<and> r_scheduled_at r = requested_time req (r_created_at r)))
    \<and> (rs_Status rs \<in> {200, 400, 413} \<longrightarrow> w_db w' = w_db w \<and> w_rd w' = w_rd w)
    \<and> (rs_Status rs = 503 \<longrightarrow> w_rd w' = w_rd w)"
  using hoareD [OF handleSubmit_post [of "w_db w" "w_rd w"] _ assms]
  by (auto simp: services_def submit_post_def stored_job_def as_requested_def)

theorem submission_contract_witness:
  "rs_Status (fst (run_state demo_submit demo_world)) = 201
    \<and> (\<exists>r. job_at (w_db (snd (run_state demo_submit demo_world))) ''j1'' = Some r \<and> r_status r = StatusPending
        \<and> r_type r = ''mail'' \<and> r_payload r = ''{}'')"
proof -
  obtain rs w' where r: "run_state demo_submit demo_world = (rs, w')" by fastforce
  with demo_submit_status have "rs_Status rs = 201" by simp
  with submission_contract [OF r [unfolded demo_submit_def]] r show ?thesis by (auto simp: demo_request_def)
qed

definition demo_deployment :: "mem deployment" where
  "demo_deployment =
    \<lparr> se_redis = redis_mem, se_codec = frame_codec, se_queue = demo_queue,
      se_server = demo_server\<lparr>sv_tokens := [''T'']\<rparr>, se_meters = True, se_version = ''0.1.0'', se_sha256 = id,
      se_json_valid = \<lambda>_. True, se_jsonb = Some, se_parse_time = \<lambda>_. None \<rparr>"

definition demo_post :: "string \<Rightarrow> request" where
  "demo_post h =
    \<lparr> rq_Method = ''POST'', rq_Path = [''api'', ''v1'', ''jobs''], rq_Authorization = h, rq_Since = [],
      rq_Submit = Decoded demo_request, rq_Target = TooLarge \<rparr>"

definition demo_site :: "mem site" where
  "demo_site = \<lparr> st_world = demo_world, st_hub = Some demo_hub \<rparr>"

lemma demo_tokens: "sv_tokens (se_server demo_deployment) = NewServer_tokens (se_sha256 demo_deployment) [''T'']"
  by (simp add: demo_deployment_def NewServer_tokens_def)

theorem stranger_changes_nothing_witness:
  "\<exists>x s'. run_state (serve_http demo_deployment ''j1'' (demo_post ''Bearer S'')) demo_site = (x, s')
    \<and> reply_status x \<in> {401, 404, 405} \<and> w_db (st_world s') = w_db demo_world \<and> st_hub s' = Some demo_hub"
proof -
  obtain x s' where r: "run_state (serve_http demo_deployment ''j1'' (demo_post ''Bearer S'')) demo_site = (x, s')" by fastforce
  have h: "rq_Authorization (demo_post ''Bearer S'') \<noteq> bearer_prefix @ t" if "t \<in> set [''T'']" for t
    using that by (simp add: demo_post_def bearer_prefix_def)
  have p: "se_sha256 demo_deployment x = se_sha256 demo_deployment t \<Longrightarrow> x = t" for x t by (simp add: demo_deployment_def)
  have m: "matches (rq_Method (demo_post ''Bearer S'')) (rq_Path (demo_post ''Bearer S'')) (open_routes (se_meters demo_deployment)) = []"
    by (simp add: demo_post_def demo_deployment_def matches_def open_routes_def match_method_def List.map_filter_def)
  from stranger_changes_nothing [OF demo_tokens _ p h r] m r show ?thesis by (simp add: demo_site_def)
qed

end
