(* ===== verification/Golib.thy ===== *)
theory Golib
  imports Retry
begin

text \<open>
  What the program uses of Go's \<^verbatim>\<open>strings\<close>, \<^verbatim>\<open>strconv\<close> and \<^verbatim>\<open>time\<close> packages to read text: strings are
  their bytes, integers and durations have 64 bits.
\<close>

section \<open>Integers\<close>

definition is_digit :: "char \<Rightarrow> bool" where
  "is_digit c = (48 \<le> (of_char c :: nat) \<and> (of_char c :: nat) \<le> 57)"

definition digit_val :: "char \<Rightarrow> int" where
  "digit_val c = int (of_char c) - 48"

definition digits_val :: "string \<Rightarrow> int" where
  "digits_val ds = foldl (\<lambda>n c. n * 10 + digit_val c) 0 ds"

text \<open>\<^verbatim>\<open>strconv.Atoi\<close>: an optional sign, decimal digits, and the range of 64 bits.\<close>

definition Atoi :: "string \<Rightarrow> int option" where
  "Atoi s =
    (let neg = (case s of c # _ \<Rightarrow> c = CHR ''-'' | [] \<Rightarrow> False);
         ds = (case s of c # cs \<Rightarrow> if c = CHR ''-'' \<or> c = CHR ''+'' then cs else s | [] \<Rightarrow> []);
         n = (if neg then - digits_val ds else digits_val ds)
     in if ds = [] \<or> \<not> list_all is_digit ds \<or> n < - (2 ^ 63) \<or> n \<ge> 2 ^ 63 then None else Some n)"

definition ParseBool :: "string \<Rightarrow> bool option" where
  "ParseBool s =
    (if s \<in> set [''1'', ''t'', ''T'', ''true'', ''TRUE'', ''True''] then Some True
     else if s \<in> set [''0'', ''f'', ''F'', ''false'', ''FALSE'', ''False''] then Some False
     else None)"

lemma digit_char_val [simp]: "d < 10 \<Longrightarrow> is_digit (digit_char d)" "d < 10 \<Longrightarrow> digit_val (digit_char d) = int d"
  by (simp_all add: is_digit_def digit_val_def digit_char_def)

lemma digit_char_sign: "d < 10 \<Longrightarrow> digit_char d \<noteq> CHR ''-'' \<and> digit_char d \<noteq> CHR ''+''"
proof -
  assume "d < 10"
  then have "is_digit (digit_char d)" by simp
  moreover have "\<not> is_digit CHR ''-''" "\<not> is_digit CHR ''+''" by (simp_all add: is_digit_def)
  ultimately show ?thesis by metis
qed

lemma digits_val_snoc [simp]: "digits_val (ds @ [c]) = digits_val ds * 10 + digit_val c"
  by (simp add: digits_val_def)

lemma dec_of_nat_digits: "list_all is_digit (dec_of_nat n) \<and> digits_val (dec_of_nat n) = int n"
proof (induction n rule: dec_of_nat.induct)
  case (1 n)
  show ?case
  proof (cases "n < 10")
    case True
    then show ?thesis by (subst (1 2) dec_of_nat.simps) (simp add: digits_val_def)
  next
    case False
    with 1 have "list_all is_digit (dec_of_nat (n div 10))" "digits_val (dec_of_nat (n div 10)) = int (n div 10)" by simp_all
    with False show ?thesis by (subst (1 2) dec_of_nat.simps) (simp add: zdiv_int zmod_int)
  qed
qed

lemma dec_of_nat_Cons: "\<exists>c cs. dec_of_nat n = c # cs \<and> c \<noteq> CHR ''-'' \<and> c \<noteq> CHR ''+''"
proof -
  obtain c cs where c: "dec_of_nat n = c # cs" by (cases "dec_of_nat n") simp_all
  then have "is_digit c" using dec_of_nat_digits [of n] by simp
  then have "c \<noteq> CHR ''-'' \<and> c \<noteq> CHR ''+''" by (auto simp: is_digit_def)
  with c show ?thesis by blast
qed

text \<open>Reading back what \<^verbatim>\<open>%d\<close> prints.\<close>

lemma Atoi_dec_of_int: "- (2 ^ 63) \<le> n \<Longrightarrow> n < 2 ^ 63 \<Longrightarrow> Atoi (dec_of_int n) = Some n"
proof -
  assume r: "- (2 ^ 63) \<le> n" "n < 2 ^ 63"
  obtain c cs where c: "dec_of_nat (nat n) = c # cs" "c \<noteq> CHR ''-''" "c \<noteq> CHR ''+''" using dec_of_nat_Cons by blast
  have d: "list_all is_digit (dec_of_nat m)" "digits_val (dec_of_nat m) = int m" for m using dec_of_nat_digits by simp_all
  show ?thesis
  proof (cases "n < 0")
    case True
    with r d show ?thesis by (simp add: Atoi_def dec_of_int_def Let_def)
  next
    case False
    with r c d [of "nat n"] show ?thesis by (simp add: Atoi_def dec_of_int_def Let_def)
  qed
qed

section \<open>Durations\<close>

text \<open>
  \<^verbatim>\<open>time.ParseDuration\<close>. The digits before the point overflow above \<open>2 ^ 63\<close>; those after it that do not
  fit are dropped.
\<close>

fun leadingInt :: "int \<Rightarrow> string \<Rightarrow> (int \<times> string) option" where
  "leadingInt x [] = Some (x, [])"
| "leadingInt x (c # cs) =
    (if \<not> is_digit c then Some (x, c # cs)
     else if x > 2 ^ 63 div 10 then None
     else if x * 10 + digit_val c > 2 ^ 63 then None
     else leadingInt (x * 10 + digit_val c) cs)"

fun leadingFraction :: "int \<Rightarrow> int \<Rightarrow> bool \<Rightarrow> string \<Rightarrow> int \<times> int \<times> string" where
  "leadingFraction x scale over [] = (x, scale, [])"
| "leadingFraction x scale over (c # cs) =
    (if \<not> is_digit c then (x, scale, c # cs)
     else if over \<or> x > (2 ^ 63 - 1) div 10 \<or> x * 10 + digit_val c > 2 ^ 63 then leadingFraction x scale True cs
     else leadingFraction (x * 10 + digit_val c) (scale * 10) over cs)"

text \<open>The micro sign has two encodings.\<close>

definition unitMap :: "(string \<times> int) list" where
  "unitMap = [(''ns'', 1), (''us'', 1000), ([CHR 0xC2, CHR 0xB5, CHR ''s''], 1000),
    ([CHR 0xCE, CHR 0xBC, CHR ''s''], 1000), (''ms'', millisecond), (''s'', second), (''m'', 60 * second),
    (''h'', 3600 * second)]"

definition number_start :: "char \<Rightarrow> bool" where
  "number_start c = (c = CHR ''.'' \<or> is_digit c)"

text \<open>
  One term, a number and its unit: the nanoseconds and the rest. The product of the fraction is
  computed in floating point by Go, exactly here; its integer part is taken.
\<close>

definition duration_term :: "string \<Rightarrow> (int \<times> string) option" where
  "duration_term s =
    (if s = [] \<or> \<not> number_start (hd s) then None
     else case leadingInt 0 s of
       None \<Rightarrow> None
     | Some (v, r) \<Rightarrow>
         let pre = (length r \<noteq> length s);
             point = (r \<noteq> [] \<and> hd r = CHR ''.'');
             (f, scale, r') = (if point then leadingFraction 0 1 False (tl r) else (0, 1, r));
             post = (point \<and> length r' \<noteq> length (tl r));
             u = takeWhile (\<lambda>c. \<not> number_start c) r'
         in if \<not> pre \<and> \<not> post then None
            else if u = [] then None
            else case map_of unitMap u of
              None \<Rightarrow> None
            | Some unit \<Rightarrow>
                if v > 2 ^ 63 div unit then None
                else let w = v * unit + (if f > 0 then f * unit div scale else 0) in
                  if w > 2 ^ 63 then None else Some (w, dropWhile (\<lambda>c. \<not> number_start c) r'))"

lemma leadingInt_length: "leadingInt x s = Some (v, r) \<Longrightarrow> length r \<le> length s"
  by (induction x s rule: leadingInt.induct) (auto simp: Let_def split: if_splits)

lemma leadingFraction_length: "leadingFraction x scale over s = (f, sc, r) \<Longrightarrow> length r \<le> length s"
  by (induction x scale over s arbitrary: f sc r rule: leadingFraction.induct) (auto simp: Let_def le_SucI split: if_splits)

lemma duration_term_length: "duration_term s = Some (w, r) \<Longrightarrow> length r < length s"
proof -
  assume t: "duration_term s = Some (w, r)"
  then obtain v q where q: "leadingInt 0 s = Some (v, q)" by (auto simp: duration_term_def split: if_splits option.splits)
  obtain f scale r' where f: "(if q \<noteq> [] \<and> hd q = CHR ''.'' then leadingFraction 0 1 False (tl q) else (0, 1, q)) = (f, scale, r')"
    by (metis prod.exhaust)
  have "length r' \<le> length s"
    using leadingInt_length [OF q] f leadingFraction_length [of 0 1 False "tl q" f scale r'] by (auto split: if_splits)
  moreover from t q f have "takeWhile (\<lambda>c. \<not> number_start c) r' \<noteq> []" "r = dropWhile (\<lambda>c. \<not> number_start c) r'"
    by (auto simp: duration_term_def Let_def split: if_splits option.splits)
  moreover have "length r' = length (takeWhile (\<lambda>c. \<not> number_start c) r') + length (dropWhile (\<lambda>c. \<not> number_start c) r')"
    by (metis length_append takeWhile_dropWhile_id)
  ultimately show ?thesis by (cases "takeWhile (\<lambda>c. \<not> number_start c) r'") simp_all
qed

function duration_terms :: "int \<Rightarrow> string \<Rightarrow> int option" where
  "duration_terms d s =
    (if s = [] then Some d
     else case duration_term s of
       None \<Rightarrow> None
     | Some (v, r) \<Rightarrow> if (d + v) mod 2 ^ 64 > 2 ^ 63 then None else duration_terms ((d + v) mod 2 ^ 64) r)"
  by pat_completeness auto
termination by (relation "measure (\<lambda>(d, s). length s)") (auto dest: duration_term_length)

declare duration_terms.simps [simp del]

definition ParseDuration :: "string \<Rightarrow> duration option" where
  "ParseDuration s =
    (let neg = (s \<noteq> [] \<and> hd s = CHR ''-'');
         r = (if s \<noteq> [] \<and> (hd s = CHR ''-'' \<or> hd s = CHR ''+'') then tl s else s)
     in if r = ''0'' then Some 0
        else if r = [] then None
        else case duration_terms 0 r of
          None \<Rightarrow> None
        | Some d \<Rightarrow> if neg then Some (- d) else if d > 2 ^ 63 - 1 then None else Some d)"

lemma duration_terms_bound: "0 \<le> d \<Longrightarrow> d \<le> 2 ^ 63 \<Longrightarrow> duration_terms d s = Some r \<Longrightarrow> 0 \<le> r \<and> r \<le> 2 ^ 63"
proof (induction d s rule: duration_terms.induct)
  case (1 d s)
  from "1.prems"(3) show ?case
    using "1.prems"(1,2) "1.IH" by (subst (asm) duration_terms.simps) (auto split: if_splits option.splits)
qed

lemma ParseDuration_range: "ParseDuration s = Some d \<Longrightarrow> - (2 ^ 63) \<le> d \<and> d < 2 ^ 63"
  by (auto simp: ParseDuration_def Let_def split: if_splits option.splits dest!: duration_terms_bound [of 0, simplified])

text \<open>A whole number of seconds reads back.\<close>

lemma digits_val_mono: "list_all is_digit ds \<Longrightarrow> 0 \<le> x \<Longrightarrow> x \<le> foldl (\<lambda>n c. n * 10 + digit_val c) x ds"
proof (induction ds arbitrary: x)
  case (Cons c ds)
  then have "0 \<le> digit_val c" by (simp add: is_digit_def digit_val_def)
  with Cons.prems have "x \<le> x * 10 + digit_val c" "0 \<le> x * 10 + digit_val c" by simp_all
  with Cons.IH [of "x * 10 + digit_val c"] Cons.prems show ?case by simp
qed simp

lemma leadingInt_digits:
  "list_all is_digit ds \<Longrightarrow> 0 \<le> x \<Longrightarrow> foldl (\<lambda>n c. n * 10 + digit_val c) x ds \<le> 2 ^ 63 \<Longrightarrow> \<not> is_digit u \<Longrightarrow>
    leadingInt x (ds @ u # us) = Some (foldl (\<lambda>n c. n * 10 + digit_val c) x ds, u # us)"
proof (induction ds arbitrary: x)
  case (Cons c ds)
  then have c: "0 \<le> digit_val c" "is_digit c" by (simp_all add: is_digit_def digit_val_def)
  then have n: "0 \<le> x * 10 + digit_val c" using Cons.prems by simp
  have "x * 10 + digit_val c \<le> 2 ^ 63" using digits_val_mono [of ds "x * 10 + digit_val c"] Cons.prems n by simp
  with c Cons.prems(2) have "\<not> x > 2 ^ 63 div 10" by simp
  with \<open>x * 10 + digit_val c \<le> 2 ^ 63\<close> c n Cons.prems Cons.IH [of "x * 10 + digit_val c"] show ?case by simp
qed simp

lemma duration_term_seconds:
  assumes "int n * second < 2 ^ 63"
  shows "duration_term (dec_of_nat n @ ''s'') = Some (int n * second, [])"
proof -
  obtain c cs where c: "dec_of_nat n = c # cs" by (cases "dec_of_nat n") simp_all
  have d: "list_all is_digit (dec_of_nat n)" "digits_val (dec_of_nat n) = int n" using dec_of_nat_digits by simp_all
  then have "is_digit c" using c by simp
  moreover have "leadingInt 0 (dec_of_nat n @ ''s'') = Some (int n, ''s'')"
    using leadingInt_digits [of "dec_of_nat n" 0 "CHR ''s''" "[]"] d assms by (simp add: digits_val_def is_digit_def)
  ultimately show ?thesis using c assms
    by (simp add: duration_term_def number_start_def is_digit_def unitMap_def)
qed

lemma ParseDuration_seconds:
  assumes "int n * second < 2 ^ 63"
  shows "ParseDuration (dec_of_nat n @ ''s'') = Some (int n * second)"
proof -
  have "duration_terms 0 (dec_of_nat n @ ''s'') = Some (int n * second)"
    using duration_term_seconds [OF assms] assms by (subst duration_terms.simps) (simp add: duration_terms.simps [of _ "[]"])
  moreover obtain c cs where "dec_of_nat n = c # cs" "c \<noteq> CHR ''-''" "c \<noteq> CHR ''+''" using dec_of_nat_Cons by blast
  ultimately show ?thesis using assms by (auto simp: ParseDuration_def Let_def)
qed

section \<open>Lists in strings\<close>

text \<open>The encodings of the white space of Unicode.\<close>

definition white_space :: "string list" where
  "white_space = map (\<lambda>n. [char_of n]) [9, 10, 11, 12, 13, 32 :: nat]
    @ [[CHR 0xC2, CHR 0x85], [CHR 0xC2, CHR 0xA0], [CHR 0xE1, CHR 0x9A, CHR 0x80]]
    @ map (\<lambda>n. [CHR 0xE2, CHR 0x80, char_of n]) ([128 ..< 139] @ [168, 169, 175 :: nat])
    @ [[CHR 0xE2, CHR 0x81, CHR 0x9F], [CHR 0xE3, CHR 0x80, CHR 0x80]]"

definition drop_prefix :: "string \<Rightarrow> string \<Rightarrow> string option" where
  "drop_prefix p s = (if take (length p) s = p then Some (drop (length p) s) else None)"

fun trim_with :: "string list \<Rightarrow> nat \<Rightarrow> string \<Rightarrow> string" where
  "trim_with ws 0 s = s"
| "trim_with ws (Suc n) s =
    (case filter (\<lambda>w. drop_prefix w s \<noteq> None) ws of
       [] \<Rightarrow> s
     | w # _ \<Rightarrow> trim_with ws n (drop (length w) s))"

definition TrimSpace :: "string \<Rightarrow> string" where
  "TrimSpace s =
    (let l = trim_with white_space (length s) s
     in rev (trim_with (map rev white_space) (length l) (rev l)))"

text \<open>\<^verbatim>\<open>strings.Split\<close> at a separator of one byte.\<close>

fun split_at :: "char \<Rightarrow> string \<Rightarrow> string list" where
  "split_at c [] = [[]]"
| "split_at c (x # xs) =
    (if x = c then [] # split_at c xs
     else case split_at c xs of [] \<Rightarrow> [[x]] | p # ps \<Rightarrow> (x # p) # ps)"

end
