(* ===== verification/Ctl.thy ===== *)
theory Ctl
  imports Router Golib
begin

text \<open>
  The command line tool, \<^verbatim>\<open>cmd/calligraphyctl/main.go\<close>, as a client of the API: which request each
  command sends, where the router takes it and with which code the tool exits. A request is lost, or
  its reply is, as the fault of the call says.
\<close>

section \<open>The client\<close>

text \<open>The bodies of requests as the handlers decode them, by \<^verbatim>\<open>encoding/json\<close>.\<close>

record decoders =
  dc_Submit :: "string \<Rightarrow> submit_request decoded_body"
  dc_Target :: "string \<Rightarrow> int decoded_body"

text \<open>
  The path and the query of a target. The two clients send at most one parameter, \<^verbatim>\<open>since\<close>, and no
  escapes.
\<close>

definition target_path :: "string \<Rightarrow> string list" where
  "target_path t = split_at (CHR ''/'') (drop 1 (takeWhile (\<lambda>c. c \<noteq> CHR ''?'') t))"

definition target_since :: "string \<Rightarrow> string" where
  "target_since t =
    (let q = drop 1 (dropWhile (\<lambda>c. c \<noteq> CHR ''?'') t)
     in if take 6 q = ''since='' then drop 6 q else [])"

definition client_request :: "decoders \<Rightarrow> string \<Rightarrow> string \<Rightarrow> string \<Rightarrow> string \<Rightarrow> request" where
  "client_request dc token meth path body =
    \<lparr> rq_Method = meth, rq_Path = target_path path,
      rq_Authorization = (if token \<noteq> [] then ''Bearer '' @ token else []), rq_Since = target_since path,
      rq_Submit = dc_Submit dc body, rq_Target = dc_Target dc body \<rparr>"

section \<open>Commands\<close>

datatype complaint = MissingArgument | UsageConcurrency | UnknownCommand string

text \<open>What the command line asks for: the request (method, path, body), a complaint, or the usage text.\<close>

datatype ctl_action = Ask string string string | Complain complaint | ShowUsage

definition withArg :: "string list \<Rightarrow> nat \<Rightarrow> (string \<Rightarrow> ctl_action) \<Rightarrow> ctl_action" where
  "withArg args n f = (if length args \<le> n then Complain MissingArgument else f (args ! n))"

definition ctl_get :: "string \<Rightarrow> ctl_action" where
  "ctl_get path = Ask ''GET'' path []"

definition ctl_command :: "string \<Rightarrow> string list \<Rightarrow> ctl_action" where
  "ctl_command since args =
    (case args of
       [] \<Rightarrow> ShowUsage
     | cmd # _ \<Rightarrow>
         if cmd = ''stats'' then ctl_get (''/api/v1/stats/summary?since='' @ since)
         else if cmd = ''depths'' then ctl_get ''/api/v1/queues/depths''
         else if cmd = ''workers'' then ctl_get ''/api/v1/workers''
         else if cmd = ''live'' then ctl_get ''/api/v1/control/workers''
         else if cmd = ''job'' then withArg args 1 (\<lambda>i. ctl_get (''/api/v1/jobs/'' @ i))
         else if cmd = ''attempts'' then withArg args 1 (\<lambda>i. ctl_get (''/api/v1/jobs/'' @ i @ ''/attempts''))
         else if cmd = ''cancel'' then withArg args 1 (\<lambda>i. Ask ''DELETE'' (''/api/v1/jobs/'' @ i) [])
         else if cmd = ''dlq'' then ctl_get ''/api/v1/dlq''
         else if cmd = ''requeue'' then withArg args 1 (\<lambda>i. Ask ''POST'' (''/api/v1/dlq/'' @ i @ ''/requeue'') [])
         else if cmd = ''drain'' then withArg args 1 (\<lambda>w. Ask ''POST'' (''/api/v1/control/workers/'' @ w @ ''/drain'') [])
         else if cmd = ''pause'' then withArg args 1 (\<lambda>w. Ask ''POST'' (''/api/v1/control/workers/'' @ w @ ''/pause'') [])
         else if cmd = ''resume'' then withArg args 1 (\<lambda>w. Ask ''POST'' (''/api/v1/control/workers/'' @ w @ ''/resume'') [])
         else if cmd = ''concurrency'' then
           (if length args < 3 then Complain UsageConcurrency
            else Ask ''POST'' (''/api/v1/control/workers/'' @ args ! 1 @ ''/concurrency'') (''{\"target\":'' @ args ! 2 @ ''}''))
         else Complain (UnknownCommand cmd))"

text \<open>The tool against a server: its exit code and the site after it.\<close>

definition ctl_main ::
  "'r deployment \<Rightarrow> decoders \<Rightarrow> string \<Rightarrow> string \<Rightarrow> go_error fault \<Rightarrow> string \<Rightarrow> string list \<Rightarrow> 'r site \<Rightarrow> int \<times> 'r site"
where
  "ctl_main u dc uuid token ft since args s =
    (case ctl_command since args of
       ShowUsage \<Rightarrow> (2, s)
     | Complain _ \<Rightarrow> (1, s)
     | Ask meth path body \<Rightarrow>
         (case remote ft (run_state (serve_http u uuid (client_request dc token meth path body))) s of
            (Inl _, s') \<Rightarrow> (1, s')
          | (Inr x, s') \<Rightarrow> (if reply_status x \<ge> 400 then 1 else 0, s')))"

section \<open>Where the commands go\<close>

text \<open>The commands by name, with the number of their arguments and the endpoint they are for.\<close>

definition ctl_spec :: "(string \<times> nat \<times> endpoint) list" where
  "ctl_spec =
    [(''stats'', 0, SummaryPage), (''depths'', 0, DepthsPage), (''workers'', 0, WorkersPage), (''live'', 0, ControlWorkers),
     (''dlq'', 0, ListDLQPage), (''job'', 1, GetJobPage), (''attempts'', 1, GetAttempts), (''cancel'', 1, CancelJobPage),
     (''requeue'', 1, RequeueDLQ), (''drain'', 1, DrainWorker), (''pause'', 1, PauseWorker), (''resume'', 1, ResumeWorker),
     (''concurrency'', 2, ResizeWorker)]"

text \<open>An identifier that stays one segment of the path: the mux redirects a path with the segments \<open>.\<close> and \<open>..\<close>.\<close>

definition plain_id :: "string \<Rightarrow> bool" where
  "plain_id i = (i \<notin> {[], ''.'', ''..''} \<and> list_all is_name_char i)"

lemma plain_free: "plain_id i \<Longrightarrow> CHR ''/'' \<notin> set i \<and> CHR ''?'' \<notin> set i"
  by (auto simp: plain_id_def list_all_iff is_name_char_def is_alnum_def)

lemma takeWhile_plain: "c \<notin> set i \<Longrightarrow> takeWhile (\<lambda>x. x \<noteq> c) (i @ t) = i @ takeWhile (\<lambda>x. x \<noteq> c) t"
  by (induction i) auto

lemma split_at_free: "c \<notin> set i \<Longrightarrow> split_at c i = [i]"
  by (induction i) auto

lemma split_at_plain: "c \<notin> set i \<Longrightarrow> split_at c (i @ c # t) = i # split_at c t"
  by (induction i) auto

lemma fixed_paths:
  "target_path (''/api/v1/stats/summary?since='' @ since) = [''api'', ''v1'', ''stats'', ''summary'']"
  "target_path ''/api/v1/queues/depths'' = [''api'', ''v1'', ''queues'', ''depths'']"
  "target_path ''/api/v1/workers'' = [''api'', ''v1'', ''workers'']"
  "target_path ''/api/v1/control/workers'' = [''api'', ''v1'', ''control'', ''workers'']"
  "target_path ''/api/v1/dlq'' = [''api'', ''v1'', ''dlq'']"
  "target_path ''/api/v1/jobs'' = [''api'', ''v1'', ''jobs'']"
  "target_path ''/api/v1/meta'' = [''api'', ''v1'', ''meta'']"
  by (simp_all add: target_path_def)

lemma id_paths:
  assumes "plain_id i"
  shows "target_path (''/api/v1/jobs/'' @ i) = [''api'', ''v1'', ''jobs'', i]"
    "target_path (''/api/v1/jobs/'' @ i @ ''/attempts'') = [''api'', ''v1'', ''jobs'', i, ''attempts'']"
    "target_path (''/api/v1/dlq/'' @ i @ ''/requeue'') = [''api'', ''v1'', ''dlq'', i, ''requeue'']"
    "target_path (''/api/v1/control/workers/'' @ i @ ''/drain'') = [''api'', ''v1'', ''control'', ''workers'', i, ''drain'']"
    "target_path (''/api/v1/control/workers/'' @ i @ ''/pause'') = [''api'', ''v1'', ''control'', ''workers'', i, ''pause'']"
    "target_path (''/api/v1/control/workers/'' @ i @ ''/resume'') = [''api'', ''v1'', ''control'', ''workers'', i, ''resume'']"
    "target_path (''/api/v1/control/workers/'' @ i @ ''/concurrency'') = [''api'', ''v1'', ''control'', ''workers'', i, ''concurrency'']"
  using plain_free [OF assms] takeWhile_plain [of "CHR ''?''" i "[]"]
  by (simp_all add: target_path_def takeWhile_plain split_at_free split_at_plain del: takeWhile_eq_all_conv)

lemmas route_eval = authed_routes_def open_routes_def api_path_def matches_def List.map_filter_def match_method_def

lemma fixed_routes:
  "matches ''GET'' [''api'', ''v1'', ''stats'', ''summary''] authed_routes = [(SummaryPage, [])]"
    "matches ''GET'' [''api'', ''v1'', ''queues'', ''depths''] authed_routes = [(DepthsPage, [])]"
    "matches ''GET'' [''api'', ''v1'', ''workers''] authed_routes = [(WorkersPage, [])]"
    "matches ''GET'' [''api'', ''v1'', ''control'', ''workers''] authed_routes = [(ControlWorkers, [])]"
    "matches ''GET'' [''api'', ''v1'', ''dlq''] authed_routes = [(ListDLQPage, [])]"
    "matches ''GET'' [''api'', ''v1'', ''meta''] authed_routes = [(MetaPage, [])]"
    "matches ''POST'' [''api'', ''v1'', ''jobs''] authed_routes = [(SubmitJob, [])]"
  by (simp_all add: route_eval)

lemma id_routes:
  assumes "i \<noteq> []"
  shows "matches ''GET'' [''api'', ''v1'', ''jobs'', i] authed_routes = [(GetJobPage, i)]"
    "matches ''GET'' [''api'', ''v1'', ''jobs'', i, ''attempts''] authed_routes = [(GetAttempts, i)]"
    "matches ''DELETE'' [''api'', ''v1'', ''jobs'', i] authed_routes = [(CancelJobPage, i)]"
    "matches ''POST'' [''api'', ''v1'', ''dlq'', i, ''requeue''] authed_routes = [(RequeueDLQ, i)]"
    "matches ''POST'' [''api'', ''v1'', ''control'', ''workers'', i, ''drain''] authed_routes = [(DrainWorker, i)]"
    "matches ''POST'' [''api'', ''v1'', ''control'', ''workers'', i, ''pause''] authed_routes = [(PauseWorker, i)]"
    "matches ''POST'' [''api'', ''v1'', ''control'', ''workers'', i, ''resume''] authed_routes = [(ResumeWorker, i)]"
    "matches ''POST'' [''api'', ''v1'', ''control'', ''workers'', i, ''concurrency''] authed_routes = [(ResizeWorker, i)]"
  using assms by (simp_all add: route_eval)

lemma not_open: "matches meth (x # ''v1'' # xs) (open_routes b) = []"
  by (simp add: route_eval)

text \<open>A request whose path has one route is its handler behind the authentication.\<close>

lemma serve_http_authed:
  "rq_Path rq = x # ''v1'' # xs \<Longrightarrow> matches (rq_Method rq) (rq_Path rq) authed_routes = [(e, i)] \<Longrightarrow>
    serve_http u uuid rq = auth (se_sha256 u) (se_server u) (rq_Authorization rq) refuse (handle_endpoint u rq uuid i e)"
  by (simp add: serve_http_def not_open)

lemma client_request_simps [simp]:
  "rq_Method (client_request dc token meth path body) = meth" "rq_Path (client_request dc token meth path body) = target_path path"
  "rq_Since (client_request dc token meth path body) = target_since path"
  "rq_Target (client_request dc token meth path body) = dc_Target dc body"
  "rq_Submit (client_request dc token meth path body) = dc_Submit dc body"
  "rq_Authorization (client_request dc token meth path body) = (if token \<noteq> [] then bearer_prefix @ token else [])"
  by (simp_all add: client_request_def bearer_prefix_def)

lemma ctl_command_eval:
  "ctl_command since (''stats'' # xs) = ctl_get (''/api/v1/stats/summary?since='' @ since)"
  "ctl_command since (''depths'' # xs) = ctl_get ''/api/v1/queues/depths''"
  "ctl_command since (''workers'' # xs) = ctl_get ''/api/v1/workers''"
  "ctl_command since (''live'' # xs) = ctl_get ''/api/v1/control/workers''"
  "ctl_command since (''dlq'' # xs) = ctl_get ''/api/v1/dlq''"
  "ctl_command since (''job'' # xs) = withArg (''job'' # xs) 1 (\<lambda>i. ctl_get (''/api/v1/jobs/'' @ i))"
  "ctl_command since (''attempts'' # xs) = withArg (''attempts'' # xs) 1 (\<lambda>i. ctl_get (''/api/v1/jobs/'' @ i @ ''/attempts''))"
  "ctl_command since (''cancel'' # xs) = withArg (''cancel'' # xs) 1 (\<lambda>i. Ask ''DELETE'' (''/api/v1/jobs/'' @ i) [])"
  "ctl_command since (''requeue'' # xs) = withArg (''requeue'' # xs) 1 (\<lambda>i. Ask ''POST'' (''/api/v1/dlq/'' @ i @ ''/requeue'') [])"
  "ctl_command since (''drain'' # xs) = withArg (''drain'' # xs) 1 (\<lambda>w. Ask ''POST'' (''/api/v1/control/workers/'' @ w @ ''/drain'') [])"
  "ctl_command since (''pause'' # xs) = withArg (''pause'' # xs) 1 (\<lambda>w. Ask ''POST'' (''/api/v1/control/workers/'' @ w @ ''/pause'') [])"
  "ctl_command since (''resume'' # xs) = withArg (''resume'' # xs) 1 (\<lambda>w. Ask ''POST'' (''/api/v1/control/workers/'' @ w @ ''/resume'') [])"
  "ctl_command since (''concurrency'' # xs) =
    (if length xs < 2 then Complain UsageConcurrency
     else Ask ''POST'' (''/api/v1/control/workers/'' @ xs ! 0 @ ''/concurrency'') (''{\"target\":'' @ xs ! 1 @ ''}''))"
  by (simp_all add: ctl_command_def)

lemma ctl_spec_cases:
  assumes "(cmd, n, e) \<in> set ctl_spec"
  shows "n = 0 \<and> (cmd, e) \<in> {(''stats'', SummaryPage), (''depths'', DepthsPage), (''workers'', WorkersPage), (''live'', ControlWorkers),
      (''dlq'', ListDLQPage)}
    \<or> n = 1 \<and> (cmd, e) \<in> {(''job'', GetJobPage), (''attempts'', GetAttempts), (''cancel'', CancelJobPage), (''requeue'', RequeueDLQ),
      (''drain'', DrainWorker), (''pause'', PauseWorker), (''resume'', ResumeWorker)}
    \<or> n = 2 \<and> cmd = ''concurrency'' \<and> e = ResizeWorker"
  using assms unfolding ctl_spec_def by (simp, elim disjE) simp_all

lemma since_query: "target_since (''/api/v1/stats/summary?since='' @ since) = since"
  by (simp add: target_since_def)

lemma ctl_command_serves:
  assumes "(cmd, n, e) \<in> set ctl_spec" and "length args = n" and "args \<noteq> [] \<longrightarrow> plain_id (hd args)"
  shows "\<exists>meth path body. ctl_command since (cmd # args) = Ask meth path body
    \<and> (\<exists>xs. target_path path = ''api'' # ''v1'' # xs) \<and> matches meth (target_path path) authed_routes = [(e, if args = [] then [] else hd args)]
    \<and> (e = SummaryPage \<longrightarrow> target_since path = since)
    \<and> (e = ResizeWorker \<longrightarrow> body = ''{\"target\":'' @ args ! 1 @ ''}'')"
proof -
  have ids: "i \<noteq> []" if "plain_id i" for i using that by (simp add: plain_id_def)
  from ctl_spec_cases [OF assms(1)] show ?thesis
  proof (elim disjE conjE)
    assume "n = 0" and c: "(cmd, e) \<in> {(''stats'', SummaryPage), (''depths'', DepthsPage), (''workers'', WorkersPage),
      (''live'', ControlWorkers), (''dlq'', ListDLQPage)}"
    with assms(2) have "args = []" by simp
    from c show ?thesis unfolding insert_iff empty_iff prod.inject
      by (elim disjE conjE) (simp_all add: \<open>args = []\<close> ctl_command_eval ctl_get_def fixed_paths [simplified] fixed_routes since_query [simplified])
  next
    assume "n = 1" and c: "(cmd, e) \<in> {(''job'', GetJobPage), (''attempts'', GetAttempts), (''cancel'', CancelJobPage),
      (''requeue'', RequeueDLQ), (''drain'', DrainWorker), (''pause'', PauseWorker), (''resume'', ResumeWorker)}"
    with assms(2,3) obtain i where i: "args = [i]" "plain_id i" by (cases args) auto
    from c show ?thesis unfolding insert_iff empty_iff prod.inject
      by (elim disjE conjE) (simp_all add: i ids ctl_command_eval ctl_get_def withArg_def id_paths [simplified] id_routes)
  next
    assume "n = 2" "cmd = ''concurrency''" "e = ResizeWorker"
    moreover from this assms(2,3) obtain i k where "args = [i, k]" "plain_id i"
      by (cases args; cases "tl args") auto
    ultimately show ?thesis by (simp add: ids ctl_command_eval id_paths [simplified] id_routes)
  qed
qed

text \<open>
  C34. Every command reaches its handler. A command of the tool with its arguments, the identifier among
  them in plain characters, sends one request, and the server answers it with the handler of that
  command's endpoint for that identifier, behind the authentication and nothing else; \<^verbatim>\<open>stats\<close> passes its
  time on, and \<^verbatim>\<open>concurrency\<close> its number as it was typed. The exit code is zero exactly when the reply
  arrives with a status below 400. Without arguments, with too few, or with an unknown command, nothing is sent
  and the code is not zero.
\<close>

theorem ctl_reaches_handlers:
  assumes "(cmd, n, e) \<in> set ctl_spec" and "args \<noteq> [] \<longrightarrow> plain_id (hd args)"
  shows "(length args = n \<longrightarrow> (\<exists>rq. rq_Authorization rq = (if token \<noteq> [] then bearer_prefix @ token else [])
        \<and> (e = SummaryPage \<longrightarrow> rq_Since rq = since)
        \<and> (e = ResizeWorker \<longrightarrow> rq_Target rq = dc_Target dc (''{\"target\":'' @ args ! 1 @ ''}''))
        \<and> ctl_main u dc uuid token ft since (cmd # args) s =
          (case remote ft (run_state (auth (se_sha256 u) (se_server u) (rq_Authorization rq) refuse
              (handle_endpoint u rq uuid (if args = [] then [] else hd args) e))) s of
             (Inl _, s') \<Rightarrow> (1, s')
           | (Inr x, s') \<Rightarrow> (if reply_status x \<ge> 400 then 1 else 0, s'))))
    \<and> (length args < n \<longrightarrow> ctl_main u dc uuid token ft since (cmd # args) s = (1, s))
    \<and> ctl_main u dc uuid token ft since [] s = (2, s)
    \<and> (other \<notin> fst ` set ctl_spec \<longrightarrow> ctl_main u dc uuid token ft since (other # args) s = (1, s))"
proof (intro conjI impI)
  assume "length args = n"
  from ctl_command_serves [OF assms(1) this assms(2), of since] obtain meth path body xs where
    c: "ctl_command since (cmd # args) = Ask meth path body" and p: "target_path path = ''api'' # ''v1'' # xs"
      "matches meth (target_path path) authed_routes = [(e, if args = [] then [] else hd args)]"
      "e = SummaryPage \<longrightarrow> target_since path = since" "e = ResizeWorker \<longrightarrow> body = ''{\"target\":'' @ args ! 1 @ ''}''" by blast
  let ?rq = "client_request dc token meth path body"
  have "serve_http u uuid ?rq = auth (se_sha256 u) (se_server u) (rq_Authorization ?rq) refuse
      (handle_endpoint u ?rq uuid (if args = [] then [] else hd args) e)"
    by (rule serve_http_authed) (use p in simp_all)
  with c p show "\<exists>rq. rq_Authorization rq = (if token \<noteq> [] then bearer_prefix @ token else [])
        \<and> (e = SummaryPage \<longrightarrow> rq_Since rq = since)
        \<and> (e = ResizeWorker \<longrightarrow> rq_Target rq = dc_Target dc (''{\"target\":'' @ args ! 1 @ ''}''))
        \<and> ctl_main u dc uuid token ft since (cmd # args) s =
          (case remote ft (run_state (auth (se_sha256 u) (se_server u) (rq_Authorization rq) refuse
              (handle_endpoint u rq uuid (if args = [] then [] else hd args) e))) s of
             (Inl _, s') \<Rightarrow> (1, s')
           | (Inr x, s') \<Rightarrow> (if reply_status x \<ge> 400 then 1 else 0, s'))"
    by (intro exI [of _ ?rq]) (simp add: ctl_main_def)
next
  assume "length args < n"
  then show "ctl_main u dc uuid token ft since (cmd # args) s = (1, s)"
    using ctl_spec_cases [OF assms(1)] unfolding insert_iff empty_iff prod.inject
    by (elim disjE conjE) (simp_all add: ctl_main_def ctl_command_eval withArg_def)
next
  assume "other \<notin> fst ` set ctl_spec"
  then show "ctl_main u dc uuid token ft since (other # args) s = (1, s)"
    by (simp add: ctl_spec_def ctl_main_def ctl_command_def)
qed (simp add: ctl_main_def ctl_command_def)

definition demo_decoders :: decoders where
  "demo_decoders = \<lparr> dc_Submit = (\<lambda>_. TooLarge), dc_Target = (\<lambda>_. Decoded 3) \<rparr>"

theorem ctl_reaches_handlers_witness:
  "ctl_main demo_deployment demo_decoders ''j1'' ''T'' Good [] [''live''] demo_site = (0, demo_site)
    \<and> ctl_main demo_deployment demo_decoders ''j1'' ''T'' Good [] [''fly''] demo_site = (1, demo_site)"
proof -
  have "(''live'', 0, ControlWorkers) \<in> set ctl_spec" by (simp add: ctl_spec_def)
  note r = ctl_reaches_handlers [OF this, of "[]" "''T''" "[]" demo_decoders demo_deployment "''j1''" Good demo_site "''fly''"]
  then obtain rq where "rq_Authorization rq = ''Bearer T''"
    "ctl_main demo_deployment demo_decoders ''j1'' ''T'' Good [] [''live''] demo_site =
      (case remote Good (run_state (auth (se_sha256 demo_deployment) (se_server demo_deployment) (rq_Authorization rq) refuse
          (handle_endpoint demo_deployment rq ''j1'' [] ControlWorkers))) demo_site of
         (Inl _, s') \<Rightarrow> (1, s') | (Inr x, s') \<Rightarrow> (if reply_status x \<ge> 400 then 1 else 0, s'))"
    by (auto simp: bearer_prefix_def)
  moreover have "''fly'' \<notin> fst ` set ctl_spec" by (simp add: ctl_spec_def)
  ultimately show ?thesis using r
    by (simp add: auth_def auth_check_def bearer_prefix_def demo_deployment_def handleControlWorkers_def demo_site_def)
qed

text \<open>
  An identifier is pasted into the path as it is: one that holds a slash or a question mark asks for
  something else.
\<close>

lemma ctl_pastes_identifiers:
  "ctl_command since [''job'', ''a/attempts''] = ctl_command since [''attempts'', ''a'']"
  by (simp add: ctl_command_eval withArg_def)

end
