(* ===== verification/Bench.thy ===== *)
theory Bench
  imports Ctl "HOL-Library.Sublist" "HOL-Library.Signed_Division"
begin

text \<open>
  The benchmark tool, \<^verbatim>\<open>cmd/calligraphy-bench/main.go\<close>: the payloads, the split of the submissions, the wait for
  the queue to drain and the report. Floating-point numbers are rationals; a quotient by zero, which
  Go answers with a value that is not a number, is \<open>None\<close>. What the API answers and when is given by
  the environment.
\<close>

section \<open>Flags\<close>

record flags =
  bf_api :: string
  bf_token :: string
  bf_name :: string
  bf_out :: string
  bf_jobs :: int
  bf_submitters :: int
  bf_jobType :: string
  bf_sleepMs :: int
  bf_jitterMs :: int
  bf_cpuIters :: int
  bf_textBytes :: int
  bf_failRate :: rat
  bf_permRate :: rat
  bf_timeout :: duration
  bf_sha :: string
  bf_note :: string

definition envOr :: "(string \<Rightarrow> string option) \<Rightarrow> string \<Rightarrow> string \<Rightarrow> string" where
  "envOr env k d = (case env k of None \<Rightarrow> d | Some v \<Rightarrow> if v \<noteq> [] then v else d)"

text \<open>The flags when none is given.\<close>

definition default_flags :: "(string \<Rightarrow> string option) \<Rightarrow> string \<Rightarrow> flags" where
  "default_flags env sha =
    \<lparr> bf_api = envOr env ''CALLIGRAPHY_API_URL'' ''http://127.0.0.1:8080'',
      bf_token = (case env ''CALLIGRAPHY_API_TOKEN'' of None \<Rightarrow> [] | Some v \<Rightarrow> v),
      bf_name = ''adhoc'', bf_out = ''bench/results'', bf_jobs = 1000, bf_submitters = 16, bf_jobType = ''bench.sleep'',
      bf_sleepMs = 50, bf_jitterMs = 20, bf_cpuIters = 200000, bf_textBytes = 4096, bf_failRate = 5 / 100, bf_permRate = 1 / 100,
      bf_timeout = 15 * 60 * second, bf_sha = sha, bf_note = [] \<rparr>"

section \<open>Payloads\<close>

definition sentences :: "string list" where
  "sentences =
    [''Distributed systems fail in ways that single machines never see.'',
     ''A queue that cannot survive a crash is a list with ambitions.'',
     ''The database records what happened, and the stream moves what happens next.'',
     ''Backpressure is not a feature you add but a property you refuse to lose.'',
     ''Every retry policy is a bet about the shape of failure.'',
     ''Leases expire because workers cannot be trusted to say goodbye.'',
     ''A fencing token turns a race into a decision made exactly once.'',
     ''Idempotency is the tax that at-least-once delivery collects.'',
     ''Observability means the dashboard answers the question you did not think to ask.'',
     ''Throughput without a latency distribution is a marketing number.'']"

definition article_piece :: "nat \<Rightarrow> string" where
  "article_piece i = sentences ! (i mod length sentences) @ '' '' @ (if i mod 4 = 3 then [CHR 0x0A, CHR 0x0A] else [])"

text \<open>The loop of \<^verbatim>\<open>syntheticArticle\<close>; it ends because every turn writes.\<close>

function article_from :: "nat \<Rightarrow> nat \<Rightarrow> string \<Rightarrow> string" where
  "article_from n i b = (if length b < n then article_from n (Suc i) (b @ article_piece i) else b)"
  by pat_completeness auto

termination
  by (relation "measure (\<lambda>(n, i, b). n - length b)") (auto simp: article_piece_def)

declare article_from.simps [simp del]

definition syntheticArticle :: "int \<Rightarrow> string" where
  "syntheticArticle n = article_from (nat n) 0 []"

text \<open>\<^verbatim>\<open>%q\<close> for text in ASCII, as the articles and the type names are.\<close>

definition quote_char :: "char \<Rightarrow> string" where
  "quote_char c =
    (if c = CHR 0x22 then [CHR 0x5C, CHR 0x22]
     else if c = CHR 0x5C then [CHR 0x5C, CHR 0x5C]
     else if c = CHR 0x0A then [CHR 0x5C, CHR 0x6E]
     else [c])"

definition quoted :: "string \<Rightarrow> string" where
  "quoted s = [CHR 0x22] @ concat (map quote_char s) @ [CHR 0x22]"

text \<open>\<open>fmt_g\<close> is \<^verbatim>\<open>%g\<close>.\<close>

definition buildPayload :: "(rat \<Rightarrow> string) \<Rightarrow> flags \<Rightarrow> string" where
  "buildPayload fmt_g f =
    (if bf_jobType f = ''bench.sleep'' then
       ''{\"ms\":'' @ dec_of_int (bf_sleepMs f) @ '',\"jitterMs\":'' @ dec_of_int (bf_jitterMs f) @ ''}''
     else if bf_jobType f = ''bench.cpu'' then ''{\"iterations\":'' @ dec_of_int (bf_cpuIters f) @ ''}''
     else if bf_jobType f = ''bench.flaky'' then
       ''{\"failRate\":'' @ fmt_g (bf_failRate f) @ '',\"permanentRate\":'' @ fmt_g (bf_permRate f)
         @ '',\"sleepMs\":'' @ dec_of_int (bf_sleepMs f) @ ''}''
     else if bf_jobType f = ''article.analysis'' then
       ''{\"articleId\":\"bench\",\"text\":'' @ quoted (syntheticArticle (bf_textBytes f)) @ ''}''
     else ''{}'')"

definition submit_body :: "(rat \<Rightarrow> string) \<Rightarrow> flags \<Rightarrow> string" where
  "submit_body fmt_g f = ''{\"type\":'' @ quoted (bf_jobType f) @ '',\"payload\":'' @ buildPayload fmt_g f @ ''}''"

section \<open>The client\<close>

text \<open>Three bytes of UTF-8, the ellipsis, end a shortened text.\<close>

definition truncate_bytes :: "string \<Rightarrow> nat \<Rightarrow> string" where
  "truncate_bytes b n = (if length b \<le> n then b else take n b @ [CHR 0xE2, CHR 0x80, CHR 0xA6])"

definition client_do :: "string \<Rightarrow> string \<Rightarrow> (string \<Rightarrow> 'a res) \<Rightarrow> (int \<times> string) res \<Rightarrow> 'a res" where
  "client_do meth path decode resp =
    (case resp of
       Inl e \<Rightarrow> Inl e
     | Inr (status, body) \<Rightarrow>
         let raw = take (4 * 2 ^ 20) body in
         if status \<ge> 400
         then Inl (Errorf (meth @ '' '' @ path @ '' -> '' @ dec_of_int status @ '': '' @ truncate_bytes raw 200))
         else decode raw)"

section \<open>Before and during the submissions\<close>

text \<open>The refusal to measure while anything is queued.\<close>

definition preflight :: "depths \<Rightarrow> error" where
  "preflight dp =
    (let backlog = sum_list (map snd (dp_Ready dp)) + sum_list (map snd (dp_Delayed dp)) in
     if backlog + dp_InFlight dp > 0
     then Some (Errorf (''queue is not empty (ready+delayed='' @ dec_of_int backlog @ '' inflight='' @ dec_of_int (dp_InFlight dp)
       @ ''); refusing to measure a dirty run''))
     else None)"

text \<open>How many jobs each submitter sends; \<open>None\<close> is the panic of a division by zero.\<close>

definition shares :: "int \<Rightarrow> int \<Rightarrow> int list option" where
  "shares njobs submitters =
    (if submitters = 0 then None
     else let per = njobs sdiv submitters; extra = njobs smod submitters
       in Some (map (\<lambda>w. if int w < extra then per + 1 else per) [0..<nat submitters]))"

text \<open>The submissions and their errors, when \<open>ok w i\<close> says whether the \<open>i\<close>-th request of submitter \<open>w\<close> succeeds.\<close>

definition submit_phase :: "(nat \<Rightarrow> nat \<Rightarrow> bool) \<Rightarrow> int list \<Rightarrow> nat \<times> nat" where
  "submit_phase ok ns =
    (sum_list (map (\<lambda>(w, n). length (filter (ok w) [0..<nat n])) (enumerate 0 ns)),
     sum_list (map (\<lambda>(w, n). length (filter (\<lambda>i. \<not> ok w i) [0..<nat n])) (enumerate 0 ns)))"

section \<open>The drain\<close>

definition count_of :: "summary \<Rightarrow> status \<Rightarrow> nat" where
  "count_of s st = (case map_of (su_Counts s) st of None \<Rightarrow> 0 | Some n \<Rightarrow> n)"

definition pending_count :: "summary \<Rightarrow> nat" where
  "pending_count s = count_of s StatusPending + count_of s StatusRunning + count_of s StatusRetrying"

definition terminal_count :: "summary \<Rightarrow> nat" where
  "terminal_count s =
    count_of s StatusCompleted + count_of s StatusFailed + count_of s StatusDeadLetter + count_of s StatusCancelled"

text \<open>
  A turn of the loop: the time read at its head, before the pause of a quarter of a second and the request, and what
  the API answers to that request, at any time after.
\<close>

record poll =
  po_checked :: time
  po_reply :: "summary res"

datatype drain_end = Drained summary | TimedOut "summary option" | StillWaiting

fun drain :: "time \<Rightarrow> nat \<Rightarrow> summary option \<Rightarrow> poll list \<Rightarrow> drain_end" where
  "drain deadline submitted sum0 [] = StillWaiting"
| "drain deadline submitted sum0 (p # ps) =
    (if po_checked p > deadline then TimedOut sum0
     else case po_reply p of
       Inl _ \<Rightarrow> drain deadline submitted sum0 ps
     | Inr cur \<Rightarrow>
         if terminal_count cur \<ge> submitted \<and> pending_count cur = 0 then Drained cur
         else drain deadline submitted (Some cur) ps)"

section \<open>The report\<close>

definition go_int :: "rat \<Rightarrow> int" where
  "go_int x = (if x \<ge> 0 then \<lfloor>x\<rfloor> else \<lceil>x\<rceil>)"

definition round2 :: "rat \<Rightarrow> rat" where
  "round2 x = of_int (go_int (x * 100)) / 100"

definition round4 :: "rat \<Rightarrow> rat" where
  "round4 x = of_int (go_int (x * 10000)) / 10000"

definition fdiv :: "rat \<Rightarrow> rat \<Rightarrow> rat option" where
  "fdiv a b = (if b = 0 then None else Some (a / b))"

record fleet_worker =
  fw_ID :: string
  fw_TargetConcurrency :: int
  fw_State :: string
  fw_Processed :: int

record report =
  rp_activeWorkers :: nat
  rp_fleet :: "(string \<times> int \<times> int) list"
  rp_submitSec :: rat
  rp_submitRate :: "rat option"
  rp_errors :: nat
  rp_wallSec :: rat
  rp_throughput :: "rat option"
  rp_summary :: summary
  rp_submitted :: nat
  rp_completed :: nat
  rp_failed :: nat
  rp_deadLettered :: nat
  rp_cancelled :: nat
  rp_completionRate :: "rat option"
  rp_allTerminal :: bool

definition active_workers :: "fleet_worker list \<Rightarrow> fleet_worker list" where
  "active_workers ws = filter (\<lambda>w. fw_State w = ''active'') ws"

text \<open>
  The measured part of the file; the provenance beside it (name, time, revision, note, host, scenario) is
  copied from the flags and the machine.
\<close>

definition make_report ::
  "fleet_worker list \<Rightarrow> rat \<Rightarrow> rat \<Rightarrow> nat \<Rightarrow> nat \<Rightarrow> summary \<Rightarrow> report"
where
  "make_report ws submitSec wallSec submitted errs s =
    (let completed = count_of s StatusCompleted in
     \<lparr> rp_activeWorkers = length (active_workers ws),
       rp_fleet = map (\<lambda>w. (fw_ID w, fw_TargetConcurrency w, fw_Processed w)) (active_workers ws),
       rp_submitSec = round2 submitSec,
       rp_submitRate = map_option round2 (fdiv (of_nat submitted) submitSec),
       rp_errors = errs, rp_wallSec = round2 wallSec,
       rp_throughput = map_option round2 (fdiv (of_nat completed) wallSec),
       rp_summary = s, rp_submitted = submitted, rp_completed = completed,
       rp_failed = count_of s StatusFailed, rp_deadLettered = count_of s StatusDeadLetter,
       rp_cancelled = count_of s StatusCancelled,
       rp_completionRate = map_option round4 (fdiv (of_nat completed) (of_nat submitted)),
       rp_allTerminal = True \<rparr>)"

section \<open>A run\<close>

text \<open>
  \<open>en_start\<close> is when the submissions begin, \<open>en_waiting\<close> when the wait does and \<open>en_end\<close> when it has ended; a
  worker list that cannot be read is empty.
\<close>

record bench_env =
  en_depths :: "depths res"
  en_start :: time
  en_ok :: "nat \<Rightarrow> nat \<Rightarrow> bool"
  en_submitted :: time
  en_waiting :: time
  en_polls :: "poll list"
  en_end :: time
  en_workers :: "fleet_worker list"
  en_mkdir :: error
  en_write :: error

datatype bench_result = BenchError go_error | BenchTimeout "summary option" | BenchPanic | BenchWaiting | BenchReport report

definition bench_report :: "bench_env \<Rightarrow> nat \<Rightarrow> nat \<Rightarrow> summary \<Rightarrow> bench_result" where
  "bench_report E submitted errs s =
    (case en_mkdir E of
       Some e \<Rightarrow> BenchError e
     | None \<Rightarrow>
    (case en_write E of
       Some e \<Rightarrow> BenchError e
     | None \<Rightarrow> BenchReport (make_report (en_workers E) (seconds_between (en_start E) (en_submitted E))
         (seconds_between (en_start E) (en_end E)) submitted errs s)))"

definition bench_run :: "flags \<Rightarrow> bench_env \<Rightarrow> bench_result" where
  "bench_run f E =
    (case en_depths E of
       Inl e \<Rightarrow> BenchError (ErrorfW ''preflight: '' e)
     | Inr dp \<Rightarrow>
    (case preflight dp of
       Some e \<Rightarrow> BenchError e
     | None \<Rightarrow>
    (case shares (bf_jobs f) (bf_submitters f) of
       None \<Rightarrow> BenchPanic
     | Some ns \<Rightarrow>
    (let (submitted, errs) = submit_phase (en_ok E) ns in
     case drain (en_waiting E + bf_timeout f) submitted None (en_polls E) of
       StillWaiting \<Rightarrow> BenchWaiting
     | TimedOut s \<Rightarrow> BenchTimeout s
     | Drained s \<Rightarrow> bench_report E submitted errs s))))"

section \<open>The articles\<close>

lemma sentences_short: "list_all (\<lambda>s. length s \<le> 81) sentences" "length sentences = 10"
  by (simp_all add: sentences_def)

lemma article_piece_length: "0 < length (article_piece i) \<and> length (article_piece i) \<le> 84"
proof -
  have "sentences ! (i mod length sentences) \<in> set sentences" using sentences_short(2) by (intro nth_mem) simp
  then have "length (sentences ! (i mod length sentences)) \<le> 81" using sentences_short(1) by (simp add: list_all_iff)
  then show ?thesis by (simp add: article_piece_def)
qed

lemma article_from_length:
  "length b < n + 84 \<Longrightarrow> n \<le> length (article_from n i b) \<and> length (article_from n i b) < n + 84"
proof (induction n i b rule: article_from.induct)
  case (1 n i b)
  then show ?case using article_piece_length [of i] by (subst (1 2) article_from.simps) auto
qed

text \<open>A longer article begins with the shorter one.\<close>

lemma article_from_prefix: "m \<le> n \<Longrightarrow> prefix (article_from m i b) (article_from n i b)"
proof (induction m i b rule: article_from.induct)
  case (1 m i b)
  have grows: "prefix b (article_from n i b)" for n i b
  proof (induction n i b rule: article_from.induct)
    case (1 n i b)
    then show ?case by (subst article_from.simps) (auto intro: prefix_order.trans [OF prefixI])
  qed
  show ?case
  proof (cases "length b < m")
    case True
    with 1 show ?thesis by (simp add: article_from.simps [of m i b] article_from.simps [of n i b])
  qed (simp add: article_from.simps [of m i b] grows)
qed

lemma syntheticArticle_length: "0 \<le> n \<Longrightarrow> n \<le> int (length (syntheticArticle n)) \<and> int (length (syntheticArticle n)) < n + 84"
  using article_from_length [of "[]" "nat n" 0] by (auto simp: syntheticArticle_def)

section \<open>The submissions\<close>

lemma sum_below: "sum_list (map (\<lambda>w. if int w < e then p + 1 else p) [0..<n]) = int n * p + min (int n) (max 0 e)"
  by (induction n) (auto simp: algebra_simps)

lemma shares_sum:
  assumes "0 < k" and "0 \<le> j"
  obtains ns where "shares j k = Some ns" and "sum_list ns = j" and "\<And>n. n \<in> set ns \<Longrightarrow> n = j div k \<or> n = j div k + 1"
proof -
  let ?ns = "map (\<lambda>w. if int w < j mod k then j div k + 1 else j div k) [0..<nat k]"
  have d: "j sdiv k = j div k" "j smod k = j mod k" using assms
    by (cases "j = 0"; simp add: signed_divide_int_def signed_modulo_int_def)+
  then have "shares j k = Some ?ns" using assms by (simp add: shares_def Let_def)
  moreover have "sum_list ?ns = int (nat k) * (j div k) + min (int (nat k)) (max 0 (j mod k))" by (rule sum_below)
  then have "sum_list ?ns = k * (j div k) + j mod k" using assms pos_mod_bound [of k j] by simp
  then have "sum_list ?ns = j" by simp
  ultimately show ?thesis by (rule that) auto
qed

lemma submit_phase_total:
  "submit_phase ok ns = (a, b) \<Longrightarrow> int (a + b) = sum_list (map (\<lambda>n. max 0 n) ns)"
proof -
  have split: "length (filter P xs) + length (filter (\<lambda>x. \<not> P x) xs) = length xs" for P and xs :: "nat list"
    by (rule sum_length_filter_compl)
  have "int (sum_list (map (\<lambda>(w, n). length (filter (ok w) [0..<nat n])) (enumerate k ns))
      + sum_list (map (\<lambda>(w, n). length (filter (\<lambda>i. \<not> ok w i) [0..<nat n])) (enumerate k ns)))
    = sum_list (map (\<lambda>n. max 0 n) ns)" for k
  proof (induction ns arbitrary: k)
    case (Cons n ns)
    have "int (length (filter (ok k) [0..<nat n])) + int (length (filter (\<lambda>i. \<not> ok k i) [0..<nat n])) = max 0 n"
      using split [of "ok k" "[0..<nat n]"] by (simp flip: of_nat_add add: max_def)
    with Cons [of "Suc k"] show ?case by simp
  qed simp
  moreover assume "submit_phase ok ns = (a, b)"
  ultimately show ?thesis by (auto simp: submit_phase_def)
qed

section \<open>The wait\<close>

lemma drain_Drained:
  "drain deadline n sum0 ps = Drained s \<Longrightarrow>
    (\<exists>p \<in> set ps. po_checked p \<le> deadline \<and> po_reply p = Inr s) \<and> n \<le> terminal_count s \<and> pending_count s = 0"
  by (induction ps arbitrary: sum0) (auto split: if_splits sum.splits)

lemma drain_ends: "p \<in> set ps \<Longrightarrow> deadline < po_checked p \<Longrightarrow> drain deadline n sum0 ps \<noteq> StillWaiting"
  by (induction ps arbitrary: sum0) (auto split: sum.splits)

text \<open>The counts of a summary that was read from one state of the database.\<close>

lemma count_of_summary:
  assumes "su_Counts s = summary_counts since d"
  shows "count_of s st = length (filter (\<lambda>r. r_status r = st) (created_since since d))"
proof -
  have "map_of (map (\<lambda>s. (s, g s)) xs) st = (if st \<in> set xs then Some (g st) else None)" for g :: "status \<Rightarrow> nat" and xs
    by (induction xs) auto
  then show ?thesis using assms by (auto simp: count_of_def summary_counts_def filter_empty_conv)
qed

lemma counts_partition:
  "length rs = length (filter (\<lambda>r. r_status r = StatusPending) rs) + length (filter (\<lambda>r. r_status r = StatusRunning) rs)
    + length (filter (\<lambda>r. r_status r = StatusRetrying) rs) + length (filter (\<lambda>r. r_status r = StatusCompleted) rs)
    + length (filter (\<lambda>r. r_status r = StatusFailed) rs) + length (filter (\<lambda>r. r_status r = StatusDeadLetter) rs)
    + length (filter (\<lambda>r. r_status r = StatusCancelled) rs)"
proof (induction rs)
  case (Cons r rs)
  then show ?case by (cases "r_status r") simp_all
qed simp

lemma drained_terminal:
  assumes "su_Counts s = summary_counts since d" and "pending_count s = 0"
  shows "list_all (\<lambda>r. Terminal (r_status r)) (created_since since d)" and "terminal_count s = length (created_since since d)"
proof -
  show "list_all (\<lambda>r. Terminal (r_status r)) (created_since since d)"
    unfolding list_all_iff
  proof
    fix r assume "r \<in> set (created_since since d)"
    with assms have "r_status r \<notin> {StatusPending, StatusRunning, StatusRetrying}"
      by (auto simp: pending_count_def count_of_summary [OF assms(1)] filter_empty_conv)
    then show "Terminal (r_status r)" by (cases "r_status r") (simp_all add: Terminal_def)
  qed
  show "terminal_count s = length (created_since since d)"
    using assms(2) counts_partition [of "created_since since d"]
    by (simp add: terminal_count_def pending_count_def count_of_summary [OF assms(1)])
qed

lemma round2_down: "0 \<le> x \<Longrightarrow> round2 x \<le> x \<and> x < round2 x + 1 / 100"
  by (simp add: round2_def go_int_def field_simps) linarith

section \<open>Theorems\<close>

lemma bench_run_report:
  assumes "bench_run f E = BenchReport r"
  obtains dp ns submitted errs s where "en_depths E = Inr dp" and "preflight dp = None"
    and "shares (bf_jobs f) (bf_submitters f) = Some ns" and "submit_phase (en_ok E) ns = (submitted, errs)"
    and "drain (en_waiting E + bf_timeout f) submitted None (en_polls E) = Drained s"
    and "r = make_report (en_workers E) (seconds_between (en_start E) (en_submitted E))
         (seconds_between (en_start E) (en_end E)) submitted errs s"
  using assms
  by (auto simp: bench_run_def bench_report_def Let_def
      split: sum.splits option.splits prod.splits drain_end.splits)

text \<open>
  C35. A reported number is an honest one. When the benchmark writes a result, the queue was empty before it, the
  submitters together sent exactly the jobs asked for, each counted as submitted or as an error, and
  its summary is the answer to a poll whose turn began no later than the deadline (the answer itself may come
  later: the clock is read before the pause and the request); if that summary is of one state of the
  database, every job of the window was in a final state there, at least as many as were submitted, and
  the four verdict counts add up to all of them. The throughput written is the number of completed
  jobs per second of the wall clock, rounded down by less than a hundredth.
\<close>

theorem bench_report_sound:
  assumes "bench_run f E = BenchReport r" and "0 < bf_submitters f" and "0 \<le> bf_jobs f"
  shows "int (rp_submitted r + rp_errors r) = bf_jobs f
    \<and> (\<exists>dp. en_depths E = Inr dp \<and> sum_list (map snd (dp_Ready dp)) + sum_list (map snd (dp_Delayed dp)) + dp_InFlight dp \<le> 0)
    \<and> (\<exists>p \<in> set (en_polls E). po_reply p = Inr (rp_summary r) \<and> po_checked p \<le> en_waiting E + bf_timeout f)
    \<and> (\<forall>since d. su_Counts (rp_summary r) = summary_counts since d \<longrightarrow>
         list_all (\<lambda>x. Terminal (r_status x)) (created_since since d)
         \<and> rp_submitted r \<le> length (created_since since d)
         \<and> rp_completed r + rp_failed r + rp_deadLettered r + rp_cancelled r = length (created_since since d))
    \<and> (en_start E < en_end E \<longrightarrow> (\<exists>x. rp_throughput r = Some x
         \<and> x \<le> of_nat (rp_completed r) / seconds_between (en_start E) (en_end E)
         \<and> of_nat (rp_completed r) / seconds_between (en_start E) (en_end E) < x + 1 / 100))"
proof -
  obtain dp ns submitted errs s where r: "en_depths E = Inr dp" "preflight dp = None"
      "shares (bf_jobs f) (bf_submitters f) = Some ns" "submit_phase (en_ok E) ns = (submitted, errs)"
      "drain (en_waiting E + bf_timeout f) submitted None (en_polls E) = Drained s"
      "r = make_report (en_workers E) (seconds_between (en_start E) (en_submitted E))
         (seconds_between (en_start E) (en_end E)) submitted errs s"
    using bench_run_report [OF assms(1)] by metis
  have fields: "rp_submitted r = submitted" "rp_errors r = errs" "rp_summary r = s"
    "rp_completed r + rp_failed r + rp_deadLettered r + rp_cancelled r = terminal_count s"
    by (simp_all add: r(6) make_report_def Let_def terminal_count_def)
  obtain ns' where ns: "shares (bf_jobs f) (bf_submitters f) = Some ns'" "sum_list ns' = bf_jobs f"
    "\<And>n. n \<in> set ns' \<Longrightarrow> n = bf_jobs f div bf_submitters f \<or> n = bf_jobs f div bf_submitters f + 1"
    by (rule shares_sum [OF assms(2,3)]) blast
  have "0 \<le> bf_jobs f div bf_submitters f" using assms(2,3) by (simp add: pos_imp_zdiv_nonneg_iff)
  then have "map (\<lambda>n. max 0 n) ns = ns" using ns(1,3) r(3) by (intro map_idI) fastforce
  with submit_phase_total [OF r(4)] ns(1,2) r(3) have "int (submitted + errs) = bf_jobs f" by simp
  moreover have "sum_list (map snd (dp_Ready dp)) + sum_list (map snd (dp_Delayed dp)) + dp_InFlight dp \<le> 0"
    using r(2) by (auto simp: preflight_def Let_def split: if_splits)
  moreover note drain_Drained [OF r(5)]
  moreover have "\<exists>x. rp_throughput r = Some x \<and> x \<le> of_nat (rp_completed r) / seconds_between (en_start E) (en_end E)
         \<and> of_nat (rp_completed r) / seconds_between (en_start E) (en_end E) < x + 1 / 100" if "en_start E < en_end E"
  proof -
    have "0 < seconds_between (en_start E) (en_end E)" using that by (simp add: seconds_between_def)
    then show ?thesis using round2_down [of "of_nat (count_of s StatusCompleted) / seconds_between (en_start E) (en_end E)"]
      by (simp add: r(6) make_report_def Let_def fdiv_def)
  qed
  ultimately show ?thesis using r(1) drained_terminal [of s] by (auto simp: fields)
qed

text \<open>
  The benchmark ends. When its clock advances by the pause of a quarter of a second or more from poll to poll,
  it has stopped waiting by the first poll after its timeout, whatever the API answers and even if it
  never answers.
\<close>

lemma bench_ends:
  assumes "\<And>k. k < length (en_polls E) \<Longrightarrow> en_waiting E + int k * (250 * millisecond) \<le> po_checked (en_polls E ! k)"
    and "bf_timeout f < int n * (250 * millisecond)" and "n < length (en_polls E)"
  shows "bench_run f E \<noteq> BenchWaiting"
proof -
  have "en_waiting E + bf_timeout f < po_checked (en_polls E ! n)" using assms(1) [OF assms(3)] assms(2) by linarith
  then have "drain (en_waiting E + bf_timeout f) k None (en_polls E) \<noteq> StillWaiting" for k
    using drain_ends [OF nth_mem [OF assms(3)]] by blast
  then show ?thesis
    by (auto simp: bench_run_def bench_report_def Let_def split: sum.splits option.splits prod.splits drain_end.splits)
qed

definition demo_flags :: flags where
  "demo_flags = (default_flags (\<lambda>_. None) ''1a2b3c'')\<lparr>bf_jobs := 3, bf_submitters := 2, bf_timeout := 100 * millisecond\<rparr>"

definition demo_counts :: summary where
  "demo_counts = \<lparr> su_Since = 0, su_Counts = [(StatusCompleted, 2)], su_Total = 2, su_RetriedJobs = 0, su_TotalAttempts = 2,
     su_E2ESeconds = percentiles [1, 1], su_ExecSeconds = percentiles [1, 1] \<rparr>"

text \<open>Three jobs by two submitters, one of them refused; the first poll fails and the second shows two completed jobs.\<close>

definition demo_bench :: bench_env where
  "demo_bench =
    \<lparr> en_depths = Inr \<lparr> dp_Ready = [], dp_Delayed = [], dp_InFlight = 0, dp_DLQ = 4 \<rparr>, en_start = 0,
      en_ok = (\<lambda>w i. w = 0), en_submitted = second, en_waiting = second,
      en_polls = [\<lparr> po_checked = second, po_reply = Inl (Errorf ''reset'') \<rparr>,
        \<lparr> po_checked = second + 50 * millisecond, po_reply = Inr demo_counts \<rparr>],
      en_end = 2 * second, en_workers = [], en_mkdir = None, en_write = None \<rparr>"

lemma demo_shares: "shares 3 2 = Some [2, 1]"
  by (simp add: shares_def signed_divide_int_def signed_modulo_int_def upt_conv_Cons)

lemma demo_bench_run: "bench_run demo_flags demo_bench = BenchReport (make_report [] 1 2 2 1 demo_counts)"
  by (simp add: bench_run_def demo_flags_def demo_bench_def demo_shares preflight_def submit_phase_def bench_report_def
      terminal_count_def pending_count_def count_of_def demo_counts_def seconds_between_def upt_conv_Cons)

theorem bench_report_sound_witness:
  "rp_submitted (make_report [] 1 2 2 1 demo_counts) + rp_errors (make_report [] 1 2 2 1 demo_counts) = 3"
  using bench_report_sound [OF demo_bench_run] by (simp add: demo_flags_def)

end
