(* ===== verification/Migrate.thy ===== *)
theory Migrate
  imports Errors "HOL-Library.List_Lexorder"
begin

text \<open>
  The migrator, \<^verbatim>\<open>internal/store/migrate.go\<close>. Its database is what the scripts build (\<open>g_schema\<close>, of
  any type) beside the table \<^verbatim>\<open>schema_migrations\<close>; \<open>run_sql\<close> is Postgres's execution of one script.
  A transaction works on a copy that its commit installs, and the advisory lock lets one migrator in
  at a time, so a boot is one step on the database.
\<close>

section \<open>The database of a migrator\<close>

text \<open>\<open>g_versions\<close> is \<open>None\<close> as long as the table does not exist.\<close>

record 's pg =
  g_schema :: 's
  g_versions :: "string list option"

type_synonym files = "(string \<times> string) list"

definition versions :: "'s pg \<Rightarrow> string list" where
  "versions g = (case g_versions g of None \<Rightarrow> [] | Some vs \<Rightarrow> vs)"

text \<open>What each call of the driver answers; a commit may be lost or confirmed late.\<close>

record migrate_faults =
  mf_readdir :: error
  mf_begin :: error
  mf_lock :: error
  mf_ensure :: error
  mf_query :: error
  mf_scan :: error
  mf_apply :: "string \<Rightarrow> error"
  mf_record :: "string \<Rightarrow> error"
  mf_commit :: "go_error fault"

definition sort_Strings :: "string list \<Rightarrow> string list" where
  "sort_Strings = sort_key (map (of_char :: char \<Rightarrow> nat))"

definition ensure_versions :: "'s pg \<Rightarrow> 's pg" where
  "ensure_versions g = g\<lparr>g_versions := Some (versions g)\<rparr>"

definition ReadFile :: "files \<Rightarrow> string \<Rightarrow> string res" where
  "ReadFile files name =
    (case map_of files name of None \<Rightarrow> Inl (Errorf ''file does not exist'') | Some sql \<Rightarrow> Inr sql)"

definition insert_version :: "string \<Rightarrow> 's pg \<Rightarrow> 's pg res" where
  "insert_version name g =
    (if name \<in> set (versions g) then Inl (Errorf ''violates unique constraint schema_migrations_pkey'')
     else Inr (g\<lparr>g_versions := Some (versions g @ [name])\<rparr>))"

section \<open>Migrate\<close>

text \<open>One file: run its script, then record its name.\<close>

definition apply_file ::
  "(string \<Rightarrow> 's \<Rightarrow> 's res) \<Rightarrow> migrate_faults \<Rightarrow> files \<Rightarrow> string \<Rightarrow> 's pg \<Rightarrow> 's pg res"
where
  "apply_file run_sql F files name g =
    (case ReadFile files name of
       Inl e \<Rightarrow> Inl (ErrorfW (''store: reading '' @ name @ '': '') e)
     | Inr sql \<Rightarrow>
    (case (case mf_apply F name of Some e \<Rightarrow> Inl e | None \<Rightarrow> run_sql sql (g_schema g)) of
       Inl e \<Rightarrow> Inl (ErrorfW (''store: applying '' @ name @ '': '') e)
     | Inr s \<Rightarrow>
    (case (case mf_record F name of Some e \<Rightarrow> Inl e | None \<Rightarrow> insert_version name (g\<lparr>g_schema := s\<rparr>)) of
       Inl e \<Rightarrow> Inl (ErrorfW (''store: recording '' @ name @ '': '') e)
     | Inr g' \<Rightarrow> Inr g')))"

fun apply_files ::
  "(string \<Rightarrow> 's \<Rightarrow> 's res) \<Rightarrow> migrate_faults \<Rightarrow> files \<Rightarrow> string list \<Rightarrow> string list \<Rightarrow> 's pg \<Rightarrow> 's pg res"
where
  "apply_files run_sql F files applied [] g = Inr g"
| "apply_files run_sql F files applied (name # names) g =
    (if name \<in> set applied then apply_files run_sql F files applied names g
     else case apply_file run_sql F files name g of
       Inl e \<Rightarrow> Inl e
     | Inr g' \<Rightarrow> apply_files run_sql F files applied names g')"

text \<open>The statements of the transaction, on its own copy of the database.\<close>

definition migrate_tx ::
  "(string \<Rightarrow> 's \<Rightarrow> 's res) \<Rightarrow> migrate_faults \<Rightarrow> files \<Rightarrow> string list \<Rightarrow> 's pg \<Rightarrow> 's pg res"
where
  "migrate_tx run_sql F files names g =
    (case mf_lock F of
       Some e \<Rightarrow> Inl (ErrorfW ''store: advisory lock: '' e)
     | None \<Rightarrow>
    (case mf_ensure F of
       Some e \<Rightarrow> Inl (ErrorfW ''store: ensuring schema_migrations: '' e)
     | None \<Rightarrow>
    (case mf_query F of
       Some e \<Rightarrow> Inl (ErrorfW ''store: reading applied migrations: '' e)
     | None \<Rightarrow>
    (case mf_scan F of
       Some e \<Rightarrow> Inl e
     | None \<Rightarrow> apply_files run_sql F files (versions g) names (ensure_versions g)))))"

definition Migrate ::
  "(string \<Rightarrow> 's \<Rightarrow> 's res) \<Rightarrow> migrate_faults \<Rightarrow> files \<Rightarrow> 's pg \<Rightarrow> unit res \<times> 's pg"
where
  "Migrate run_sql F files g =
    (case mf_readdir F of
       Some e \<Rightarrow> (Inl (ErrorfW ''store: reading migrations: '' e), g)
     | None \<Rightarrow>
    (let names = sort_Strings (map fst files) in
     case mf_begin F of
       Some e \<Rightarrow> (Inl (ErrorfW ''store: begin migrate: '' e), g)
     | None \<Rightarrow>
    (case migrate_tx run_sql F files names g of
       Inl e \<Rightarrow> (Inl e, g)
     | Inr g' \<Rightarrow>
    (case mf_commit F of
       Good \<Rightarrow> (Inr (), g')
     | Drop e \<Rightarrow> (Inl e, g)
     | Late e \<Rightarrow> (Inl e, g')))))"

section \<open>What a transaction did\<close>

text \<open>The reference: the scripts of a list of versions, one after the other, on a schema.\<close>

fun build :: "(string \<Rightarrow> 's \<Rightarrow> 's res) \<Rightarrow> (string \<Rightarrow> string) \<Rightarrow> string list \<Rightarrow> 's \<Rightarrow> 's res" where
  "build run_sql script [] s = Inr s"
| "build run_sql script (v # vs) s =
    (case run_sql (script v) s of Inl e \<Rightarrow> Inl e | Inr s' \<Rightarrow> build run_sql script vs s')"

text \<open>A directory whose scripts are those of \<open>script\<close>: released files are never edited.\<close>

definition released :: "(string \<Rightarrow> string) \<Rightarrow> files \<Rightarrow> bool" where
  "released script files = (distinct (map fst files) \<and> list_all (\<lambda>(n, sql). script n = sql) files)"

definition built :: "(string \<Rightarrow> 's \<Rightarrow> 's res) \<Rightarrow> (string \<Rightarrow> string) \<Rightarrow> 's \<Rightarrow> 's pg \<Rightarrow> bool" where
  "built run_sql script s0 g =
    (distinct (versions g) \<and> build run_sql script (versions g) s0 = Inr (g_schema g))"

lemma versions_update [simp]: "versions (g\<lparr>g_versions := Some vs\<rparr>) = vs" "versions (g\<lparr>g_schema := s\<rparr>) = versions g"
  by (simp_all add: versions_def)

lemma ensure_versions_simps [simp]: "versions (ensure_versions g) = versions g" "g_schema (ensure_versions g) = g_schema g"
  by (simp_all add: ensure_versions_def)

lemma sort_Strings_simps [simp]: "set (sort_Strings xs) = set xs" "distinct (sort_Strings xs) = distinct xs"
  by (simp_all add: sort_Strings_def)

lemma build_append:
  "build run_sql script (vs @ [v]) s =
    (case build run_sql script vs s of Inl e \<Rightarrow> Inl e | Inr s' \<Rightarrow> run_sql (script v) s')"
  by (induction vs arbitrary: s) (auto split: sum.splits)

lemma apply_file_Inr:
  assumes "apply_file run_sql F files name g = Inr g'" and "released script files"
  shows "\<exists>s. run_sql (script name) (g_schema g) = Inr s \<and> name \<notin> set (versions g)
    \<and> g' = g\<lparr>g_schema := s, g_versions := Some (versions g @ [name])\<rparr>"
proof -
  obtain sql where "map_of files name = Some sql"
    using assms(1) by (auto simp: apply_file_def ReadFile_def split: option.splits)
  moreover from this have "script name = sql" using assms(2) by (auto simp: released_def list_all_iff dest: map_of_SomeD)
  ultimately show ?thesis using assms(1)
    by (auto simp: apply_file_def ReadFile_def insert_version_def split: option.splits sum.splits if_splits)
qed

lemma apply_files_built:
  assumes "apply_files run_sql F files applied names g = Inr g'" and "released script files"
    and "built run_sql script s0 g" and "set applied \<subseteq> set (versions g)"
  shows "built run_sql script s0 g' \<and> versions g' = versions g @ filter (\<lambda>n. n \<notin> set applied) names"
  using assms(1,3,4)
proof (induction names arbitrary: g)
  case (Cons name names)
  show ?case
  proof (cases "name \<in> set applied")
    case False
    then obtain g1 where g1: "apply_file run_sql F files name g = Inr g1"
      and rest: "apply_files run_sql F files applied names g1 = Inr g'" using Cons.prems(1) by (auto split: sum.splits)
    from apply_file_Inr [OF g1 assms(2)] obtain s where s: "run_sql (script name) (g_schema g) = Inr s"
      "name \<notin> set (versions g)" "g1 = g\<lparr>g_schema := s, g_versions := Some (versions g @ [name])\<rparr>" by blast
    then have "built run_sql script s0 g1" using Cons.prems(2) by (simp add: built_def build_append)
    moreover have "versions g1 = versions g @ [name]" using s(3) by (simp add: versions_def)
    ultimately show ?thesis using Cons.IH [OF rest] Cons.prems(3) False by auto
  qed (use Cons in simp)
qed simp

lemma migrate_tx_Inr:
  "migrate_tx run_sql F files names g = Inr g' \<Longrightarrow>
    apply_files run_sql F files (versions g) names (ensure_versions g) = Inr g'"
  by (auto simp: migrate_tx_def split: option.splits)

lemma Migrate_changed:
  assumes "Migrate run_sql F files g = (r, g')"
  shows "g' = g \<and> r \<noteq> Inr ()
    \<or> apply_files run_sql F files (versions g) (sort_Strings (map fst files)) (ensure_versions g) = Inr g'"
  using assms by (auto simp: Migrate_def Let_def split: option.splits sum.splits fault.splits dest: migrate_tx_Inr)

lemma built_ensure [simp]: "built run_sql script s0 (ensure_versions g) = built run_sql script s0 g"
  by (simp add: built_def)

text \<open>Every boot leaves a built schema, extended by the missing files in lexical order or by nothing.\<close>

lemma Migrate_built:
  assumes "Migrate run_sql F files g = (r, g')" and "released script files" and "built run_sql script s0 g"
  shows "built run_sql script s0 g' \<and> (r \<noteq> Inr () \<and> g' = g
    \<or> versions g' = versions g @ filter (\<lambda>n. n \<notin> set (versions g)) (sort_Strings (map fst files)))"
  using Migrate_changed [OF assms(1)] apply_files_built [OF _ assms(2), of run_sql F "versions g"] assms(3) by force

lemma apply_files_applied: "set names \<subseteq> set applied \<Longrightarrow> apply_files run_sql F files applied names g = Inr g"
  by (induction names) auto

section \<open>The contract\<close>

text \<open>
  What a starting process relies on: a migration that answers leaves the database up to date, and
  on such a database no migration, whatever its outcome, changes anything.
\<close>

locale migrator =
  fixes migrate :: "'f \<Rightarrow> 'g \<Rightarrow> unit res \<times> 'g" and current :: "'g \<Rightarrow> bool"
  assumes migrate_current: "migrate F g = (Inr (), g') \<Longrightarrow> current g'"
    and current_stable: "current g \<Longrightarrow> snd (migrate F g) = g"
begin

lemma boots_stable: "current g \<Longrightarrow> fold (\<lambda>F g. snd (migrate F g)) Fs g = g"
  by (induction Fs) (simp_all add: current_stable)

lemma one_success_is_enough: "migrate F g = (Inr (), g') \<Longrightarrow> fold (\<lambda>F g. snd (migrate F g)) Fs g' = g'"
  by (rule boots_stable [OF migrate_current])

end

text \<open>A database that holds every file of a directory, with its table of versions.\<close>

definition up_to_date :: "files \<Rightarrow> 's pg \<Rightarrow> bool" where
  "up_to_date files g = (g_versions g \<noteq> None \<and> set (map fst files) \<subseteq> set (versions g))"

lemma ensure_versions_id: "g_versions g \<noteq> None \<Longrightarrow> ensure_versions g = g"
  by (auto simp: ensure_versions_def versions_def split: option.splits)

lemma apply_files_versions:
  "apply_files run_sql F files applied names g = Inr g' \<Longrightarrow>
    set (versions g) \<union> (set names - set applied) \<subseteq> set (versions g') \<and> (g_versions g \<noteq> None \<longrightarrow> g_versions g' \<noteq> None)"
proof (induction names arbitrary: g)
  case (Cons name names)
  show ?case
  proof (cases "name \<in> set applied")
    case False
    then obtain g1 where g1: "apply_file run_sql F files name g = Inr g1"
      and rest: "apply_files run_sql F files applied names g1 = Inr g'" using Cons.prems by (auto split: sum.splits)
    have "versions g1 = versions g @ [name] \<and> g_versions g1 \<noteq> None"
      using g1 by (auto simp: apply_file_def insert_version_def split: option.splits sum.splits if_splits)
    with Cons.IH [OF rest] show ?thesis by auto
  qed (use Cons in auto)
qed simp

lemma Migrate_up_to_date: "Migrate run_sql F files g = (Inr (), g') \<Longrightarrow> up_to_date files g'"
  using Migrate_changed [of run_sql F files g "Inr ()" g']
    apply_files_versions [of run_sql F files "versions g" "sort_Strings (map fst files)" "ensure_versions g" g']
  by (auto simp: up_to_date_def ensure_versions_def)

lemma Migrate_stable:
  assumes "up_to_date files g"
  shows "snd (Migrate run_sql F files g) = g"
proof -
  have "apply_files run_sql F files (versions g) (sort_Strings (map fst files)) (ensure_versions g) = Inr g"
    using assms by (subst apply_files_applied) (auto simp: up_to_date_def ensure_versions_id)
  then show ?thesis using Migrate_changed [of run_sql F files g] by (auto simp: prod_eq_iff)
qed

interpretation schema: migrator "\<lambda>F. Migrate run_sql F files" "up_to_date files" for run_sql files
  by unfold_locales (auto intro: Migrate_up_to_date Migrate_stable)

section \<open>Theorems\<close>

text \<open>The boots of a deployment, each with the directory of its own release.\<close>

fun deploy :: "(string \<Rightarrow> 's \<Rightarrow> 's res) \<Rightarrow> (migrate_faults \<times> files) list \<Rightarrow> 's pg \<Rightarrow> 's pg" where
  "deploy run_sql [] g = g"
| "deploy run_sql ((F, files) # bs) g = deploy run_sql bs (snd (Migrate run_sql F files g))"

lemma deploy_built:
  "list_all (\<lambda>(F, files). released script files) bs \<Longrightarrow> built run_sql script s0 g \<Longrightarrow>
    built run_sql script s0 (deploy run_sql bs g)"
proof (induction run_sql bs g rule: deploy.induct)
  case (2 run_sql F files bs g)
  then show ?case using Migrate_built [of run_sql F files g _ _ script s0] by (simp add: prod_eq_iff)
qed simp

text \<open>
  C21. Migrations run once, in order, or not at all. Along any sequence of boots of any releases, with any
  outcome of every call of each, the schema is what the recorded versions' scripts build one after
  the other on the first one, no version twice; a boot that fails before its commit leaves no trace of
  it; and after a boot that succeeds, every file of its release is in, those that were missing in
  lexical order, and no later boot of that release changes anything.
\<close>

theorem migrations_once:
  assumes "list_all (\<lambda>(F, files). released script files) bs" and "released script files"
    and "g = deploy run_sql bs \<lparr>g_schema = s0, g_versions = None\<rparr>" and "Migrate run_sql F files g = (r, g')"
  shows "distinct (versions g') \<and> build run_sql script (versions g') s0 = Inr (g_schema g')
    \<and> (mf_commit F = Good \<and> r \<noteq> Inr () \<longrightarrow> g' = g)
    \<and> (r = Inr () \<longrightarrow> versions g' = versions g @ filter (\<lambda>n. n \<notin> set (versions g)) (sort_Strings (map fst files))
        \<and> fold (\<lambda>F g. snd (Migrate run_sql F files g)) Fs g' = g')"
proof -
  have "built run_sql script s0 \<lparr>g_schema = s0, g_versions = None\<rparr>" by (simp add: built_def versions_def)
  with assms(1,3) have "built run_sql script s0 g" by (simp add: deploy_built)
  from Migrate_built [OF assms(4,2) this]
  have b: "built run_sql script s0 g'" "r = Inr () \<Longrightarrow>
      versions g' = versions g @ filter (\<lambda>n. n \<notin> set (versions g)) (sort_Strings (map fst files))" by auto
  moreover have "mf_commit F = Good \<and> r \<noteq> Inr () \<longrightarrow> g' = g"
    using assms(4) by (auto simp: Migrate_def Let_def split: option.splits sum.splits)
  moreover have "r = Inr () \<Longrightarrow> fold (\<lambda>F g. snd (Migrate run_sql F files g)) Fs g' = g'"
    using schema.one_success_is_enough assms(4) by blast
  ultimately show ?thesis by (simp add: built_def)
qed

definition demo_sql :: "string \<Rightarrow> string list \<Rightarrow> string list res" where
  "demo_sql sql s = Inr (s @ [sql])"

definition calm_migration :: migrate_faults where
  "calm_migration = \<lparr> mf_readdir = None, mf_begin = None, mf_lock = None, mf_ensure = None, mf_query = None,
     mf_scan = None, mf_apply = (\<lambda>_. None), mf_record = (\<lambda>_. None), mf_commit = Good \<rparr>"

text \<open>Two releases; the commit of the first boot is lost, and the second release adds a file.\<close>

definition demo_boots :: "(migrate_faults \<times> files) list" where
  "demo_boots = [(calm_migration\<lparr>mf_commit := Drop (Errorf ''reset'')\<rparr>, [(''2'', ''B'')]), (calm_migration, [(''2'', ''B'')])]"

lemma demo_sorted: "sort_Strings [''2'', ''1''] = [''1'', ''2'']" "sort_Strings [''2''] = [''2'']"
  by (code_simp)+

lemma demo_deploy: "deploy demo_sql demo_boots \<lparr>g_schema = [], g_versions = None\<rparr> = \<lparr>g_schema = [''B''], g_versions = Some [''2'']\<rparr>"
  by (simp add: demo_boots_def Migrate_def migrate_tx_def calm_migration_def demo_sorted apply_file_def ReadFile_def
      insert_version_def ensure_versions_def versions_def demo_sql_def)

theorem migrations_once_witness:
  "\<exists>g'. Migrate demo_sql calm_migration [(''2'', ''B''), (''1'', ''A'')]
      (deploy demo_sql demo_boots \<lparr>g_schema = [], g_versions = None\<rparr>) = (Inr (), g')
    \<and> versions g' = [''2'', ''1''] \<and> g_schema g' = [''B'', ''A'']"
proof -
  let ?fs = "[(''2'', ''B''), (''1'', ''A'')]" and ?script = "(\<lambda>_. ''A'')(''2'' := ''B'')"
  let ?g = "deploy demo_sql demo_boots \<lparr>g_schema = [], g_versions = None\<rparr>"
  have r: "list_all (\<lambda>(F, files). released ?script files) demo_boots" "released ?script ?fs"
    by (simp_all add: demo_boots_def released_def)
  obtain g' where g': "Migrate demo_sql calm_migration ?fs ?g = (Inr (), g')"
    by (simp add: demo_deploy Migrate_def migrate_tx_def calm_migration_def demo_sorted apply_file_def ReadFile_def
      insert_version_def ensure_versions_def versions_def demo_sql_def)
  from migrations_once [OF r refl g'] have "versions g' = [''2'', ''1'']"
    by (simp add: demo_deploy demo_sorted) (simp add: versions_def)
  with migrations_once [OF r refl g'] g' show ?thesis by (simp add: demo_sql_def)
qed

end
