(* ===== verification/Builtins.thy ===== *)
theory Builtins
  imports Runner_Props Golib "HOL-Library.Word" "HOL-Library.Signed_Division"
begin

unbundle bit_operations_syntax

text \<open>
  The built-in handlers: \<^verbatim>\<open>internal/handlers/httpcallback\<close>, \<^verbatim>\<open>internal/handlers/bench\<close>, and the registry of
  \<^verbatim>\<open>internal/handlers/handlers.go\<close>. A payload arrives as \<^verbatim>\<open>encoding/json\<close> decodes it, or as its error; the
  HTTP client, the parsing of URLs, HMAC and SHA-256 are parameters.
\<close>

section \<open>HTTP callbacks\<close>

definition callback_Type :: string where "callback_Type = ''http.callback''"

definition maxResponseSnippet :: nat where "maxResponseSnippet = 1024"

record callback_payload =
  cp_URL :: string
  cp_Body :: string
  cp_Event :: string
  cp_TimeoutMs :: int

record callback_handler =
  ch_Secret :: string
  ch_AllowedHosts :: "string list"

record http_request =
  hr_URL :: string
  hr_Body :: string
  hr_Headers :: "(string \<times> string) list"
  hr_Timeout :: duration

record http_response =
  hp_StatusCode :: int
  hp_Body :: string

text \<open>\<^verbatim>\<open>encoding/hex\<close> and the signature: \<open>hmac\<close> is HMAC-SHA256 of a key and a message.\<close>

definition hex_digit :: "nat \<Rightarrow> char" where
  "hex_digit n = (if n < 10 then char_of (48 + n) else char_of (87 + n))"

definition hex_EncodeToString :: "string \<Rightarrow> string" where
  "hex_EncodeToString s = concat (map (\<lambda>c. [hex_digit (of_char c div 16), hex_digit (of_char c mod 16)]) s)"

definition Sign :: "(string \<Rightarrow> string \<Rightarrow> string) \<Rightarrow> string \<Rightarrow> int \<Rightarrow> string \<Rightarrow> string" where
  "Sign hmac secret ts body = hex_EncodeToString (hmac secret (dec_of_int ts @ ''.'' @ body))"

text \<open>\<open>equal_fold\<close> is \<^verbatim>\<open>strings.EqualFold\<close>.\<close>

definition hostAllowed :: "(string \<Rightarrow> string \<Rightarrow> bool) \<Rightarrow> string \<Rightarrow> string list \<Rightarrow> bool" where
  "hostAllowed equal_fold host allowed = list_ex (equal_fold host) allowed"

definition HasPrefix :: "string \<Rightarrow> string \<Rightarrow> bool" where
  "HasPrefix s p = (take (length p) s = p)"

definition callback_timeout :: "int \<Rightarrow> duration" where
  "callback_timeout ms =
    (let t = (if ms > 0 then wrap64 (ms * millisecond) else 10 * second)
     in if t > 30 * second then 30 * second else t)"

text \<open>The permanent errors of the handlers; a value that Go quotes is printed plain.\<close>

definition permanent :: "string \<Rightarrow> go_error" where
  "permanent msg = NonRetryableError (Errorf msg)"

text \<open>
  \<^verbatim>\<open>Handle\<close> up to the delivery: the request it sends, or the error it returns without sending any.
  \<open>hostname\<close> is what \<^verbatim>\<open>http.NewRequest\<close> parses from the URL.
\<close>

definition callback_request ::
  "(string \<Rightarrow> go_error + string) \<Rightarrow> (string \<Rightarrow> string \<Rightarrow> bool) \<Rightarrow> (string \<Rightarrow> string \<Rightarrow> string) \<Rightarrow> callback_handler \<Rightarrow>
    job \<Rightarrow> time \<Rightarrow> go_error + callback_payload \<Rightarrow> go_error + http_request"
where
  "callback_request hostname equal_fold hmac h j now payload =
    (case payload of
       Inl e \<Rightarrow> Inl (NonRetryableError (ErrorfW ''httpcallback: bad payload: '' e))
     | Inr p \<Rightarrow>
         if \<not> HasPrefix (cp_URL p) ''http://'' \<and> \<not> HasPrefix (cp_URL p) ''https://''
         then Inl (permanent (''httpcallback: url must be http(s), got '' @ cp_URL p))
         else case hostname (cp_URL p) of
           Inl e \<Rightarrow> Inl (NonRetryableError (ErrorfW ''httpcallback: building request: '' e))
         | Inr host \<Rightarrow>
             if ch_AllowedHosts h \<noteq> [] \<and> \<not> hostAllowed equal_fold host (ch_AllowedHosts h)
             then Inl (permanent (''httpcallback: host '' @ host @ '' not in allowlist''))
             else Inr
               \<lparr> hr_URL = cp_URL p, hr_Body = cp_Body p,
                 hr_Headers =
                   [(''Content-Type'', ''application/json''), (''User-Agent'', ''calligraphy/1.0'')]
                   @ (if cp_Event p \<noteq> [] then [(''X-Calligraphy-Event'', cp_Event p)] else [])
                   @ [(''X-Calligraphy-Job-Id'', j_ID j), (''X-Calligraphy-Attempt'', dec_of_int (j_AttemptCount j))]
                   @ (if ch_Secret h \<noteq> []
                      then let ts = now div second in
                        [(''X-Calligraphy-Timestamp'', dec_of_int ts),
                         (''X-Calligraphy-Signature'', ''v1='' @ Sign hmac (ch_Secret h) ts (cp_Body p))]
                      else []),
                 hr_Timeout = callback_timeout (cp_TimeoutMs p) \<rparr>)"

text \<open>The result it stores: the status, the beginning of the body and the time.\<close>

definition callback_answer ::
  "(int \<Rightarrow> string \<Rightarrow> string \<Rightarrow> go_error + string) \<Rightarrow> time \<Rightarrow> http_response \<Rightarrow> string \<times> error"
where
  "callback_answer marshal_result now resp =
    (let code = hp_StatusCode resp; snippet = take maxResponseSnippet (hp_Body resp) in
     if 200 \<le> code \<and> code < 300 then
       (case marshal_result code snippet (RFC3339 now) of
          Inl e \<Rightarrow> ([], Some (ErrorfW ''httpcallback: encoding result: '' e))
        | Inr out \<Rightarrow> (out, None))
     else if 300 \<le> code \<and> code < 400 then
       ([], Some (permanent (''httpcallback: endpoint redirected ('' @ dec_of_int code
          @ ''); callback URLs must be final destinations'')))
     else if code = 408 \<or> code = 429 then
       ([], Some (Errorf (''httpcallback: receiver says try later ('' @ dec_of_int code @ '')'')))
     else if 400 \<le> code \<and> code < 500 then
       ([], Some (permanent (''httpcallback: receiver rejected delivery ('' @ dec_of_int code @ ''): '' @ snippet)))
     else ([], Some (Errorf (''httpcallback: receiver error ('' @ dec_of_int code @ ''): '' @ snippet))))"

text \<open>The handler; \<open>send\<close> is the HTTP client, which follows no redirect.\<close>

definition callback_Handle ::
  "(string \<Rightarrow> go_error + string) \<Rightarrow> (string \<Rightarrow> string \<Rightarrow> bool) \<Rightarrow> (string \<Rightarrow> string \<Rightarrow> string) \<Rightarrow>
    (int \<Rightarrow> string \<Rightarrow> string \<Rightarrow> go_error + string) \<Rightarrow> callback_handler \<Rightarrow> job \<Rightarrow> time \<Rightarrow> time \<Rightarrow>
    go_error + callback_payload \<Rightarrow> (http_request \<Rightarrow> go_error + http_response) \<Rightarrow> string \<times> error"
where
  "callback_Handle hostname equal_fold hmac marshal_result h j now done_at payload send =
    (case callback_request hostname equal_fold hmac h j now payload of
       Inl e \<Rightarrow> ([], Some e)
     | Inr req \<Rightarrow>
         (case send req of
            Inl e \<Rightarrow> ([], Some (ErrorfW (''httpcallback: delivering to '' @ hr_URL req @ '': '') e))
          | Inr resp \<Rightarrow> callback_answer marshal_result done_at resp))"

section \<open>Benchmark handlers\<close>

definition TypeSleep :: string where "TypeSleep = ''bench.sleep''"
definition TypeCPU :: string where "TypeCPU = ''bench.cpu''"
definition TypeFlaky :: string where "TypeFlaky = ''bench.flaky''"

text \<open>\<open>hash/fnv\<close>, the 64-bit variant 1a, and the little-endian bytes of a 64-bit integer.\<close>

definition fnv1a :: "string \<Rightarrow> 64 word" where
  "fnv1a s = foldl (\<lambda>h c. (h XOR of_nat (of_char c)) * 1099511628211) 14695981039346656037 s"

definition le_bytes :: "64 word \<Rightarrow> string" where
  "le_bytes x = map (\<lambda>k. char_of (unat (drop_bit (8 * k) x) mod 256)) [0 ..< 8]"

definition draw :: "string \<Rightarrow> string \<Rightarrow> int \<Rightarrow> rat" where
  "draw label i attempt = of_nat (unat (fnv1a (label @ i @ le_bytes (word_of_int attempt))) mod 100000) / 100000"

record flaky_payload =
  fp_FailRate :: rat
  fp_PermanentRate :: rat
  fp_SleepMs :: int

text \<open>\<open>stopped\<close> is the error of the context when it ends before the timer.\<close>

definition handleFlaky :: "job \<Rightarrow> go_error + flaky_payload \<Rightarrow> error \<Rightarrow> string \<times> error" where
  "handleFlaky j payload stopped =
    (case payload of
       Inl e \<Rightarrow> ([], Some (NonRetryableError (ErrorfW ''bench.flaky: bad payload: '' e)))
     | Inr p \<Rightarrow>
         if fp_SleepMs p > 0 \<and> stopped \<noteq> None then ([], stopped)
         else if draw ''permanent'' (j_ID j) 0 < fp_PermanentRate p then
           ([], Some (permanent (''bench.flaky: job '' @ j_ID j @ '' is permanently unprocessable (injected)'')))
         else if draw ''transient'' (j_ID j) (j_AttemptCount j) < fp_FailRate p then
           ([], Some (Errorf (''bench.flaky: injected transient failure (attempt '' @ dec_of_int (j_AttemptCount j) @ '')'')))
         else (''{\"attempt\":'' @ dec_of_int (j_AttemptCount j) @ ''}'', None))"

record sleep_payload =
  sl_Ms :: int
  sl_JitterMs :: int

text \<open>\<open>jitter\<close> is the draw of \<^verbatim>\<open>rand.IntN\<close> below the payload's bound.\<close>

definition sleep_duration :: "sleep_payload \<Rightarrow> int \<Rightarrow> duration" where
  "sleep_duration p jitter =
    (let d = wrap64 ((if sl_Ms p \<le> 0 then 50 else sl_Ms p) * millisecond)
     in if sl_JitterMs p > 0 then wrap64 (d + wrap64 (jitter * millisecond)) else d)"

definition handleSleep :: "go_error + sleep_payload \<Rightarrow> int \<Rightarrow> error \<Rightarrow> string \<times> error" where
  "handleSleep payload jitter stopped =
    (case payload of
       Inl e \<Rightarrow> ([], Some (NonRetryableError (ErrorfW ''bench.sleep: bad payload: '' e)))
     | Inr p \<Rightarrow>
         if stopped \<noteq> None then ([], stopped)
         else (''{\"sleptMs\":'' @ dec_of_int (sleep_duration p jitter sdiv millisecond) @ ''}'', None))"

text \<open>\<open>stop i\<close> is the context's error when round \<open>i\<close> looks at it, every 50000 rounds.\<close>

fun cpu_rounds :: "(string \<Rightarrow> string) \<Rightarrow> (nat \<Rightarrow> error) \<Rightarrow> nat \<Rightarrow> nat \<Rightarrow> string \<Rightarrow> go_error + string" where
  "cpu_rounds sha256 stop i 0 h = Inr h"
| "cpu_rounds sha256 stop i (Suc n) h =
    (case (if i mod 50000 = 0 then stop i else None) of
       Some e \<Rightarrow> Inl e
     | None \<Rightarrow> cpu_rounds sha256 stop (Suc i) n (sha256 h))"

definition handleCPU :: "(string \<Rightarrow> string) \<Rightarrow> job \<Rightarrow> go_error + int \<Rightarrow> (nat \<Rightarrow> error) \<Rightarrow> string \<times> error" where
  "handleCPU sha256 j payload stop =
    (case payload of
       Inl e \<Rightarrow> ([], Some (NonRetryableError (ErrorfW ''bench.cpu: bad payload: '' e)))
     | Inr its \<Rightarrow>
         (let n = (if its \<le> 0 then 100000 else its) in
          case cpu_rounds sha256 stop 0 (nat n) (sha256 (j_ID j)) of
            Inl e \<Rightarrow> ([], Some e)
          | Inr h \<Rightarrow>
              (''{\"iterations\":'' @ dec_of_int n @ '',\"digest\":\"'' @ hex_EncodeToString (take 8 h) @ ''\"}'', None)))"

section \<open>The built-in registry\<close>

definition builtin :: "string \<Rightarrow> duration \<Rightarrow> registration" where
  "builtin ty timeout =
    \<lparr> g_Type = ty, g_hasHandler = True, g_LeaseTTL = 0, g_ExecTimeout = timeout, g_MaxAttempts = 0 \<rparr>"

definition article_Type :: string where "article_Type = ''article.analysis''"

text \<open>\<^verbatim>\<open>MustRegister\<close> panics on an error: \<open>None\<close>.\<close>

definition MustRegister :: "registration \<Rightarrow> registry option \<Rightarrow> registry option" where
  "MustRegister reg m =
    (case m of None \<Rightarrow> None | Some m \<Rightarrow> (case registry_Register m reg of Inl _ \<Rightarrow> None | Inr m' \<Rightarrow> Some m'))"

definition bench_RegisterAll :: "registry option \<Rightarrow> registry option" where
  "bench_RegisterAll m =
    MustRegister (builtin TypeFlaky 0) (MustRegister (builtin TypeCPU 0) (MustRegister (builtin TypeSleep 0) m))"

definition builtin_registry :: "registry option" where
  "builtin_registry =
    bench_RegisterAll (MustRegister (builtin callback_Type (45 * second))
      (MustRegister (builtin article_Type (60 * second)) (Some NewRegistry)))"

section \<open>Callbacks are classified by their answer\<close>

lemma permanent_Failed: "finish_outcome (Some (permanent msg)) None = OutcomeFailed"
  by (simp add: permanent_def finish_outcome_def ClassifyError_def go_defs isPanic_def Let_def ErrCancelRequested_def)

lemma Errorf_Retryable: "finish_outcome (Some (Errorf msg)) None = OutcomeRetryable"
  by (simp add: finish_outcome_def ClassifyError_def go_defs isPanic_def Let_def ErrCancelRequested_def)

lemma callback_request_Inl: "callback_request hn ef hm h j now payload = Inl e \<Longrightarrow> IsNonRetryable (Some e)"
  by (auto simp: callback_request_def permanent_def go_defs split: sum.splits if_splits)

text \<open>
  C30. What becomes of a callback. A delivery that cannot be built is marked permanent and sends nothing; an
  answer decides the outcome of the attempt by its status: 2xx completes the job, a redirect and a 4xx
  other than 408 and 429 fail it for good, 408, 429, 5xx and anything else is retried; an error of the
  transport is classified as that error itself.
\<close>

theorem callback_classified:
  assumes "\<And>code snippet at'. marshal_result code snippet at' = Inr (out code snippet at')"
  shows "(\<forall>e. callback_request hostname equal_fold hmac h j now payload = Inl e \<longrightarrow>
      callback_Handle hostname equal_fold hmac marshal_result h j now done_at payload send = ([], Some e) \<and> IsNonRetryable (Some e))
    \<and> (\<forall>req resp. callback_request hostname equal_fold hmac h j now payload = Inr req \<longrightarrow> send req = Inr resp \<longrightarrow>
      finish_outcome (snd (callback_Handle hostname equal_fold hmac marshal_result h j now done_at payload send)) None =
        (if 200 \<le> hp_StatusCode resp \<and> hp_StatusCode resp < 300 then OutcomeCompleted
         else if 300 \<le> hp_StatusCode resp \<and> hp_StatusCode resp < 500 \<and> hp_StatusCode resp \<notin> {408, 429} then OutcomeFailed
         else OutcomeRetryable))
    \<and> (\<forall>req e cause. callback_request hostname equal_fold hmac h j now payload = Inr req \<longrightarrow> send req = Inl e \<longrightarrow>
      finish_outcome (snd (callback_Handle hostname equal_fold hmac marshal_result h j now done_at payload send)) cause =
        finish_outcome (Some e) cause)"
proof (intro conjI allI impI)
  fix req resp
  assume r: "callback_request hostname equal_fold hmac h j now payload = Inr req" "send req = Inr resp"
  have "finish_outcome None None = OutcomeCompleted" by (simp add: finish_outcome_def ClassifyError_def Let_def)
  with r assms show "finish_outcome (snd (callback_Handle hostname equal_fold hmac marshal_result h j now done_at payload send)) None =
        (if 200 \<le> hp_StatusCode resp \<and> hp_StatusCode resp < 300 then OutcomeCompleted
         else if 300 \<le> hp_StatusCode resp \<and> hp_StatusCode resp < 500 \<and> hp_StatusCode resp \<notin> {408, 429} then OutcomeFailed
         else OutcomeRetryable)"
    by (simp add: callback_Handle_def callback_answer_def permanent_Failed Errorf_Retryable Let_def)
next
  fix req e cause
  assume "callback_request hostname equal_fold hmac h j now payload = Inr req" "send req = Inl e"
  then show "finish_outcome (snd (callback_Handle hostname equal_fold hmac marshal_result h j now done_at payload send)) cause =
        finish_outcome (Some e) cause"
    using ClassifyError_wrap [of "[''httpcallback: delivering to '' @ hr_URL req @ '': '']" e cause]
    by (simp add: callback_Handle_def finish_outcome_def isPanic_def go_defs)
qed (simp_all add: callback_Handle_def callback_request_Inl)

lemma builtin_registry_eval:
  "builtin_registry = Some [(article_Type, builtin article_Type (60 * second)), (callback_Type, builtin callback_Type (45 * second)),
    (TypeSleep, builtin TypeSleep 0), (TypeCPU, builtin TypeCPU 0), (TypeFlaky, builtin TypeFlaky 0)]"
  by (simp add: builtin_registry_def bench_RegisterAll_def MustRegister_def registry_Register_def registry_Get_def builtin_def
      NewRegistry_def article_Type_def callback_Type_def TypeSleep_def TypeCPU_def TypeFlaky_def ValidName_def is_alnum_def
      is_name_char_def)

lemma callback_timeout_cap: "callback_timeout ms \<le> 30 * second"
  by (simp add: callback_timeout_def Let_def)

lemma callback_timeout_pos:
  assumes "ms < 2 ^ 63 div millisecond"
  shows "0 < callback_timeout ms"
proof (cases "0 < ms")
  case True
  then have "wrap64 (ms * millisecond) = ms * millisecond" using assms by (intro wrap64_id) auto
  with True show ?thesis by (simp add: callback_timeout_def)
qed (simp add: callback_timeout_def)

text \<open>
  C31. What a callback sends. A request that leaves has an http or https URL, a host of the allow-list when there
  is one, the signature of the time and the body exactly when a secret is configured, and a time limit of
  at most 30 seconds, which a worker with the built-in registry reaches before the execution's own limit;
  the limit is positive unless the requested milliseconds overflow a 64-bit duration.
\<close>

theorem callback_request_safe:
  assumes "callback_request hostname equal_fold hmac h j now (Inr p) = Inr req"
    and "builtin_registry = Some (n_Registry n)"
  shows "(HasPrefix (hr_URL req) ''http://'' \<or> HasPrefix (hr_URL req) ''https://'')
    \<and> (ch_AllowedHosts h \<noteq> [] \<longrightarrow> (\<exists>host allowed. hostname (hr_URL req) = Inr host \<and> allowed \<in> set (ch_AllowedHosts h)
        \<and> equal_fold host allowed))
    \<and> map_of (hr_Headers req) ''X-Calligraphy-Signature'' =
        (if ch_Secret h = [] then None
         else Some (''v1='' @ hex_EncodeToString (hmac (ch_Secret h) (dec_of_int (now div second) @ ''.'' @ hr_Body req))))
    \<and> hr_Timeout req \<le> 30 * second \<and> hr_Timeout req < exec_timeout n callback_Type
    \<and> (cp_TimeoutMs p < 2 ^ 63 div millisecond \<longrightarrow> 0 < hr_Timeout req)"
proof -
  obtain host where r: "HasPrefix (cp_URL p) ''http://'' \<or> HasPrefix (cp_URL p) ''https://''"
    "hostname (cp_URL p) = Inr host" "ch_AllowedHosts h \<noteq> [] \<longrightarrow> hostAllowed equal_fold host (ch_AllowedHosts h)"
    and u: "hr_URL req = cp_URL p" "hr_Body req = cp_Body p" "hr_Timeout req = callback_timeout (cp_TimeoutMs p)"
    and hd: "hr_Headers req =
                   [(''Content-Type'', ''application/json''), (''User-Agent'', ''calligraphy/1.0'')]
                   @ (if cp_Event p \<noteq> [] then [(''X-Calligraphy-Event'', cp_Event p)] else [])
                   @ [(''X-Calligraphy-Job-Id'', j_ID j), (''X-Calligraphy-Attempt'', dec_of_int (j_AttemptCount j))]
                   @ (if ch_Secret h \<noteq> []
                      then let ts = now div second in
                        [(''X-Calligraphy-Timestamp'', dec_of_int ts),
                         (''X-Calligraphy-Signature'', ''v1='' @ Sign hmac (ch_Secret h) ts (cp_Body p))]
                      else [])"
    using assms(1) by (auto simp: callback_request_def split: if_splits sum.splits)
  have "map_of (hr_Headers req) ''X-Calligraphy-Signature'' =
        (if ch_Secret h = [] then None
         else Some (''v1='' @ hex_EncodeToString (hmac (ch_Secret h) (dec_of_int (now div second) @ ''.'' @ hr_Body req))))"
    unfolding hd u(2) by (simp add: Sign_def Let_def)
  moreover have "exec_timeout n callback_Type = 45 * second"
    unfolding exec_timeout_def registry_Get_def assms(2) [unfolded builtin_registry_eval, THEN option.inject [THEN iffD1], symmetric]
    by (simp add: builtin_def article_Type_def callback_Type_def)
  moreover have "hr_Timeout req \<le> 30 * second" using callback_timeout_cap u(3) by simp
  ultimately show ?thesis using r u(1,3) callback_timeout_pos by (auto simp: hostAllowed_def list_ex_iff)
qed

definition demo_callback :: callback_payload where
  "demo_callback = \<lparr> cp_URL = ''http://a/b'', cp_Body = ''{}'', cp_Event = [], cp_TimeoutMs = 500 \<rparr>"

definition demo_callback_handler :: callback_handler where
  "demo_callback_handler = \<lparr> ch_Secret = ''k'', ch_AllowedHosts = [''a''] \<rparr>"

definition demo_callback_request :: "go_error + http_request" where
  "demo_callback_request =
    callback_request (\<lambda>_. Inr ''a'') (=) (\<lambda>k m. k @ m) demo_callback_handler (run_job demo_delivery demo_claim) 0 (Inr demo_callback)"

lemma demo_callback_sent: "\<exists>req. demo_callback_request = Inr req"
  by (simp add: demo_callback_request_def callback_request_def demo_callback_def demo_callback_handler_def HasPrefix_def
      hostAllowed_def)

theorem callback_request_safe_witness:
  "\<exists>req. demo_callback_request = Inr req \<and> 0 < hr_Timeout req \<and> hr_Timeout req \<le> 30 * second
    \<and> HasPrefix (hr_URL req) ''http://''"
proof -
  obtain req where r: "demo_callback_request = Inr req" using demo_callback_sent by blast
  have b: "builtin_registry = Some (n_Registry (demo_runner\<lparr>n_Registry := the builtin_registry\<rparr>))"
    by (simp add: builtin_registry_eval)
  have "hr_URL req = ''http://a/b''"
    using r by (auto simp: demo_callback_request_def callback_request_def demo_callback_def split: if_splits)
  with callback_request_safe [OF r [unfolded demo_callback_request_def] b] r show ?thesis
    by (auto simp: demo_callback_def HasPrefix_def)
qed

theorem callback_classified_witness:
  "\<exists>req. demo_callback_request = Inr req \<and> finish_outcome (snd (callback_Handle (\<lambda>_. Inr ''a'') (=) (\<lambda>k m. k @ m)
      (\<lambda>code snippet at'. Inr snippet) demo_callback_handler (run_job demo_delivery demo_claim) 0 0 (Inr demo_callback)
      (\<lambda>_. Inr \<lparr> hp_StatusCode = 404, hp_Body = [] \<rparr>))) None = OutcomeFailed"
proof -
  obtain req where r: "demo_callback_request = Inr req" using demo_callback_sent by blast
  from callback_classified [of "\<lambda>code snippet at'. Inr snippet" "\<lambda>code snippet at'. snippet" "\<lambda>_. Inr ''a''" "(=)" "\<lambda>k m. k @ m"
      demo_callback_handler "run_job demo_delivery demo_claim" 0 "Inr demo_callback" 0 "\<lambda>_. Inr \<lparr> hp_StatusCode = 404, hp_Body = [] \<rparr>"]
    r show ?thesis by (simp add: demo_callback_request_def)
qed

section \<open>Injected failures\<close>

lemma draw_range: "0 \<le> draw label i attempt \<and> draw label i attempt < 1"
proof -
  have "unat (fnv1a (label @ i @ le_bytes (word_of_int attempt))) mod 100000 < 100000" by simp
  then have "(of_nat (unat (fnv1a (label @ i @ le_bytes (word_of_int attempt))) mod 100000) :: rat) < of_nat 100000"
    by (simp only: of_nat_less_iff)
  then show ?thesis by (simp add: draw_def)
qed

text \<open>
  Injected failures follow their rates at the ends of the scale. The draws lie in the unit interval, so with both
  rates zero a flaky job that is not stopped completes, with a permanent rate of one it fails for good on
  every attempt, and with a failure rate of one and no permanent rate every attempt is retried. What an
  attempt does depends on the job and the attempt number alone.
\<close>

lemma flaky_rates:
  assumes "fp_SleepMs p > 0 \<Longrightarrow> stopped = None"
  shows "(fp_PermanentRate p \<le> 0 \<and> fp_FailRate p \<le> 0 \<longrightarrow> finish_outcome (snd (handleFlaky j (Inr p) stopped)) None = OutcomeCompleted)
    \<and> (1 \<le> fp_PermanentRate p \<longrightarrow> finish_outcome (snd (handleFlaky j (Inr p) stopped)) None = OutcomeFailed)
    \<and> (fp_PermanentRate p \<le> 0 \<and> 1 \<le> fp_FailRate p \<longrightarrow>
        finish_outcome (snd (handleFlaky j (Inr p) stopped)) None = OutcomeRetryable)
    \<and> (j_ID j = j_ID j' \<and> j_AttemptCount j = j_AttemptCount j' \<longrightarrow> handleFlaky j (Inr p) stopped = handleFlaky j' (Inr p) stopped)"
proof -
  have d: "0 \<le> draw ''permanent'' (j_ID j) 0" "draw ''permanent'' (j_ID j) 0 < 1"
    "0 \<le> draw ''transient'' (j_ID j) (j_AttemptCount j)" "draw ''transient'' (j_ID j) (j_AttemptCount j) < 1"
    using draw_range by simp_all
  have "finish_outcome None None = OutcomeCompleted" by (simp add: finish_outcome_def ClassifyError_def Let_def)
  moreover have "\<not> (fp_SleepMs p > 0 \<and> stopped \<noteq> None)" using assms by blast
  ultimately show ?thesis using d
    by (intro conjI impI) (simp_all add: handleFlaky_def permanent_Failed Errorf_Retryable)
qed

end
