(* ===== verification/Boot.thy ===== *)
theory Boot
  imports Config Router Migrate Builtins "HOL-Library.Sublist"
begin

text \<open>
  How a process starts: \<^verbatim>\<open>store.Open\<close>, \<^verbatim>\<open>queue.New\<close>, \<^verbatim>\<open>worker.New\<close> of \<^verbatim>\<open>internal/worker/worker.go\<close> and
  \<^verbatim>\<open>run\<close> of \<^verbatim>\<open>cmd/calligraphy-worker/main.go\<close>, with the connections they open and what they give back when
  a start fails. The API process is in \<open>Shutdown\<close>.
\<close>

section \<open>Connections\<close>

record redis_options =
  ro_Addr :: string
  ro_PoolSize :: int

text \<open>
  The machine a process runs on: its Postgres pools (by size) and Redis clients that are open, the
  database as the migrator sees it and the rest of the world.
\<close>

record ('r, 's) host =
  ho_pools :: "int list"
  ho_clients :: "redis_options list"
  ho_pg :: "'s pg"
  ho_world :: "'r world"

text \<open>The drivers: what they parse, and the outcome of each of their calls.\<close>

record 's drivers =
  dr_parse_dsn :: "string \<Rightarrow> error"
  dr_connect :: "int \<Rightarrow> error"
  dr_pg_ping :: error
  dr_parse_url :: "string \<Rightarrow> redis_options res"
  dr_rd_ping :: error
  dr_run_sql :: "string \<Rightarrow> 's \<Rightarrow> 's res"
  dr_files :: files
  dr_migrate :: migrate_faults

definition close_pool :: "('r, 's) host \<Rightarrow> ('r, 's) host" where
  "close_pool h = h\<lparr>ho_pools := tl (ho_pools h)\<rparr>"

definition close_client :: "('r, 's) host \<Rightarrow> ('r, 's) host" where
  "close_client h = h\<lparr>ho_clients := tl (ho_clients h)\<rparr>"

text \<open>\<^verbatim>\<open>MaxConns\<close> is a 32-bit field.\<close>

definition store_Open :: "'s drivers \<Rightarrow> string \<Rightarrow> int \<Rightarrow> ('r, 's) host \<Rightarrow> unit res \<times> ('r, 's) host" where
  "store_Open V dsn maxConns h =
    (case dr_parse_dsn V dsn of
       Some e \<Rightarrow> (Inl (ErrorfW ''store: parsing DSN: '' e), h)
     | None \<Rightarrow>
    (case dr_connect V (to_int32 maxConns) of
       Some e \<Rightarrow> (Inl (ErrorfW ''store: connecting: '' e), h)
     | None \<Rightarrow>
    (let h = h\<lparr>ho_pools := to_int32 maxConns # ho_pools h\<rparr> in
     case dr_pg_ping V of
       Some e \<Rightarrow> (Inl (ErrorfW ''store: ping: '' e), close_pool h)
     | None \<Rightarrow> (Inr (), h))))"

definition redis_opts :: "'s drivers \<Rightarrow> string \<Rightarrow> int \<Rightarrow> redis_options res" where
  "redis_opts V addr poolSize =
    (case (if sublist ''://'' addr
           then (case dr_parse_url V addr of Inl e \<Rightarrow> Inl (ErrorfW ''queue: parsing redis URL: '' e) | Inr o1 \<Rightarrow> Inr o1)
           else Inr \<lparr> ro_Addr = addr, ro_PoolSize = 0 \<rparr>) of
       Inl e \<Rightarrow> Inl e
     | Inr o1 \<Rightarrow> Inr (if poolSize > 0 then o1\<lparr>ro_PoolSize := poolSize\<rparr> else o1))"

text \<open>\<^verbatim>\<open>queue.New\<close> keeps the client open when its first ping fails.\<close>

definition queue_open ::
  "'s drivers \<Rightarrow> string \<Rightarrow> int \<Rightarrow> string \<Rightarrow> string \<Rightarrow> ('r, 's) host \<Rightarrow> queue res \<times> ('r, 's) host"
where
  "queue_open V addr poolSize pfx qname h =
    (case redis_opts V addr poolSize of
       Inl e \<Rightarrow> (Inl e, h)
     | Inr o1 \<Rightarrow>
    (let h = h\<lparr>ho_clients := o1 # ho_clients h\<rparr> in
     case dr_rd_ping V of
       Some e \<Rightarrow> (Inl (ErrorfW ''queue: ping: '' e), h)
     | None \<Rightarrow> (Inr (queue_New pfx qname), h)))"

definition store_Migrate :: "'s drivers \<Rightarrow> ('r, 's) host \<Rightarrow> unit res \<times> ('r, 's) host" where
  "store_Migrate V h =
    (let (r, g) = Migrate (dr_run_sql V) (dr_migrate V) (dr_files V) (ho_pg h) in (r, h\<lparr>ho_pg := g\<rparr>))"

definition host_EnsureGroup :: "'r redis \<Rightarrow> queue \<Rightarrow> ('r, 's) host \<Rightarrow> unit res \<times> ('r, 's) host" where
  "host_EnsureGroup R q h = (let (r, w) = run_state (EnsureGroup R q) (ho_world h) in (r, h\<lparr>ho_world := w\<rparr>))"

section \<open>The worker\<close>

record worker =
  wk_queue :: queue
  wk_batcher :: "batcher option"
  wk_runner :: runner
  wk_pool :: pool

text \<open>
  The parts of a worker; \<open>None\<close> is the panic of \<^verbatim>\<open>make(chan op, maxSize*2)\<close> in \<^verbatim>\<open>store.NewBatcher\<close>, for a size
  that wraps to a negative number or is above \<open>chan_max\<close>, the largest channel of operations that the runtime makes.
\<close>

definition worker_parts :: "int \<Rightarrow> config \<Rightarrow> registry \<Rightarrow> queue \<Rightarrow> worker option" where
  "worker_parts chan_max c reg q =
    map_option (\<lambda>b. \<lparr> wk_queue = q, wk_batcher = b, wk_runner = worker_runner c reg, wk_pool = worker_pool_new c \<rparr>)
      (if cf_BatchWrites c then map_option Some (NewBatcher chan_max (cf_BatchMaxSize c) (cf_BatchInterval c)) else Some None)"

datatype 'a started = Started 'a | StartFailed go_error | StartPanicked

definition worker_New ::
  "int \<Rightarrow> 'r redis \<Rightarrow> 's drivers \<Rightarrow> config \<Rightarrow> registry \<Rightarrow> ('r, 's) host \<Rightarrow> worker started \<times> ('r, 's) host"
where
  "worker_New chan_max R V c reg h =
    (case store_Open V (cf_DatabaseURL c) (cf_DBMaxConns c) h of
       (Inl e, h) \<Rightarrow> (StartFailed e, h)
     | (Inr _, h) \<Rightarrow>
    (case store_Migrate V h of
       (Inl e, h) \<Rightarrow> (StartFailed e, close_pool h)
     | (Inr _, h) \<Rightarrow>
    (case queue_open V (cf_RedisAddr c) (cf_RedisPoolSize c) (cf_KeyPrefix c) (cf_Queue c) h of
       (Inl e, h) \<Rightarrow> (StartFailed e, close_pool h)
     | (Inr q, h) \<Rightarrow>
    (case host_EnsureGroup R q h of
       (Inl e, h) \<Rightarrow> (StartFailed e, close_client (close_pool h))
     | (Inr _, h) \<Rightarrow>
    (case worker_parts chan_max c reg q of
       None \<Rightarrow> (StartPanicked, h)
     | Some w \<Rightarrow> (Started w, h))))))"

text \<open>What \<^verbatim>\<open>run\<close> of \<^verbatim>\<open>cmd/calligraphy-worker/main.go\<close> starts beside the worker, as configured.\<close>

datatype worker_service =
    ControlClient string string "string list"   \<comment> \<open>address, worker identifier, job types\<close>
  | AutoscaleLoop autoscaler
  | MetricsServer string

definition worker_services :: "config \<Rightarrow> registry \<Rightarrow> worker_service list" where
  "worker_services c reg =
    (if cf_ControlAddr c \<noteq> [] then [ControlClient (cf_ControlAddr c) (cf_WorkerID c) (registry_Types reg)] else [])
    @ (if cf_AutoscaleEnabled c then [AutoscaleLoop (worker_autoscaler c)] else [])
    @ [MetricsServer (cf_MetricsAddr c)]"

definition worker_main ::
  "int \<Rightarrow> 'r redis \<Rightarrow> 's drivers \<Rightarrow> environ \<Rightarrow> string \<Rightarrow> int \<Rightarrow> ('r, 's) host \<Rightarrow> (worker \<times> worker_service list) started \<times> ('r, 's) host"
where
  "worker_main chan_max R V env hostname pid h =
    (case Load env hostname pid of
       Inl msg \<Rightarrow> (StartFailed (Errorf msg), h)
     | Inr c \<Rightarrow>
    (case builtin_registry of
       None \<Rightarrow> (StartPanicked, h)
     | Some reg \<Rightarrow>
    (case worker_New chan_max R V c reg h of
       (StartFailed e, h) \<Rightarrow> (StartFailed e, h)
     | (StartPanicked, h) \<Rightarrow> (StartPanicked, h)
     | (Started w, h) \<Rightarrow> (Started (w, worker_services c reg), h))))"

section \<open>Nothing is left open\<close>

lemmas open_defs = store_Open_def queue_open_def store_Migrate_def host_EnsureGroup_def Let_def

lemma store_Open_result:
  assumes "store_Open V dsn n h = (r, h')"
  shows "h' = h\<lparr>ho_pools := (case r of Inl _ \<Rightarrow> [] | Inr _ \<Rightarrow> [to_int32 n]) @ ho_pools h\<rparr>"
  using assms by (auto simp: open_defs close_pool_def split: option.splits)

lemma queue_open_result:
  assumes "queue_open V addr n pfx qname h = (r, h')"
  shows "\<exists>os. h' = h\<lparr>ho_clients := os @ ho_clients h\<rparr>
    \<and> (case r of Inl _ \<Rightarrow> os = [] \<or> dr_rd_ping V \<noteq> None \<and> (\<exists>o1. os = [o1])
       | Inr q \<Rightarrow> (\<exists>o1. os = [o1] \<and> (0 < n \<longrightarrow> ro_PoolSize o1 = n)) \<and> q = queue_New pfx qname)"
proof (cases "redis_opts V addr n")
  case (Inl e)
  with assms show ?thesis by (intro exI [of _ "[]"]) (auto simp: queue_open_def)
next
  case (Inr o1)
  then have "0 < n \<longrightarrow> ro_PoolSize o1 = n" by (auto simp: redis_opts_def split: sum.splits if_splits)
  with Inr assms show ?thesis by (intro exI [of _ "[o1]"]) (auto simp: queue_open_def Let_def split: option.splits)
qed

lemma store_Migrate_result:
  assumes "store_Migrate V h = (r, h')"
  shows "\<exists>g. h' = h\<lparr>ho_pg := g\<rparr> \<and> (r = Inr () \<longrightarrow> up_to_date (dr_files V) g)"
  using assms by (auto simp: open_defs split: prod.splits intro: Migrate_up_to_date)

lemma host_EnsureGroup_result: "host_EnsureGroup R q h = (r, h') \<Longrightarrow> \<exists>w. h' = h\<lparr>ho_world := w\<rparr>"
  by (auto simp: open_defs split: prod.splits)

text \<open>What the connections of a host look like beside those of an earlier one.\<close>

definition leaks_only_ping :: "'s drivers \<Rightarrow> ('r, 's) host \<Rightarrow> ('r, 's) host \<Rightarrow> bool" where
  "leaks_only_ping V h h' =
    (ho_pools h' = ho_pools h
     \<and> (ho_clients h' = ho_clients h \<or> dr_rd_ping V \<noteq> None \<and> (\<exists>o1. ho_clients h' = o1 # ho_clients h)))"

lemma worker_New_cases:
  assumes "worker_New chan_max R V c reg h = (r, h')"
  shows "case r of
      StartFailed e \<Rightarrow> leaks_only_ping V h h'
    | StartPanicked \<Rightarrow> cf_BatchWrites c \<and> (wrap64 (cf_BatchMaxSize c * 2) < 0 \<or> chan_max < wrap64 (cf_BatchMaxSize c * 2))
    | Started w \<Rightarrow> ho_pools h' = to_int32 (cf_DBMaxConns c) # ho_pools h \<and> length (ho_clients h') = Suc (length (ho_clients h))
        \<and> up_to_date (dr_files V) (ho_pg h') \<and> worker_parts chan_max c reg (queue_New (cf_KeyPrefix c) (cf_Queue c)) = Some w"
proof -
  obtain r1 h1 where o1: "store_Open V (cf_DatabaseURL c) (cf_DBMaxConns c) h = (r1, h1)" by fastforce
  note e1 = store_Open_result [OF o1]
  obtain r2 h2 where o2: "store_Migrate V h1 = (r2, h2)" by fastforce
  from store_Migrate_result [OF o2] obtain g where
    e2: "h2 = h1\<lparr>ho_pg := g\<rparr>" "r2 = Inr () \<longrightarrow> up_to_date (dr_files V) g" by blast
  obtain r3 h3 where o3: "queue_open V (cf_RedisAddr c) (cf_RedisPoolSize c) (cf_KeyPrefix c) (cf_Queue c) h2 = (r3, h3)"
    by fastforce
  from queue_open_result [OF o3] obtain os where e3: "h3 = h2\<lparr>ho_clients := os @ ho_clients h2\<rparr>"
    "case r3 of Inl _ \<Rightarrow> os = [] \<or> dr_rd_ping V \<noteq> None \<and> (\<exists>o1. os = [o1])
       | Inr q \<Rightarrow> (\<exists>o1. os = [o1] \<and> (0 < cf_RedisPoolSize c \<longrightarrow> ro_PoolSize o1 = cf_RedisPoolSize c))
           \<and> q = queue_New (cf_KeyPrefix c) (cf_Queue c)" by blast
  obtain r4 h4 where o4: "host_EnsureGroup R (queue_New (cf_KeyPrefix c) (cf_Queue c)) h3 = (r4, h4)" by fastforce
  from host_EnsureGroup_result [OF o4] obtain w where e4: "h4 = h3\<lparr>ho_world := w\<rparr>" by blast
  show ?thesis using assms o1 o2 o3 o4 e1 e2 e3 e4
    by (auto simp: worker_New_def leaks_only_ping_def close_pool_def close_client_def worker_parts_def NewBatcher_def make_chan_def
        split: sum.splits option.splits if_splits)
qed

lemma worker_parts_Some:
  assumes "worker_parts chan_max c reg q = Some w"
  shows "wk_queue w = q \<and> wk_runner w = worker_runner c reg \<and> wk_pool w = worker_pool_new c
    \<and> wk_batcher w = (if cf_BatchWrites c then NewBatcher chan_max (cf_BatchMaxSize c) (cf_BatchInterval c) else None)
    \<and> \<not> (cf_BatchWrites c \<and> (wrap64 (cf_BatchMaxSize c * 2) < 0 \<or> chan_max < wrap64 (cf_BatchMaxSize c * 2)))"
  using assms by (auto simp: worker_parts_def NewBatcher_def make_chan_def split: if_splits)

text \<open>A batch size of \<open>2 ^ 62\<close> passes the loader's checks, and its double wraps to \<open>- (2 ^ 63)\<close>.\<close>

lemma batch_size_wraps: "wrap64 (2 ^ 62 * 2) = - (2 ^ 63)"
  by (simp add: wrap64_def)

text \<open>
  C26. A worker that starts has everything it needs, and one that does not leaves nothing open. For every environment and
  every outcome of the drivers' calls: when the process does not start, every Postgres pool it opened
  is closed, and every Redis client too unless it is the first ping of that client that failed, where
  \<^verbatim>\<open>queue.New\<close> forgets it; when it starts, its configuration loaded, there is one pool, of the configured
  size cut to 32 bits, and one client more, the schema holds every migration, the parts are those of
  the configuration and so are the services beside them. It panics exactly
  when the writes are batched, everything before went well and twice the batch size, at 64 bits, is negative or
  larger than any channel: such sizes the loader accepts, and a size of \<open>2 ^ 62\<close> is one of them.
\<close>

theorem worker_start_contract:
  "case worker_main chan_max R V env hostname pid h of
     (StartFailed e, h') \<Rightarrow> ho_pools h' = ho_pools h
       \<and> (ho_clients h' = ho_clients h \<or> dr_rd_ping V \<noteq> None \<and> (\<exists>o1. ho_clients h' = o1 # ho_clients h))
   | (StartPanicked, h') \<Rightarrow> (\<exists>c. Load env hostname pid = Inr c \<and> cf_BatchWrites c
       \<and> (wrap64 (cf_BatchMaxSize c * 2) < 0 \<or> chan_max < wrap64 (cf_BatchMaxSize c * 2)))
   | (Started (w, svcs), h') \<Rightarrow> (\<exists>c reg. Load env hostname pid = Inr c \<and> builtin_registry = Some reg
       \<and> ho_pools h' = to_int32 (cf_DBMaxConns c) # ho_pools h
       \<and> length (ho_clients h') = Suc (length (ho_clients h)) \<and> up_to_date (dr_files V) (ho_pg h')
       \<and> \<not> (cf_BatchWrites c \<and> (wrap64 (cf_BatchMaxSize c * 2) < 0 \<or> chan_max < wrap64 (cf_BatchMaxSize c * 2)))
       \<and> wk_queue w = queue_New (cf_KeyPrefix c) (cf_Queue c) \<and> wk_runner w = worker_runner c reg \<and> wk_pool w = worker_pool_new c
       \<and> wk_batcher w = (if cf_BatchWrites c then NewBatcher chan_max (cf_BatchMaxSize c) (cf_BatchInterval c) else None)
       \<and> svcs = worker_services c reg)"
proof (cases "Load env hostname pid")
  case (Inr c)
  obtain reg where reg: "builtin_registry = Some reg" using builtin_registry_eval by blast
  obtain r h' where r: "worker_New chan_max R V c reg h = (r, h')" by fastforce
  from worker_New_cases [OF r] show ?thesis
    by (cases r) (auto simp: worker_main_def Inr reg r leaks_only_ping_def dest!: worker_parts_Some)
qed (simp add: worker_main_def)

end
