(* ===== verification/Shutdown.thy ===== *)
theory Shutdown
  imports Boot
begin

text \<open>
  The API process, \<^verbatim>\<open>run\<close> of \<^verbatim>\<open>cmd/calligraphy-api/main.go\<close>: its start, and its life as a transition system of
  the main goroutine, the requests in flight, the workers' streams, the leader and the signal, up to
  the last closed connection.
\<close>

section \<open>The start\<close>

definition api_server :: "(string \<Rightarrow> string) \<Rightarrow> config \<Rightarrow> registry \<Rightarrow> server" where
  "api_server sha256 c reg =
    \<lparr> sv_KnownTypes = registry_Types reg, sv_tokens = NewServer_tokens sha256 (cf_APITokens c),
      sv_MaxPayloadBytes = cf_MaxPayloadBytes c \<rparr>"

text \<open>Where \<^verbatim>\<open>run\<close> is: each constructor is the statement it executes or waits in next.\<close>

datatype api_pc =
    ApiServing        \<comment> \<open>the \<^verbatim>\<open>select\<close> over \<^verbatim>\<open>errCh\<close> and \<^verbatim>\<open>ctx.Done()\<close>\<close>
  | ApiShutdown       \<comment> \<open>\<^verbatim>\<open>httpSrv.Shutdown\<close>, up to ten seconds\<close>
  | ApiStopControl    \<comment> \<open>\<^verbatim>\<open>grpcSrv.GracefulStop\<close>, until no stream is open\<close>
  | ApiAwaitLeader    \<comment> \<open>\<^verbatim>\<open><-leaderDone\<close>\<close>
  | ApiCloseQueue     \<comment> \<open>the deferred \<^verbatim>\<open>q.Close\<close>\<close>
  | ApiCloseStore     \<comment> \<open>the deferred \<^verbatim>\<open>st.Close\<close>\<close>
  | ApiReturned

text \<open>
  \<open>ap_requests\<close> and \<open>ap_streams\<close> count the requests in flight and the open streams of workers; \<open>ap_leader\<close> is
  the state of the leader's loop while it runs; \<open>ap_late\<close>: \<^verbatim>\<open>Shutdown\<close> gave up waiting; \<open>ap_result\<close> is what
  \<^verbatim>\<open>run\<close> returns, once that is decided.
\<close>

record ('r, 's) api_process =
  ap_pc :: api_pc
  ap_queue :: queue
  ap_server :: server
  ap_lead :: leader
  ap_leader :: "leader_state option"
  ap_signalled :: bool
  ap_requests :: nat
  ap_streams :: nat
  ap_late :: bool
  ap_result :: "unit res option"
  ap_host :: "('r, 's) host"

text \<open>
  Up to the \<^verbatim>\<open>select\<close>. A return before it runs the deferred calls that were reached, the last one first;
  \<open>listen\<close> is the outcome of \<^verbatim>\<open>net.Listen\<close> for the control plane.
\<close>

definition api_serving ::
  "(string \<Rightarrow> string) \<Rightarrow> config \<Rightarrow> string \<Rightarrow> int \<Rightarrow> registry \<Rightarrow> queue \<Rightarrow> ('r, 's) host \<Rightarrow> ('r, 's) api_process"
where
  "api_serving sha256 c hostname pid reg q h =
    \<lparr> ap_pc = ApiServing, ap_queue = q, ap_server = api_server sha256 c reg, ap_lead = leader_new c hostname pid,
      ap_leader = Some \<lparr> ls_isLeader = False, ls_n = 0 \<rparr>, ap_signalled = False, ap_requests = 0, ap_streams = 0,
      ap_late = False, ap_result = None, ap_host = h \<rparr>"

definition api_start ::
  "'r redis \<Rightarrow> 's drivers \<Rightarrow> (string \<Rightarrow> string) \<Rightarrow> (string \<Rightarrow> error) \<Rightarrow> environ \<Rightarrow> string \<Rightarrow> int \<Rightarrow> ('r, 's) host \<Rightarrow>
    ('r, 's) api_process started \<times> ('r, 's) host"
where
  "api_start R V sha256 listen env hostname pid h =
    (case Load env hostname pid of
       Inl msg \<Rightarrow> (StartFailed (Errorf msg), h)
     | Inr c \<Rightarrow>
    (case store_Open V (cf_DatabaseURL c) (cf_DBMaxConns c) h of
       (Inl e, h) \<Rightarrow> (StartFailed e, h)
     | (Inr _, h) \<Rightarrow>
    (case store_Migrate V h of
       (Inl e, h) \<Rightarrow> (StartFailed e, close_pool h)
     | (Inr _, h) \<Rightarrow>
    (case queue_open V (cf_RedisAddr c) (cf_RedisPoolSize c) (cf_KeyPrefix c) (cf_Queue c) h of
       (Inl e, h) \<Rightarrow> (StartFailed e, close_pool h)
     | (Inr q, h) \<Rightarrow>
    (case host_EnsureGroup R q h of
       (Inl e, h) \<Rightarrow> (StartFailed e, close_pool (close_client h))
     | (Inr _, h) \<Rightarrow>
    (case listen (cf_GRPCAddr c) of
       Some e \<Rightarrow> (StartFailed (ErrorfW ''grpc listen: '' e), close_pool (close_client h))
     | None \<Rightarrow>
    (case builtin_registry of
       None \<Rightarrow> (StartPanicked, h)
     | Some reg \<Rightarrow> (Started (api_serving sha256 c hostname pid reg q h), h))))))))"

section \<open>The steps\<close>

text \<open>
  The main goroutine. \<^verbatim>\<open>Shutdown\<close> returns when no request is in flight or after ten seconds;
  \<^verbatim>\<open>GracefulStop\<close> returns when no stream is open, however long that takes. When the listener fails,
  \<^verbatim>\<open>run\<close> returns at once: only the deferred calls are left.
\<close>

inductive api_main :: "('r, 's) api_process \<Rightarrow> ('r, 's) api_process \<Rightarrow> bool" where
  listen_fails: "ap_pc p = ApiServing \<Longrightarrow> api_main p (p\<lparr>ap_pc := ApiCloseQueue, ap_result := Some (Inl e)\<rparr>)"
| ctx_done: "ap_pc p = ApiServing \<Longrightarrow> ap_signalled p \<Longrightarrow> api_main p (p\<lparr>ap_pc := ApiShutdown\<rparr>)"
| requests_done: "ap_pc p = ApiShutdown \<Longrightarrow> ap_requests p = 0 \<Longrightarrow> api_main p (p\<lparr>ap_pc := ApiStopControl\<rparr>)"
| shutdown_timeout: "ap_pc p = ApiShutdown \<Longrightarrow> api_main p (p\<lparr>ap_pc := ApiStopControl, ap_late := True\<rparr>)"
| streams_done: "ap_pc p = ApiStopControl \<Longrightarrow> ap_streams p = 0 \<Longrightarrow> api_main p (p\<lparr>ap_pc := ApiAwaitLeader\<rparr>)"
| leader_done: "ap_pc p = ApiAwaitLeader \<Longrightarrow> ap_leader p = None \<Longrightarrow>
    api_main p (p\<lparr>ap_pc := ApiCloseQueue, ap_result := Some (Inr ())\<rparr>)"
| queue_closes: "ap_pc p = ApiCloseQueue \<Longrightarrow> api_main p (p\<lparr>ap_pc := ApiCloseStore, ap_host := close_client (ap_host p)\<rparr>)"
| store_closes: "ap_pc p = ApiCloseStore \<Longrightarrow> api_main p (p\<lparr>ap_pc := ApiReturned, ap_host := close_pool (ap_host p)\<rparr>)"

text \<open>
  The loop of the leader: a tick, a renewal, or the end when the context is done. A leader that still runs
  when its client is closed goes on with calls that fail, or that reach Postgres only (the step \<open>change\<close> below).
\<close>

definition queue_is_open :: "('r, 's) api_process \<Rightarrow> bool" where
  "queue_is_open p = (ap_pc p \<notin> {ApiCloseStore, ApiReturned})"

inductive api_lead :: "'r redis \<Rightarrow> codec \<Rightarrow> ('r, 's) api_process \<Rightarrow> ('r, 's) api_process \<Rightarrow> bool" for R C where
  ticks: "ap_leader p = Some st \<Longrightarrow> queue_is_open p \<Longrightarrow>
    run_state (leader_tick R C (ap_queue p) (ap_lead p) st) (ho_world (ap_host p)) = (st', w) \<Longrightarrow>
    api_lead R C p (p\<lparr>ap_leader := Some st', ap_host := (ap_host p)\<lparr>ho_world := w\<rparr>\<rparr>)"
| renews: "ap_leader p = Some st \<Longrightarrow> queue_is_open p \<Longrightarrow>
    run_state (leader_renew R (ap_queue p) (ap_lead p) st) (ho_world (ap_host p)) = (st', w) \<Longrightarrow>
    api_lead R C p (p\<lparr>ap_leader := Some st', ap_host := (ap_host p)\<lparr>ho_world := w\<rparr>\<rparr>)"
| stops: "ap_leader p = Some st \<Longrightarrow> queue_is_open p \<Longrightarrow> ap_signalled p \<Longrightarrow>
    run_state (leader_stop R (ap_queue p) (ap_lead p) st) (ho_world (ap_host p)) = (u, w) \<Longrightarrow>
    api_lead R C p (p\<lparr>ap_leader := None, ap_host := (ap_host p)\<lparr>ho_world := w\<rparr>\<rparr>)"
| adrift: "ap_leader p = Some st \<Longrightarrow> \<not> queue_is_open p \<Longrightarrow> (ap_signalled p \<or> st' \<noteq> None) \<Longrightarrow>
    api_lead R C p (p\<lparr>ap_leader := st'\<rparr>)"

text \<open>
  Outside: the signal; requests, which begin as long as \<^verbatim>\<open>Shutdown\<close> has not been called; streams of
  workers, which open as long as \<^verbatim>\<open>GracefulStop\<close> has not; and whatever the handlers and the other
  processes do to Postgres and Redis.
\<close>

definition http_open :: "('r, 's) api_process \<Rightarrow> bool" where
  "http_open p = (ap_pc p = ApiServing \<or> (\<exists>e. ap_result p = Some (Inl e)))"

definition grpc_open :: "('r, 's) api_process \<Rightarrow> bool" where
  "grpc_open p = (http_open p \<or> ap_pc p = ApiShutdown)"

inductive api_outside :: "('r, 's) api_process \<Rightarrow> ('r, 's) api_process \<Rightarrow> bool" where
  signal: "api_outside p (p\<lparr>ap_signalled := True\<rparr>)"
| request: "http_open p \<Longrightarrow> api_outside p (p\<lparr>ap_requests := Suc (ap_requests p)\<rparr>)"
| response: "ap_requests p = Suc n \<Longrightarrow> api_outside p (p\<lparr>ap_requests := n\<rparr>)"
| connect: "grpc_open p \<Longrightarrow> api_outside p (p\<lparr>ap_streams := Suc (ap_streams p)\<rparr>)"
| disconnect: "ap_streams p = Suc n \<Longrightarrow> api_outside p (p\<lparr>ap_streams := n\<rparr>)"
| change: "api_outside p (p\<lparr>ap_host := (ap_host p)\<lparr>ho_world := w\<rparr>\<rparr>)"

definition api_step :: "'r redis \<Rightarrow> codec \<Rightarrow> ('r, 's) api_process \<Rightarrow> ('r, 's) api_process \<Rightarrow> bool" where
  "api_step R C p p' = (api_main p p' \<or> api_lead R C p p' \<or> api_outside p p')"

abbreviation api_run :: "'r redis \<Rightarrow> codec \<Rightarrow> ('r, 's) api_process \<Rightarrow> ('r, 's) api_process \<Rightarrow> bool" where
  "api_run R C \<equiv> (api_step R C)\<^sup>*\<^sup>*"

section \<open>The invariant\<close>

text \<open>The connections of a process that has started on the host \<open>h\<close>, by where it is.\<close>

definition connections_ok :: "('r, 's) host \<Rightarrow> int \<Rightarrow> redis_options \<Rightarrow> ('r, 's) api_process \<Rightarrow> bool" where
  "connections_ok h n o1 p =
    (ho_pools (ap_host p) = (if ap_pc p = ApiReturned then [] else [n]) @ ho_pools h
     \<and> ho_clients (ap_host p) = (if ap_pc p \<in> {ApiCloseStore, ApiReturned} then [] else [o1]) @ ho_clients h)"

text \<open>What has ended by where the process is, unless its listener failed.\<close>

definition shutdown_ok :: "('r, 's) api_process \<Rightarrow> bool" where
  "shutdown_ok p =
    ((ap_pc p \<in> {ApiServing, ApiShutdown, ApiStopControl, ApiAwaitLeader} \<longleftrightarrow> ap_result p = None)
     \<and> (ap_pc p = ApiServing \<or> ap_signalled p \<or> (\<exists>e. ap_result p = Some (Inl e)))
     \<and> (ap_pc p \<in> {ApiServing, ApiShutdown} \<or> (\<exists>e. ap_result p = Some (Inl e)) \<or> ap_requests p = 0 \<or> ap_late p)
     \<and> (ap_pc p = ApiAwaitLeader \<or> ap_result p = Some (Inr ()) \<longrightarrow> ap_streams p = 0)
     \<and> (ap_result p = Some (Inr ()) \<longrightarrow> ap_leader p = None)
     \<and> (ap_leader p = None \<longrightarrow> ap_signalled p))"

lemma api_step_connections:
  assumes "api_step R C p p'" and "connections_ok h n o1 p"
  shows "connections_ok h n o1 p'"
proof -
  have "api_main p p' \<Longrightarrow> ?thesis"
    by (erule api_main.cases) (use assms(2) in \<open>simp_all add: connections_ok_def close_client_def close_pool_def\<close>)
  moreover have "api_lead R C p p' \<Longrightarrow> ?thesis"
    by (erule api_lead.cases) (use assms(2) in \<open>simp_all add: connections_ok_def\<close>)
  moreover have "api_outside p p' \<Longrightarrow> ?thesis"
    by (erule api_outside.cases) (use assms(2) in \<open>simp_all add: connections_ok_def\<close>)
  ultimately show ?thesis using assms(1) unfolding api_step_def by blast
qed

lemma api_step_shutdown:
  assumes "api_step R C p p'" and "shutdown_ok p"
  shows "shutdown_ok p'"
proof -
  have "api_main p p' \<Longrightarrow> ?thesis"
    by (erule api_main.cases) (use assms(2) in \<open>simp_all add: shutdown_ok_def, auto\<close>)
  moreover have "api_lead R C p p' \<Longrightarrow> ?thesis"
    by (erule api_lead.cases) (use assms(2) in \<open>simp_all add: shutdown_ok_def queue_is_open_def, auto\<close>)
  moreover have ?thesis if "api_outside p p'"
    using that assms(2)
    by (cases rule: api_outside.cases)
      (simp_all add: shutdown_ok_def http_open_def grpc_open_def, (cases "ap_pc p"; auto)+)
  ultimately show ?thesis using assms(1) unfolding api_step_def by blast
qed

lemma api_run_ok:
  assumes "api_run R C p p'" and "connections_ok h n o1 p" and "shutdown_ok p"
  shows "connections_ok h n o1 p' \<and> shutdown_ok p'"
  using assms by (induction rule: rtranclp_induct) (auto dest: api_step_connections api_step_shutdown)

lemma api_start_ok:
  assumes "api_start R V sha256 listen env hostname pid h = (r, h')"
  shows "case r of
      StartFailed e \<Rightarrow> leaks_only_ping V h h'
    | StartPanicked \<Rightarrow> False
    | Started p \<Rightarrow> (\<exists>c o1. Load env hostname pid = Inr c \<and> connections_ok h (to_int32 (cf_DBMaxConns c)) o1 p)
        \<and> shutdown_ok p \<and> up_to_date (dr_files V) (ho_pg (ap_host p))"
proof (cases "Load env hostname pid")
  case (Inr c)
  obtain reg where reg: "builtin_registry = Some reg" using builtin_registry_eval by blast
  obtain r1 h1 where o1: "store_Open V (cf_DatabaseURL c) (cf_DBMaxConns c) h = (r1, h1)" by fastforce
  note e1 = store_Open_result [OF o1]
  obtain r2 h2 where o2: "store_Migrate V h1 = (r2, h2)" by fastforce
  from store_Migrate_result [OF o2] obtain g where
    e2: "h2 = h1\<lparr>ho_pg := g\<rparr>" "r2 = Inr () \<longrightarrow> up_to_date (dr_files V) g" by blast
  obtain r3 h3 where o3: "queue_open V (cf_RedisAddr c) (cf_RedisPoolSize c) (cf_KeyPrefix c) (cf_Queue c) h2 = (r3, h3)"
    by fastforce
  from queue_open_result [OF o3] obtain os where e3: "h3 = h2\<lparr>ho_clients := os @ ho_clients h2\<rparr>"
    "case r3 of Inl _ \<Rightarrow> os = [] \<or> dr_rd_ping V \<noteq> None \<and> (\<exists>o1. os = [o1])
       | Inr q \<Rightarrow> (\<exists>o1. os = [o1] \<and> (0 < cf_RedisPoolSize c \<longrightarrow> ro_PoolSize o1 = cf_RedisPoolSize c))
           \<and> q = queue_New (cf_KeyPrefix c) (cf_Queue c)" by blast
  obtain r4 h4 where o4: "host_EnsureGroup R (queue_New (cf_KeyPrefix c) (cf_Queue c)) h3 = (r4, h4)" by fastforce
  from host_EnsureGroup_result [OF o4] obtain w where e4: "h4 = h3\<lparr>ho_world := w\<rparr>" by blast
  show ?thesis using assms o1 o2 o3 o4 e1 e2 e3 e4
    by (auto simp: api_start_def Inr reg leaks_only_ping_def close_pool_def close_client_def connections_ok_def shutdown_ok_def
        api_serving_def split: sum.splits option.splits)
qed (use assms in \<open>auto simp: api_start_def leaks_only_ping_def\<close>)

section \<open>The end\<close>

definition can_end :: "'r redis \<Rightarrow> codec \<Rightarrow> ('r, 's) api_process \<Rightarrow> bool" where
  "can_end R C p = (\<exists>p'. api_run R C p p' \<and> ap_pc p' = ApiReturned)"

lemma can_end_step: "api_step R C p p' \<Longrightarrow> can_end R C p' \<Longrightarrow> can_end R C p"
  unfolding can_end_def by (meson converse_rtranclp_into_rtranclp)

lemmas can_end_main = can_end_step [unfolded api_step_def, OF disjI1]
lemmas can_end_lead = can_end_step [unfolded api_step_def, OF disjI2, OF disjI1]
lemmas can_end_outside = can_end_step [unfolded api_step_def, OF disjI2, OF disjI2]

lemma can_end_closing:
  assumes "ap_pc p \<in> {ApiCloseQueue, ApiCloseStore, ApiReturned}"
  shows "can_end R C p"
proof -
  have 2: "can_end R C p" if "ap_pc p = ApiReturned" for p unfolding can_end_def using that by blast
  have 1: "can_end R C p" if "ap_pc p = ApiCloseStore" for p by (rule can_end_main [OF store_closes [OF that] 2]) simp
  have "can_end R C p" if "ap_pc p = ApiCloseQueue" by (rule can_end_main [OF queue_closes [OF that] 1]) simp
  with 1 2 assms show ?thesis by blast
qed

lemma can_end_leader:
  assumes "ap_pc p = ApiAwaitLeader" and "ap_signalled p"
  shows "can_end R C p"
proof -
  have d: "can_end R C p" if "ap_pc p = ApiAwaitLeader" "ap_leader p = None" for p
    by (rule can_end_main [OF leader_done [OF that] can_end_closing]) simp
  show ?thesis
  proof (cases "ap_leader p")
    case (Some st)
    have o: "queue_is_open p" by (simp add: queue_is_open_def assms)
    show ?thesis by (rule can_end_lead [OF stops [OF Some o assms(2) prod.collapse [symmetric]] d]) (simp_all add: assms)
  qed (use d assms in blast)
qed

lemma can_end_control:
  assumes "ap_pc p = ApiStopControl" and "ap_signalled p"
  shows "can_end R C p"
  using assms
proof (induction "ap_streams p" arbitrary: p)
  case 0
  show ?case by (rule can_end_main [OF streams_done [OF 0(2)] can_end_leader]) (simp_all add: 0)
next
  case (Suc n)
  show ?case by (rule can_end_outside [OF disconnect [OF Suc(2) [symmetric]] Suc(1)]) (simp_all add: Suc)
qed

lemma can_end_signalled:
  assumes "ap_signalled p"
  shows "can_end R C p"
proof -
  have t: "can_end R C p" if "ap_pc p = ApiShutdown" "ap_signalled p" for p
    by (rule can_end_main [OF shutdown_timeout [OF that(1)] can_end_control]) (simp_all add: that)
  have "can_end R C p" if "ap_pc p = ApiServing"
    by (rule can_end_main [OF ctx_done [OF that assms] t]) (simp_all add: assms)
  with assms t can_end_control can_end_leader can_end_closing show ?thesis by (cases "ap_pc p") blast+
qed

text \<open>A listener that fails ends the process under the leader, which nobody tells to stop.\<close>

lemma listener_failure_leaves_leader:
  assumes "ap_pc p = ApiServing" and "ap_leader p = Some st"
  shows "\<exists>p'. api_run R C p p' \<and> ap_pc p' = ApiReturned \<and> ap_result p' = Some (Inl e) \<and> ap_leader p' = Some st"
proof -
  let ?p1 = "p\<lparr>ap_pc := ApiCloseQueue, ap_result := Some (Inl e)\<rparr>"
  let ?p2 = "?p1\<lparr>ap_pc := ApiCloseStore, ap_host := close_client (ap_host ?p1)\<rparr>"
  let ?p3 = "?p2\<lparr>ap_pc := ApiReturned, ap_host := close_pool (ap_host ?p2)\<rparr>"
  have "api_step R C p ?p1" "api_step R C ?p1 ?p2" "api_step R C ?p2 ?p3"
    unfolding api_step_def using listen_fails [OF assms(1)] queue_closes [of ?p1] store_closes [of ?p2] by simp_all
  then have "api_run R C p ?p3" by (meson rtranclp.rtrancl_into_rtrancl rtranclp.rtrancl_refl)
  then show ?thesis using assms(2) by (intro exI [of _ ?p3]) simp
qed

text \<open>
  C27. The API process goes down in order. However a start goes, it leaves no Postgres pool and no Redis client open but one whose first
  ping failed, and it never panics. A process that has started keeps serving until a signal or the failure of its
  HTTP listener; its store is open as long as its queue is, and both are closed when \<^verbatim>\<open>run\<close> has returned. When it
  goes down because of a signal, the queue and the store are closed only after the last stream of a worker
  has ended and the leader has stopped, and after the last request, unless \<^verbatim>\<open>Shutdown\<close> gave up on
  requests after its ten seconds. From every state after the signal the return can be reached, but not
  while a worker's stream is open: \<^verbatim>\<open>GracefulStop\<close> has no bound, and there is no step past it.
\<close>

theorem api_goes_down_in_order:
  "case api_start R V sha listen env hostname pid h of
     (StartFailed e, h') \<Rightarrow> ho_pools h' = ho_pools h
       \<and> (ho_clients h' = ho_clients h \<or> dr_rd_ping V \<noteq> None \<and> (\<exists>o1. ho_clients h' = o1 # ho_clients h))
   | (StartPanicked, h') \<Rightarrow> False
   | (Started p0, h') \<Rightarrow> (\<exists>c o1. Load env hostname pid = Inr c \<and> (\<forall>p. api_run R C p0 p \<longrightarrow>
       ho_pools (ap_host p) = (if ap_pc p = ApiReturned then [] else [to_int32 (cf_DBMaxConns c)]) @ ho_pools h
       \<and> ho_clients (ap_host p) = (if ap_pc p \<in> {ApiCloseStore, ApiReturned} then [] else [o1]) @ ho_clients h
       \<and> (ap_pc p = ApiServing \<or> ap_signalled p \<or> (\<exists>e. ap_result p = Some (Inl e)))
       \<and> (ap_pc p \<in> {ApiCloseQueue, ApiCloseStore, ApiReturned} \<longleftrightarrow> ap_result p \<noteq> None)
       \<and> (ap_result p = Some (Inr ()) \<longrightarrow>
           ap_signalled p \<and> ap_streams p = 0 \<and> ap_leader p = None \<and> (ap_requests p = 0 \<or> ap_late p))
       \<and> (ap_signalled p \<longrightarrow> (\<exists>p'. api_run R C p p' \<and> ap_pc p' = ApiReturned))
       \<and> (ap_pc p = ApiStopControl \<and> 0 < ap_streams p \<longrightarrow> (\<forall>p'. \<not> api_main p p'))))"
  (is "case _ of (StartFailed e, h') \<Rightarrow> _ h' | (StartPanicked, h') \<Rightarrow> _ | (Started p0, h') \<Rightarrow> (\<exists>c o1. _ c \<and> (\<forall>p. _ p0 p \<longrightarrow> ?down c o1 p0 p))")
proof -
  obtain r h' where r: "api_start R V sha listen env hostname pid h = (r, h')" by fastforce
  show ?thesis
  proof (cases r)
    case (Started p0)
    with api_start_ok [OF r] obtain c o1 where c: "Load env hostname pid = Inr c"
      and ok: "connections_ok h (to_int32 (cf_DBMaxConns c)) o1 p0" "shutdown_ok p0" by auto
    have "?down c o1 p0 p" if run: "api_run R C p0 p" for p
    proof (intro conjI impI allI)
      have c: "connections_ok h (to_int32 (cf_DBMaxConns c)) o1 p" and s: "shutdown_ok p" using api_run_ok [OF run ok] by blast+
      show "ho_pools (ap_host p) = (if ap_pc p = ApiReturned then [] else [to_int32 (cf_DBMaxConns c)]) @ ho_pools h"
        "ho_clients (ap_host p) = (if ap_pc p \<in> {ApiCloseStore, ApiReturned} then [] else [o1]) @ ho_clients h"
        using c by (simp_all add: connections_ok_def)
      show "ap_pc p = ApiServing \<or> ap_signalled p \<or> (\<exists>e. ap_result p = Some (Inl e))" using s by (simp add: shutdown_ok_def)
      show "ap_pc p \<in> {ApiCloseQueue, ApiCloseStore, ApiReturned} \<longleftrightarrow> ap_result p \<noteq> None"
        using s by (cases "ap_pc p") (simp_all add: shutdown_ok_def)
      show "ap_signalled p" "ap_streams p = 0" "ap_leader p = None" "ap_requests p = 0 \<or> ap_late p" if "ap_result p = Some (Inr ())"
        using s that by (auto simp: shutdown_ok_def)
      show "\<exists>p'. api_run R C p p' \<and> ap_pc p' = ApiReturned" if "ap_signalled p"
        using can_end_signalled [OF that] by (simp add: can_end_def)
      show "\<not> api_main p p'" if "ap_pc p = ApiStopControl \<and> 0 < ap_streams p" for p'
        using that by (auto elim!: api_main.cases)
    qed
    with c show ?thesis by (simp only: r Started prod.case started.case) blast
  qed (use api_start_ok [OF r] in \<open>simp_all add: r leaks_only_ping_def\<close>)
qed

section \<open>Example\<close>

definition demo_drivers :: "string list drivers" where
  "demo_drivers =
    \<lparr> dr_parse_dsn = \<lambda>_. None, dr_connect = \<lambda>_. None, dr_pg_ping = None,
      dr_parse_url = \<lambda>u. Inr \<lparr> ro_Addr = u, ro_PoolSize = 0 \<rparr>, dr_rd_ping = None, dr_run_sql = demo_sql,
      dr_files = [(''2'', ''B'')], dr_migrate = calm_migration \<rparr>"

definition demo_host :: "(mem, string list) host" where
  "demo_host = \<lparr> ho_pools = [], ho_clients = [], ho_pg = \<lparr>g_schema = [], g_versions = None\<rparr>, ho_world = demo_world \<rparr>"

lemma demo_EnsureGroup: "fst (run_state (EnsureGroup redis_mem q) demo_world) = Inr ()"
  by (simp add: EnsureGroup_def PriorityOrder_def prog_eval demo_world_def)

lemma demo_api_start:
  "\<exists>p h'. api_start redis_mem demo_drivers id (\<lambda>_. None) demo_environ [] 7 demo_host = (Started p, h')"
proof -
  obtain c where c: "Load demo_environ [] 7 = Inr c" using demo_Load by blast
  obtain reg where reg: "builtin_registry = Some reg" using builtin_registry_eval by blast
  have m: "fst (Migrate demo_sql calm_migration [(''2'', ''B'')] \<lparr>g_schema = [], g_versions = None\<rparr>) = Inr ()"
    by (simp add: Migrate_def migrate_tx_def calm_migration_def demo_sorted apply_file_def ReadFile_def
        insert_version_def ensure_versions_def versions_def demo_sql_def)
  define h1 where "h1 = demo_host\<lparr>ho_pools := [to_int32 (cf_DBMaxConns c)]\<rparr>"
  have s1: "store_Open demo_drivers (cf_DatabaseURL c) (cf_DBMaxConns c) demo_host = (Inr (), h1)"
    by (simp add: store_Open_def demo_drivers_def demo_host_def h1_def Let_def)
  have "ho_pg h1 = \<lparr>g_schema = [], g_versions = None\<rparr>" by (simp add: h1_def demo_host_def)
  moreover obtain g where "Migrate demo_sql calm_migration [(''2'', ''B'')] \<lparr>g_schema = [], g_versions = None\<rparr> = (Inr (), g)"
    using m by (metis prod.collapse)
  ultimately have s2: "store_Migrate demo_drivers h1 = (Inr (), h1\<lparr>ho_pg := g\<rparr>)"
    by (simp add: store_Migrate_def demo_drivers_def)
  obtain o1 where "redis_opts demo_drivers (cf_RedisAddr c) (cf_RedisPoolSize c) = Inr o1"
    by (simp add: redis_opts_def demo_drivers_def)
  moreover have "dr_rd_ping demo_drivers = None" by (simp add: demo_drivers_def)
  ultimately obtain h3 where s3: "queue_open demo_drivers (cf_RedisAddr c) (cf_RedisPoolSize c) (cf_KeyPrefix c) (cf_Queue c) (h1\<lparr>ho_pg := g\<rparr>)
      = (Inr (queue_New (cf_KeyPrefix c) (cf_Queue c)), h3)" "ho_world h3 = demo_world"
    by (simp add: queue_open_def Let_def h1_def demo_host_def)
  have "\<exists>h4. host_EnsureGroup redis_mem q h3 = (Inr (), h4)" for q
    using demo_EnsureGroup [of q] s3(2) by (auto simp: host_EnsureGroup_def split: prod.splits)
  then obtain h4 where s4: "host_EnsureGroup redis_mem (queue_New (cf_KeyPrefix c) (cf_Queue c)) h3 = (Inr (), h4)" by blast
  show ?thesis by (simp add: api_start_def c reg s1 s2 s3 s4)
qed

theorem api_goes_down_in_order_witness:
  "\<exists>p0 h' p. api_start redis_mem demo_drivers id (\<lambda>_. None) demo_environ [] 7 demo_host = (Started p0, h')
    \<and> api_run redis_mem frame_codec p0 p \<and> ap_pc p = ApiReturned \<and> ho_pools (ap_host p) = [] \<and> ho_clients (ap_host p) = []"
proof -
  obtain p0 h' where s: "api_start redis_mem demo_drivers id (\<lambda>_. None) demo_environ [] 7 demo_host = (Started p0, h')"
    using demo_api_start by blast
  note down = api_goes_down_in_order [where R = redis_mem and V = demo_drivers and sha = id and listen = "\<lambda>_. None"
      and env = demo_environ and hostname = "[]" and pid = 7 and h = demo_host and C = frame_codec,
      unfolded s prod.case started.case]
  have "api_step redis_mem frame_codec p0 (p0\<lparr>ap_signalled := True\<rparr>)" by (simp add: api_step_def signal)
  then have r1: "api_run redis_mem frame_codec p0 (p0\<lparr>ap_signalled := True\<rparr>)" by blast
  have "ap_signalled (p0\<lparr>ap_signalled := True\<rparr>)" by simp
  with down r1 obtain p where p: "api_run redis_mem frame_codec (p0\<lparr>ap_signalled := True\<rparr>) p" "ap_pc p = ApiReturned" by blast
  have r: "api_run redis_mem frame_codec p0 p" using r1 p(1) by (rule rtranclp_trans)
  with down p(2) have "ho_pools (ap_host p) = [] @ ho_pools demo_host" "ho_clients (ap_host p) = [] @ ho_clients demo_host" by auto
  with s r p(2) show ?thesis by (auto simp: demo_host_def)
qed

end
