(* ===== verification/Lifecycle.thy ===== *)
theory Lifecycle
  imports Boot
begin

text \<open>
  The life of a worker process, \<^verbatim>\<open>Worker.Run\<close> of \<^verbatim>\<open>internal/worker/worker.go\<close>: the main goroutine, the pool's
  loop, the jobs, the heartbeat and the batcher as one transition system, from the start to the last
  closed connection. The two waits that have a deadline may end either way.
\<close>

section \<open>The state\<close>

text \<open>Where \<^verbatim>\<open>Run\<close> is: each constructor is the statement it executes or waits in next.\<close>

datatype run_pc =
    Serving      \<comment> \<open>\<^verbatim>\<open><-ctx.Done()\<close>\<close>
  | Draining     \<comment> \<open>the first \<^verbatim>\<open>select\<close>, up to \<^verbatim>\<open>DrainTimeout\<close>\<close>
  | Cancelling   \<comment> \<open>the second \<^verbatim>\<open>select\<close>, up to ten seconds\<close>
  | StoppingHB   \<comment> \<open>\<^verbatim>\<open>stopHB(); <-hbDone\<close>\<close>
  | StoppingBatcher
  | FinalBeat
  | ClosingQueue
  | ClosingStore
  | RunReturned

text \<open>
  \<open>wp_looping\<close>: the pool's fetch loop runs; \<open>wp_fetch\<close>: what its fetch under way asked for; \<open>wp_jobs\<close>: the jobs in
  flight; \<open>wp_sent\<close>: the operations the batcher accepted; \<open>wp_row\<close>: the state in the worker's row;
  \<open>wp_abandoned\<close>: the second wait ran out.
\<close>

record process =
  wp_pc :: run_pc
  wp_pool :: pool
  wp_looping :: bool
  wp_fetch :: "int option"
  wp_jobs :: "delivery list"
  wp_batcher :: "batcher option"
  wp_sent :: "op list"
  wp_beating :: bool
  wp_fetchCtx_done :: bool
  wp_jobCtx_done :: bool
  wp_row :: "string option"
  wp_queue_open :: bool
  wp_store_open :: bool
  wp_abandoned :: bool

text \<open>The state when the goroutines of \<^verbatim>\<open>Run\<close> have been started.\<close>

definition worker_Run_start :: "worker \<Rightarrow> process" where
  "worker_Run_start w =
    \<lparr> wp_pc = Serving, wp_pool = wk_pool w, wp_looping = True, wp_fetch = None, wp_jobs = [],
      wp_batcher = wk_batcher w, wp_sent = [], wp_beating = True, wp_fetchCtx_done = False, wp_jobCtx_done = False,
      wp_row = None, wp_queue_open = True, wp_store_open = True, wp_abandoned = False \<rparr>"

text \<open>\<^verbatim>\<open>poolDone\<close>: the loop has ended and \<^verbatim>\<open>wg.Wait\<close> has returned.\<close>

definition poolDone :: "process \<Rightarrow> bool" where
  "poolDone s = (\<not> wp_looping s \<and> wp_jobs s = [])"

definition hbCtx_done :: "process \<Rightarrow> bool" where
  "hbCtx_done s = (wp_pc s \<notin> {Serving, Draining, Cancelling})"

section \<open>The steps\<close>

text \<open>
  The main goroutine. \<open>ok\<close> is whether the last heartbeat's statement went through.
\<close>

inductive main_step :: "process \<Rightarrow> process \<Rightarrow> bool" where
  signal: "wp_pc s = Serving \<Longrightarrow> main_step s (s\<lparr>wp_pc := Draining, wp_fetchCtx_done := True\<rparr>)"
| drained: "wp_pc s = Draining \<Longrightarrow> poolDone s \<Longrightarrow> main_step s (s\<lparr>wp_pc := StoppingHB\<rparr>)"
| drain_timeout: "wp_pc s = Draining \<Longrightarrow> main_step s (s\<lparr>wp_pc := Cancelling, wp_jobCtx_done := True\<rparr>)"
| cancelled: "wp_pc s = Cancelling \<Longrightarrow> poolDone s \<Longrightarrow> main_step s (s\<lparr>wp_pc := StoppingHB\<rparr>)"
| abandon: "wp_pc s = Cancelling \<Longrightarrow> main_step s (s\<lparr>wp_pc := StoppingHB, wp_abandoned := True\<rparr>)"
| hb_stopped: "wp_pc s = StoppingHB \<Longrightarrow> \<not> wp_beating s \<Longrightarrow>
    main_step s (s\<lparr>wp_pc := (case wp_batcher s of None \<Rightarrow> FinalBeat | Some _ \<Rightarrow> StoppingBatcher),
      wp_batcher := map_option (\<lambda>b. b\<lparr>l_stopped := True\<rparr>) (wp_batcher s)\<rparr>)"
| batcher_stopped: "wp_pc s = StoppingBatcher \<Longrightarrow> wp_batcher s = Some b \<Longrightarrow> l_exited b \<Longrightarrow>
    main_step s (s\<lparr>wp_pc := FinalBeat\<rparr>)"
| final_beat: "wp_pc s = FinalBeat \<Longrightarrow>
    main_step s (s\<lparr>wp_pc := ClosingQueue, wp_row := (if ok then Some ''draining'' else wp_row s)\<rparr>)"
| close_queue: "wp_pc s = ClosingQueue \<Longrightarrow> main_step s (s\<lparr>wp_pc := ClosingStore, wp_queue_open := False\<rparr>)"
| close_store: "wp_pc s = ClosingStore \<Longrightarrow> main_step s (s\<lparr>wp_pc := RunReturned, wp_store_open := False\<rparr>)"

text \<open>The goroutines that the drain waits for: the heartbeat and the batcher's loop.\<close>

inductive helper_step :: "process \<Rightarrow> process \<Rightarrow> bool" where
  beat: "wp_beating s \<Longrightarrow> helper_step s (s\<lparr>wp_row := (if ok then Some ''active'' else wp_row s)\<rparr>)"
| beat_exit: "wp_beating s \<Longrightarrow> hbCtx_done s \<Longrightarrow> helper_step s (s\<lparr>wp_beating := False\<rparr>)"
| batch: "wp_batcher s = Some b \<Longrightarrow> bstep b [] b' \<Longrightarrow> l_stopped b' = l_stopped b \<Longrightarrow>
    helper_step s (s\<lparr>wp_batcher := Some b'\<rparr>)"

text \<open>The pool and its jobs. A fetch that has begun may still answer after the context has ended.\<close>

inductive pool_step :: "process \<Rightarrow> process \<Rightarrow> bool" where
  fetch: "wp_looping s \<Longrightarrow> \<not> wp_fetchCtx_done s \<Longrightarrow> wp_fetch s = None \<Longrightarrow> pool_ask (wp_pool s) = Some n \<Longrightarrow>
    pool_step s (s\<lparr>wp_fetch := Some n\<rparr>)"
| fetched: "wp_fetch s = Some n \<Longrightarrow> pool_answer ans (wp_fetchCtx_done s) (wp_pool s) = (it, p) \<Longrightarrow>
    pool_step s (s\<lparr>wp_pool := p, wp_fetch := None, wp_looping := (it \<noteq> Breaks),
      wp_jobs := (case it of Dispatches ds \<Rightarrow> ds | _ \<Rightarrow> []) @ wp_jobs s\<rparr>)"
| loop_exit: "wp_looping s \<Longrightarrow> wp_fetchCtx_done s \<Longrightarrow> wp_fetch s = None \<Longrightarrow> pool_step s (s\<lparr>wp_looping := False\<rparr>)"
| job_sends: "d \<in> set (wp_jobs s) \<Longrightarrow> wp_batcher s = Some b \<Longrightarrow> bstep b [p] b' \<Longrightarrow>
    pool_step s (s\<lparr>wp_batcher := Some b', wp_sent := wp_sent s @ [p]\<rparr>)"
| job_done: "d \<in> set (wp_jobs s) \<Longrightarrow>
    pool_step s (s\<lparr>wp_jobs := remove1 d (wp_jobs s), wp_pool := pool_done (wp_pool s)\<rparr>)"
| resize: "pool_step s (s\<lparr>wp_pool := SetTarget n (wp_pool s)\<rparr>)"
| pause: "pool_step s (s\<lparr>wp_pool := SetPaused v (wp_pool s)\<rparr>)"

inductive worker_Run :: "worker \<Rightarrow> process \<Rightarrow> bool" for w where
  run_start: "worker_Run w (worker_Run_start w)"
| run_main: "worker_Run w s \<Longrightarrow> main_step s s' \<Longrightarrow> worker_Run w s'"
| run_helper: "worker_Run w s \<Longrightarrow> helper_step s s' \<Longrightarrow> worker_Run w s'"
| run_pool: "worker_Run w s \<Longrightarrow> pool_step s s' \<Longrightarrow> worker_Run w s'"

section \<open>The invariant\<close>

text \<open>The statements in their order.\<close>

fun stage :: "run_pc \<Rightarrow> nat" where
  "stage Serving = 0"
| "stage Draining = 1"
| "stage Cancelling = 2"
| "stage StoppingHB = 3"
| "stage StoppingBatcher = 4"
| "stage FinalBeat = 5"
| "stage ClosingQueue = 6"
| "stage ClosingStore = 7"
| "stage RunReturned = 8"

lemma hbCtx_done_stage: "hbCtx_done s \<longleftrightarrow> 3 \<le> stage (wp_pc s)"
  by (cases "wp_pc s") (simp_all add: hbCtx_done_def)

text \<open>What has ended by the time \<^verbatim>\<open>Run\<close> is at a statement.\<close>

definition batcher_ok :: "int \<Rightarrow> process \<Rightarrow> bool" where
  "batcher_ok m s =
    (case wp_batcher s of
       None \<Rightarrow> wp_sent s = [] \<and> wp_pc s \<noteq> StoppingBatcher
     | Some b \<Rightarrow> loop_ok m (wp_sent s) b
         \<and> (l_stopped b \<longleftrightarrow> 4 \<le> stage (wp_pc s))
         \<and> (5 \<le> stage (wp_pc s) \<longrightarrow> l_exited b)
         \<and> (l_exited b \<and> \<not> wp_abandoned s \<longrightarrow> l_in b = []))"

definition process_ok :: "int \<Rightarrow> process \<Rightarrow> bool" where
  "process_ok m s =
    ((wp_fetchCtx_done s \<longleftrightarrow> 1 \<le> stage (wp_pc s))
     \<and> (wp_fetch s \<noteq> None \<longrightarrow> wp_looping s)
     \<and> (3 \<le> stage (wp_pc s) \<and> \<not> wp_abandoned s \<longrightarrow> poolDone s)
     \<and> (wp_abandoned s \<longrightarrow> 3 \<le> stage (wp_pc s) \<and> wp_jobCtx_done s)
     \<and> (stage (wp_pc s) < 3 \<longrightarrow> wp_beating s)
     \<and> (4 \<le> stage (wp_pc s) \<longrightarrow> \<not> wp_beating s)
     \<and> (2 = stage (wp_pc s) \<longrightarrow> wp_jobCtx_done s)
     \<and> (wp_queue_open s \<longleftrightarrow> stage (wp_pc s) < 7)
     \<and> (wp_store_open s \<longleftrightarrow> stage (wp_pc s) < 8)
     \<and> batcher_ok m s)"

lemmas process_defs = process_ok_def batcher_ok_def poolDone_def

lemma loop_ok_stop: "loop_ok m ops b \<Longrightarrow> loop_ok m ops (b\<lparr>l_stopped := True\<rparr>)"
  by (auto simp: loop_ok_def)

lemma loop_ok_exited: "loop_ok m ops b \<Longrightarrow> l_exited b \<Longrightarrow> l_stopped b"
  by (auto simp: loop_ok_def)

lemma main_step_ok: "main_step s s' \<Longrightarrow> process_ok m s \<Longrightarrow> process_ok m s'"
proof (induction rule: main_step.induct)
  case (hb_stopped s)
  then show ?case
    by (cases "wp_batcher s") (auto simp: process_defs loop_ok_stop dest: loop_ok_exited)
next
  case (batcher_stopped s b)
  then show ?case by (simp add: process_defs)
qed (simp_all add: process_defs split: option.splits)

lemma bstep_exited: "bstep b new b' \<Longrightarrow> l_exited b' \<Longrightarrow> l_exited b \<or> l_in b' = []"
  by (induction rule: bstep.induct) (auto simp: loop_exit_def loop_flush_def loop_receive_def Let_def split: if_splits)

lemma bstep_exited_in: "bstep b [] b' \<Longrightarrow> l_exited b \<Longrightarrow> l_in b' = l_in b \<and> l_exited b'"
  by (cases rule: bstep.cases) (auto simp: loop_flush_def)

lemma batcher_ok_frame [simp]:
  "batcher_ok m (s\<lparr>wp_row := x\<rparr>) = batcher_ok m s" "batcher_ok m (s\<lparr>wp_beating := b\<rparr>) = batcher_ok m s"
  "batcher_ok m (s\<lparr>wp_pool := p\<rparr>) = batcher_ok m s" "batcher_ok m (s\<lparr>wp_fetch := n\<rparr>) = batcher_ok m s"
  "batcher_ok m (s\<lparr>wp_looping := b\<rparr>) = batcher_ok m s" "batcher_ok m (s\<lparr>wp_jobs := ds\<rparr>) = batcher_ok m s"
  by (simp_all add: batcher_ok_def split: option.splits)

lemma process_ok_batcher:
  "process_ok m s \<Longrightarrow> batcher_ok m (s\<lparr>wp_batcher := B, wp_sent := ops\<rparr>) \<Longrightarrow>
    process_ok m (s\<lparr>wp_batcher := B, wp_sent := ops\<rparr>)"
  by (simp add: process_ok_def poolDone_def)

lemma helper_step_ok: "helper_step s s' \<Longrightarrow> process_ok m s \<Longrightarrow> process_ok m s'"
proof (induction rule: helper_step.induct)
  case (batch s b b')
  then have b: "batcher_ok m s" by (simp add: process_ok_def)
  have "loop_ok m (wp_sent s) b'" using bstep_ok [OF batch.hyps(2), of m "wp_sent s"] b batch.hyps(1) by (simp add: batcher_ok_def)
  moreover have "l_exited b \<longrightarrow> l_exited b'" "l_exited b' \<and> \<not> wp_abandoned s \<longrightarrow> l_in b' = []"
    using bstep_exited [OF batch.hyps(2)] bstep_exited_in [OF batch.hyps(2)] b batch.hyps(1) by (auto simp: batcher_ok_def)
  ultimately have "batcher_ok m (s\<lparr>wp_batcher := Some b', wp_sent := wp_sent s\<rparr>)"
    using b batch.hyps by (simp add: batcher_ok_def)
  from process_ok_batcher [OF batch.prems this] show ?case by simp
qed (simp_all add: process_ok_def poolDone_def hbCtx_done_stage)

lemma pool_answer_Breaks: "pool_answer ans stopped p = (Breaks, p') \<Longrightarrow> stopped"
  by (auto simp: pool_answer_def Let_def split: prod.splits option.splits if_splits)

lemma pool_step_ok: "pool_step s s' \<Longrightarrow> process_ok m s \<Longrightarrow> process_ok m s'"
proof (induction rule: pool_step.induct)
  case (job_sends d s b p b')
  have st: "l_stopped b' = l_stopped b" "l_exited b' = l_exited b"
    using job_sends.hyps(3) by (cases rule: bstep.cases; simp add: loop_receive_def loop_flush_def Let_def)+
  have bo: "batcher_ok m s" and late: "stage (wp_pc s) < 3 \<or> wp_abandoned s"
    using job_sends by (auto simp: process_ok_def poolDone_def)
  then have "l_exited b \<longrightarrow> wp_abandoned s" using job_sends.hyps(2) by (auto simp: batcher_ok_def dest: loop_ok_exited)
  with bo st job_sends.hyps(2) bstep_ok [OF job_sends.hyps(3), of m "wp_sent s"]
  have "batcher_ok m (s\<lparr>wp_batcher := Some b', wp_sent := wp_sent s @ [p]\<rparr>)" by (auto simp: batcher_ok_def)
  from process_ok_batcher [OF job_sends.prems this] show ?case .
next
  case (fetched s n ans it p)
  have "it = Breaks \<longrightarrow> wp_fetchCtx_done s" using fetched.hyps(2) pool_answer_Breaks by blast
  with fetched show ?case by (auto simp: process_ok_def poolDone_def)
qed (auto simp: process_ok_def poolDone_def)

definition batch_size :: "worker \<Rightarrow> int" where
  "batch_size w = (case wk_batcher w of None \<Rightarrow> 1 | Some b \<Rightarrow> l_maxSize b)"

text \<open>A worker as \<^verbatim>\<open>worker.New\<close> builds it, whose batcher's loop starts: the interval is positive, the size not negative.\<close>

definition new_worker :: "worker \<Rightarrow> bool" where
  "new_worker w = (case wk_batcher w of None \<Rightarrow> True | Some b \<Rightarrow> loop_starts b \<and> (\<exists>chan_max m t. NewBatcher chan_max m t = Some b))"

lemma worker_Run_ok: "worker_Run w s \<Longrightarrow> new_worker w \<Longrightarrow> process_ok (batch_size w) s"
proof (induction rule: worker_Run.induct)
  case run_start
  then show ?case
    by (auto simp: worker_Run_start_def process_ok_def batcher_ok_def poolDone_def new_worker_def batch_size_def
        loop_ok_def NewBatcher_def make_chan_def split: option.splits if_splits)
qed (auto intro: main_step_ok helper_step_ok pool_step_ok)

section \<open>The drain\<close>

text \<open>
  C19. A worker drains before it goes away. Whatever the fetches, the jobs, the heartbeats and the batcher do,
  and in whatever order: the heartbeat runs only while the store is open, and so does the batcher's
  loop; as long as the second wait has not run out, jobs run and fetches begin only while the queue
  and the store are open; the queue is closed before the store; and when \<^verbatim>\<open>Run\<close> has returned, both are closed, the heartbeat and the batcher's loop have ended,
  and, unless it abandoned jobs that ignored their cancelled context, no job is left and every
  operation any job handed to the batcher has been flushed, in the order of submission. It abandons
  jobs only after it has cancelled their context.
\<close>

theorem worker_drains:
  assumes "new_worker w" and "worker_Run w s"
  shows "(wp_beating s \<longrightarrow> wp_store_open s \<and> wp_queue_open s)
    \<and> (\<forall>b. wp_batcher s = Some b \<and> \<not> l_exited b \<longrightarrow> wp_store_open s)
    \<and> (\<not> wp_abandoned s \<and> (wp_jobs s \<noteq> [] \<or> wp_looping s) \<longrightarrow> wp_store_open s \<and> wp_queue_open s)
    \<and> (wp_abandoned s \<longrightarrow> wp_jobCtx_done s)
    \<and> (wp_queue_open s \<longrightarrow> wp_store_open s)
    \<and> (wp_pc s = RunReturned \<longrightarrow> \<not> wp_queue_open s \<and> \<not> wp_store_open s \<and> \<not> wp_beating s
        \<and> (\<forall>b. wp_batcher s = Some b \<longrightarrow> l_exited b \<and> concat (l_flushed b) @ l_in b = wp_sent s)
        \<and> (\<not> wp_abandoned s \<longrightarrow> wp_jobs s = [] \<and> \<not> wp_looping s
            \<and> (\<forall>b. wp_batcher s = Some b \<longrightarrow> concat (l_flushed b) = wp_sent s)))"
proof -
  have ok: "process_ok (batch_size w) s" by (rule worker_Run_ok [OF assms(2,1)])
  have st: "stage (wp_pc s) < 8 \<longleftrightarrow> wp_pc s \<noteq> RunReturned" "stage (wp_pc s) \<le> 8" by (cases "wp_pc s"; simp)+
  have flushed: "concat (l_flushed b) @ l_in b = wp_sent s" if "wp_batcher s = Some b" "l_exited b" for b
    using ok that by (auto simp: process_ok_def batcher_ok_def loop_ok_def)
  have exited: "l_exited b" if "wp_batcher s = Some b" "5 \<le> stage (wp_pc s)" for b
    using ok that by (simp add: process_ok_def batcher_ok_def)
  have drained: "l_in b = []" if "wp_batcher s = Some b" "l_exited b" "\<not> wp_abandoned s" for b
    using ok that by (simp add: process_ok_def batcher_ok_def)
  have beating: "wp_beating s \<longrightarrow> stage (wp_pc s) < 4" and opened: "wp_queue_open s \<longleftrightarrow> stage (wp_pc s) < 7"
    "wp_store_open s \<longleftrightarrow> stage (wp_pc s) < 8" and idle: "\<not> wp_abandoned s \<longrightarrow> stage (wp_pc s) < 3 \<or> poolDone s"
    and abandoned: "wp_abandoned s \<longrightarrow> wp_jobCtx_done s"
    using ok by (auto simp: process_ok_def not_le)
  show ?thesis
  proof (intro conjI impI allI)
    fix b assume "wp_batcher s = Some b \<and> \<not> l_exited b"
    then show "wp_store_open s" using exited opened by fastforce
  next
    fix b assume "wp_pc s = RunReturned" "wp_batcher s = Some b"
    then show "l_exited b" "concat (l_flushed b) @ l_in b = wp_sent s" using exited flushed by simp_all
  next
    fix b assume "wp_pc s = RunReturned" "\<not> wp_abandoned s" "wp_batcher s = Some b"
    then show "concat (l_flushed b) = wp_sent s" using exited flushed [of b] drained [of b] by simp
  qed (use beating opened idle abandoned in \<open>auto simp: poolDone_def\<close>)
qed

text \<open>Paths of the main goroutine and the helpers, with the number of the former's steps.\<close>

inductive drain_path :: "nat \<Rightarrow> process \<Rightarrow> process \<Rightarrow> bool" where
  path_nil: "drain_path 0 s s"
| path_main: "main_step s s' \<Longrightarrow> drain_path n s' s'' \<Longrightarrow> drain_path (Suc n) s s''"
| path_helper: "helper_step s s' \<Longrightarrow> drain_path n s' s'' \<Longrightarrow> drain_path n s s''"

definition can_return :: "process \<Rightarrow> bool" where
  "can_return s = (\<exists>n s'. n + stage (wp_pc s) \<le> 8 \<and> drain_path n s s' \<and> wp_pc s' = RunReturned)"

lemma can_return_main: "main_step s s' \<Longrightarrow> stage (wp_pc s) < stage (wp_pc s') \<Longrightarrow> can_return s' \<Longrightarrow> can_return s"
proof -
  assume step: "main_step s s'" and lt: "stage (wp_pc s) < stage (wp_pc s')" and "can_return s'"
  then obtain n s'' where n: "n + stage (wp_pc s') \<le> 8" "drain_path n s' s''" "wp_pc s'' = RunReturned"
    unfolding can_return_def by blast
  have "Suc n + stage (wp_pc s) \<le> 8" using n(1) lt by simp
  with path_main [OF step n(2)] n(3) show "can_return s" unfolding can_return_def by blast
qed

lemma can_return_helper: "helper_step s s' \<Longrightarrow> wp_pc s' = wp_pc s \<Longrightarrow> can_return s' \<Longrightarrow> can_return s"
  unfolding can_return_def by (metis path_helper)

lemma can_return_FinalBeat:
  assumes "5 \<le> stage (wp_pc s)"
  shows "can_return s"
proof -
  have 8: "can_return s" if "wp_pc s = RunReturned" for s
    unfolding can_return_def using that path_nil [of s] by (intro exI [of _ 0]) auto
  have 7: "can_return s" if "wp_pc s = ClosingStore" for s
    by (rule can_return_main [OF close_store [OF that]]) (simp_all add: that 8)
  have 6: "can_return s" if "wp_pc s = ClosingQueue" for s
    by (rule can_return_main [OF close_queue [OF that]]) (simp_all add: that 7)
  have 5: "can_return s" if "wp_pc s = FinalBeat" for s
    by (rule can_return_main [OF final_beat [OF that, of True]]) (simp_all add: that 6)
  from assms show ?thesis by (cases "wp_pc s") (simp_all add: 5 6 7 8)
qed

lemma can_return_StoppingBatcher:
  assumes "wp_pc s = StoppingBatcher" and "wp_batcher s = Some b" and "l_stopped b"
  shows "can_return s"
proof -
  have exited: "can_return s" if "wp_pc s = StoppingBatcher" "wp_batcher s = Some b" "l_exited b" for s b
    by (rule can_return_main [OF batcher_stopped [OF that]]) (simp_all add: that can_return_FinalBeat)
  have draining: "can_return s" if "wp_pc s = StoppingBatcher" "wp_batcher s = Some b" "l_draining b" "\<not> l_exited b" for s b
    using that
  proof (induction "l_in b" arbitrary: s b)
    case Nil
    have "helper_step s (s\<lparr>wp_batcher := Some (loop_exit b)\<rparr>)"
      by (rule batch [OF Nil(3) b_exit]) (use Nil in \<open>simp_all add: loop_exit_def loop_flush_def\<close>)
    then show ?case by (rule can_return_helper) (auto intro!: exited [of _ "loop_exit b"] simp: Nil loop_exit_def)
  next
    case (Cons p ps)
    let ?b = "loop_receive p (b\<lparr>l_in := ps\<rparr>)"
    have r: "l_in ?b = ps" "l_draining ?b" "\<not> l_exited ?b" "l_stopped ?b = l_stopped b"
      using Cons.prems by (simp_all add: loop_receive_def Let_def)
    have "helper_step s (s\<lparr>wp_batcher := Some ?b\<rparr>)"
      by (rule batch [OF Cons.prems(2) b_receive r(4)]) (use Cons in simp_all)
    then show ?case by (rule can_return_helper) (use Cons.hyps(1) [of ?b] Cons.prems(1) r in simp_all)
  qed
  show ?thesis
  proof (cases "l_exited b")
    case False
    have "helper_step s (s\<lparr>wp_batcher := Some (b\<lparr>l_draining := True\<rparr>)\<rparr>)"
      by (rule batch [OF assms(2) b_drain [OF False assms(3)]]) simp
    then show ?thesis
      by (rule can_return_helper) (use False draining [of _ "b\<lparr>l_draining := True\<rparr>"] in \<open>simp_all add: assms\<close>)
  qed (use exited assms in blast)
qed

lemma can_return_StoppingHB:
  assumes "wp_pc s = StoppingHB"
  shows "can_return s"
proof -
  have quiet: "can_return s" if "wp_pc s = StoppingHB" "\<not> wp_beating s" for s
    by (rule can_return_main [OF hb_stopped [OF that]])
      (auto simp: that can_return_FinalBeat intro: can_return_StoppingBatcher split: option.splits)
  show ?thesis
  proof (cases "wp_beating s")
    case True
    from beat_exit [OF this] show ?thesis
      by (rule can_return_helper) (simp_all add: assms hbCtx_done_def quiet)
  qed (use quiet assms in blast)
qed


section \<open>Example\<close>

text \<open>A worker with batched writes gets a delivery; its job hands over one operation and ends; then the signal comes.\<close>

definition demo_worker :: worker where
  "demo_worker = \<lparr> wk_queue = demo_queue, wk_batcher = Some batcher2, wk_runner = demo_runner, wk_pool = demo_pool \<rparr>"

definition demo_process :: process where
  "demo_process = (worker_Run_start demo_worker)\<lparr>wp_pool := pool_done (snd (pool_answer ([demo_delivery], None) False demo_pool)),
     wp_batcher := Some (batcher2\<lparr>l_in := [demo_op]\<rparr>), wp_sent := [demo_op]\<rparr>"

lemma demo_worker_new: "new_worker demo_worker"
  using batcher2_new by (auto simp: new_worker_def demo_worker_def loop_starts_def batcher2_def)

lemma demo_process_run: "worker_Run demo_worker demo_process"
proof -
  let ?s0 = "worker_Run_start demo_worker"
  let ?p = "snd (pool_answer ([demo_delivery], None) False demo_pool)"
  let ?s1 = "?s0\<lparr>wp_fetch := Some 1\<rparr>"
  let ?s2 = "?s0\<lparr>wp_pool := ?p, wp_jobs := [demo_delivery]\<rparr>"
  let ?b = "batcher2\<lparr>l_in := [demo_op]\<rparr>"
  let ?s3 = "?s2\<lparr>wp_batcher := Some ?b, wp_sent := [demo_op]\<rparr>"
  have s1: "pool_step ?s0 ?s1"
    by (rule fetch) (simp_all add: worker_Run_start_def demo_worker_def demo_pool_def NewPool_def pool_ask_def)
  have s2: "pool_step ?s1 ?s2"
    using fetched [of ?s1 1 "([demo_delivery], None)" "Dispatches [demo_delivery]" ?p]
    by (simp add: worker_Run_start_def demo_worker_def pool_answer_def)
  have s3: "pool_step ?s2 ?s3"
    using job_sends [of demo_delivery ?s2 batcher2 demo_op ?b] b_send [of batcher2 demo_op]
    by (simp add: worker_Run_start_def demo_worker_def batcher2_def)
  have s4: "pool_step ?s3 demo_process"
    using job_done [of demo_delivery ?s3] by (simp add: demo_process_def worker_Run_start_def demo_worker_def)
  show ?thesis by (rule run_pool [OF run_pool [OF run_pool [OF run_pool [OF run_start s1] s2] s3] s4])
qed

definition demo_drained :: process where
  "demo_drained = demo_process\<lparr>wp_pc := StoppingHB, wp_fetchCtx_done := True, wp_looping := False, wp_beating := False\<rparr>"

lemma demo_drained_run: "worker_Run demo_worker demo_drained"
proof -
  let ?s1 = "demo_process\<lparr>wp_pc := Draining, wp_fetchCtx_done := True\<rparr>"
  let ?s2 = "?s1\<lparr>wp_looping := False\<rparr>" let ?s3 = "?s2\<lparr>wp_pc := StoppingHB\<rparr>"
  note d = demo_process_def worker_Run_start_def
  have s1: "main_step demo_process ?s1" using signal [of demo_process] by (simp add: d)
  have s2: "pool_step ?s1 ?s2" by (rule loop_exit) (simp_all add: d)
  have s3: "main_step ?s2 ?s3" using drained [of ?s2] by (simp add: d poolDone_def)
  have s4: "helper_step ?s3 demo_drained" using beat_exit [of ?s3] by (simp add: d hbCtx_done_def demo_drained_def)
  show ?thesis by (rule run_helper [OF run_main [OF run_pool [OF run_main [OF demo_process_run s1] s2] s3] s4])
qed

definition demo_flushed :: batcher where
  "demo_flushed = batcher2\<lparr>l_flushed := [[demo_op]], l_stopped := True, l_draining := True, l_exited := True\<rparr>"

definition demo_returned :: process where
  "demo_returned = demo_drained\<lparr>wp_pc := RunReturned, wp_batcher := Some demo_flushed,
     wp_row := Some ''draining'', wp_queue_open := False, wp_store_open := False\<rparr>"

lemma demo_returned_run: "worker_Run demo_worker demo_returned"
proof -
  note d = demo_drained_def demo_process_def worker_Run_start_def
  let ?b = "batcher2\<lparr>l_in := [demo_op], l_stopped := True\<rparr>"
  let ?s1 = "demo_drained\<lparr>wp_pc := StoppingBatcher, wp_batcher := Some ?b\<rparr>"
  let ?c = "?b\<lparr>l_draining := True\<rparr>" let ?d = "batcher2\<lparr>l_pending := [demo_op], l_stopped := True, l_draining := True\<rparr>"
  let ?s2 = "?s1\<lparr>wp_batcher := Some demo_flushed\<rparr>" let ?s3 = "?s2\<lparr>wp_pc := FinalBeat\<rparr>"
  let ?s4 = "?s3\<lparr>wp_pc := ClosingQueue, wp_row := Some ''draining''\<rparr>"
  let ?s5 = "?s4\<lparr>wp_pc := ClosingStore, wp_queue_open := False\<rparr>"
  have s1: "main_step demo_drained ?s1" using hb_stopped [of demo_drained] by (simp add: d)
  have s1a: "helper_step ?s1 (?s1\<lparr>wp_batcher := Some ?c\<rparr>)"
    using batch [of ?s1 ?b ?c] b_drain [of ?b] by (simp add: batcher2_def)
  have s1b: "helper_step (?s1\<lparr>wp_batcher := Some ?c\<rparr>) (?s1\<lparr>wp_batcher := Some ?d\<rparr>)"
    using batch [of "?s1\<lparr>wp_batcher := Some ?c\<rparr>" ?c ?d] b_receive [of ?c demo_op "[]"] by (simp add: batcher2_def loop_receive_def)
  have s2: "helper_step (?s1\<lparr>wp_batcher := Some ?d\<rparr>) ?s2"
    using batch [of "?s1\<lparr>wp_batcher := Some ?d\<rparr>" ?d demo_flushed] b_exit [of ?d]
    by (simp add: demo_flushed_def loop_exit_def loop_flush_def batcher2_def)
  have s3: "main_step ?s2 ?s3" using batcher_stopped [of ?s2 demo_flushed] by (simp add: demo_flushed_def)
  have s4: "main_step ?s3 ?s4" using final_beat [of ?s3 True] by simp
  have s5: "main_step ?s4 ?s5" using close_queue [of ?s4] by simp
  have s6: "main_step ?s5 demo_returned" using close_store [of ?s5] by (simp add: demo_returned_def d)
  show ?thesis by (rule run_main [OF run_main [OF run_main [OF run_main [OF run_helper [OF run_helper [OF run_helper [OF run_main [OF demo_drained_run s1] s1a] s1b] s2] s3] s4] s5] s6])
qed

theorem worker_drains_witness:
  "wp_pc demo_returned = RunReturned \<and> wp_jobs demo_returned = [] \<and> concat (l_flushed demo_flushed) = wp_sent demo_returned"
  using worker_drains [OF demo_worker_new demo_returned_run]
  by (simp add: demo_returned_def demo_drained_def demo_process_def worker_Run_start_def)


end
