(* ===== verification/Link.thy ===== *)
theory Link
  imports Control "HOL-Library.Sublist"
begin

text \<open>
  One connection of a worker to the control plane, \<^verbatim>\<open>connectOnce\<close> of \<^verbatim>\<open>internal/control/client.go\<close>: the hello, the goroutine that
  sends statistics and the loop that receives commands. gRPC is the environment: it answers the two
  calls that set a stream up, and each send, and says when a command arrives and when the stream ends.
\<close>

section \<open>A connection\<close>

text \<open>
  \<open>lk_out\<close> are the messages that left, \<open>lk_sender\<close> whether the goroutine runs, \<open>lk_sendErr\<close> what it left in the channel
  \<^verbatim>\<open>sendErr\<close>, \<open>lk_drains\<close> how often the drain hook was called.
\<close>

record link =
  lk_pool :: pool
  lk_out :: "worker_message list"
  lk_sender :: bool
  lk_sendErr :: error
  lk_drains :: nat

datatype link_event =
    StatsTick error            \<comment> \<open>the ticker fires; the outcome of the send\<close>
  | Receive command bool       \<comment> \<open>a command; whether its acknowledgement leaves\<close>
  | PoolMoves pool             \<comment> \<open>the pool changes on its own\<close>
  | ContextEnds                \<comment> \<open>the goroutine sees \<^verbatim>\<open>ctx.Done()\<close>\<close>
  | StreamEnds go_error        \<comment> \<open>\<^verbatim>\<open>stream.Recv\<close> fails\<close>

definition link_tick :: "error \<Rightarrow> link \<Rightarrow> link" where
  "link_tick res l =
    (if \<not> lk_sender l then l
     else case res of
       None \<Rightarrow> l\<lparr>lk_out := lk_out l @ [client_stats (lk_pool l)]\<rparr>
     | Some e \<Rightarrow> l\<lparr>lk_sender := False, lk_sendErr := Some e\<rparr>)"

definition link_dispatch :: "command \<Rightarrow> bool \<Rightarrow> link \<Rightarrow> link" where
  "link_dispatch c ok l =
    (case dispatch SetTarget SetPaused c (lk_pool l) of (p, ack, drain) \<Rightarrow>
       l\<lparr>lk_pool := p, lk_out := lk_out l @ (case ack of Some m \<Rightarrow> if ok then [m] else [] | None \<Rightarrow> []),
         lk_drains := lk_drains l + (if drain then 1 else 0)\<rparr>)"

text \<open>
  The loop of the receiver. It looks at \<^verbatim>\<open>sendErr\<close> before it waits for a command and not while it waits, so a
  failed send ends the connection only after the next command. The result is the error returned,
  \<open>None\<close> while it has not returned.
\<close>

fun link_run :: "link_event list \<Rightarrow> link \<Rightarrow> go_error option \<times> link" where
  "link_run [] l = (None, l)"
| "link_run (StatsTick res # es) l = link_run es (link_tick res l)"
| "link_run (PoolMoves p # es) l = link_run es (l\<lparr>lk_pool := p\<rparr>)"
| "link_run (ContextEnds # es) l = link_run es (l\<lparr>lk_sender := False\<rparr>)"
| "link_run (StreamEnds e # es) l = (Some e, l)"
| "link_run (Receive c ok # es) l =
    (let l' = link_dispatch c ok l in
     case lk_sendErr l' of Some e \<Rightarrow> (Some e, l') | None \<Rightarrow> link_run es l')"

text \<open>\<open>dial\<close>, \<open>open_stream\<close> and \<open>hello\<close> are the outcomes of \<^verbatim>\<open>grpc.NewClient\<close>, \<^verbatim>\<open>WorkerStream\<close> and the first send.\<close>

definition connectOnce ::
  "error \<Rightarrow> error \<Rightarrow> error \<Rightarrow> string \<Rightarrow> string \<Rightarrow> int \<Rightarrow> string list \<Rightarrow> link_event list \<Rightarrow> pool \<Rightarrow> go_error option \<times> link"
where
  "connectOnce dial open_stream hello i host pid types es p =
    (let l = \<lparr> lk_pool = p, lk_out = [], lk_sender = False, lk_sendErr = None, lk_drains = 0 \<rparr> in
     case dial of
       Some e \<Rightarrow> (Some e, l)
     | None \<Rightarrow>
    (case open_stream of
       Some e \<Rightarrow> (Some e, l)
     | None \<Rightarrow>
    (case hello of
       Some e \<Rightarrow> (Some e, l)
     | None \<Rightarrow> link_run es (l\<lparr>lk_out := [client_hello i host pid types p], lk_sender := True\<rparr>))))"

section \<open>What a connection does\<close>

text \<open>The commands that were executed before the connection returned.\<close>

fun executed :: "bool \<Rightarrow> bool \<Rightarrow> link_event list \<Rightarrow> (command \<times> bool) list" where
  "executed sending failed [] = []"
| "executed sending failed (StreamEnds e # es) = []"
| "executed sending failed (Receive c ok # es) = (c, ok) # (if failed then [] else executed sending failed es)"
| "executed sending failed (StatsTick res # es) = executed (sending \<and> res = None) (failed \<or> sending \<and> res \<noteq> None) es"
| "executed sending failed (ContextEnds # es) = executed False failed es"
| "executed sending failed (PoolMoves p # es) = executed sending failed es"

definition acks :: "(command \<times> bool) list \<Rightarrow> worker_message list" where
  "acks cs = concat (map (\<lambda>(c, ok). case fst (snd (dispatch SetTarget SetPaused c (NewPool 1 1))) of
     Some m \<Rightarrow> if ok then [m] else [] | None \<Rightarrow> []) cs)"

definition is_ack :: "worker_message \<Rightarrow> bool" where
  "is_ack m = (case m of MsgAck _ _ \<Rightarrow> True | _ \<Rightarrow> False)"

lemma dispatch_ack: "fst (snd (dispatch f g c p)) = fst (snd (dispatch f' g' c p'))"
  by (cases "cm_Cmd c") (simp_all add: dispatch_def)

lemma dispatch_is_ack: "fst (snd (dispatch f g c p)) = Some m \<Longrightarrow> is_ack m"
  by (cases "cm_Cmd c") (auto simp: dispatch_def is_ack_def)

lemma acks_Cons: "acks ((c, ok) # cs) =
    (case fst (snd (dispatch SetTarget SetPaused c p)) of Some m \<Rightarrow> if ok then [m] else [] | None \<Rightarrow> []) @ acks cs"
  using dispatch_ack [of SetTarget SetPaused c "NewPool 1 1" SetTarget SetPaused p] by (simp add: acks_def)

lemma link_tick_simps [simp]:
  "lk_pool (link_tick res l) = lk_pool l" "lk_drains (link_tick res l) = lk_drains l"
  "filter is_ack (lk_out (link_tick res l)) = filter is_ack (lk_out l)"
  by (simp_all add: link_tick_def client_stats_def is_ack_def split: option.split)

lemma link_dispatch_simps [simp]:
  "lk_pool (link_dispatch c ok l) = fst (dispatch SetTarget SetPaused c (lk_pool l))"
  "lk_sendErr (link_dispatch c ok l) = lk_sendErr l" "lk_sender (link_dispatch c ok l) = lk_sender l"
  by (simp_all add: link_dispatch_def split: prod.split)

lemma link_dispatch_acks:
  "filter is_ack (lk_out (link_dispatch c ok l)) @ acks cs = filter is_ack (lk_out l) @ acks ((c, ok) # cs)"
  using dispatch_is_ack [of SetTarget SetPaused c "lk_pool l"]
  by (auto simp: link_dispatch_def acks_Cons [where p = "lk_pool l"] split: prod.split option.split)

lemma link_dispatch_drains:
  "lk_drains (link_dispatch c ok l) = lk_drains l + (if cm_Cmd c = Drain then 1 else 0)"
  by (cases "cm_Cmd c") (simp_all add: link_dispatch_def dispatch_def)

lemma link_tick_sender [simp]:
  "lk_sender (link_tick res l) = (lk_sender l \<and> res = None)"
  "(\<exists>e. lk_sendErr (link_tick res l) = Some e) = ((\<exists>e. lk_sendErr l = Some e) \<or> lk_sender l \<and> res \<noteq> None)"
  by (cases res; simp add: link_tick_def)+

text \<open>
  The acknowledgements that leave are those of the executed commands, in order; the drain hook is called
  once for each executed drain; and as far as the pool is not moved by others, it ends with the
  executed commands applied to it one after the other.
\<close>

definition done_by :: "link_event list \<Rightarrow> link \<Rightarrow> (command \<times> bool) list" where
  "done_by es l = executed (lk_sender l) (lk_sendErr l \<noteq> None) es"

lemma done_by_simps [simp]:
  "done_by [] l = []" "done_by (StreamEnds e # es) l = []" "done_by (PoolMoves p # es) l = done_by es (l\<lparr>lk_pool := p\<rparr>)"
  "done_by (ContextEnds # es) l = done_by es (l\<lparr>lk_sender := False\<rparr>)"
  "done_by (StatsTick res # es) l = done_by es (link_tick res l)"
  "done_by (Receive c ok # es) l = (c, ok) # (if lk_sendErr l \<noteq> None then [] else done_by es (link_dispatch c ok l))"
  by (simp_all add: done_by_def)

lemma link_run_executes:
  "filter is_ack (lk_out (snd (link_run es l))) = filter is_ack (lk_out l) @ acks (done_by es l)
    \<and> lk_drains (snd (link_run es l)) = lk_drains l + length (filter (\<lambda>(c, _). cm_Cmd c = Drain) (done_by es l))
    \<and> ((\<forall>p. PoolMoves p \<notin> set es) \<longrightarrow>
        lk_pool (snd (link_run es l)) = dispatch_all SetTarget SetPaused (map fst (done_by es l)) (lk_pool l))"
proof (induction es l rule: link_run.induct)
  case (6 c ok es l)
  show ?case
  proof (cases "lk_sendErr l")
    case None
    with 6 [OF refl] link_dispatch_acks [of c ok l "done_by es (link_dispatch c ok l)"] show ?thesis
      by (simp add: Let_def link_dispatch_drains)
  next
    case (Some e)
    with link_dispatch_acks [of c ok l "[]"] show ?thesis by (simp add: Let_def link_dispatch_drains acks_def)
  qed
qed (auto simp: acks_def)

text \<open>A connection whose sends go through executes every command it receives, until the stream ends.\<close>

lemma executed_all:
  assumes "\<forall>e. StatsTick (Some e) \<notin> set es \<and> StreamEnds e \<notin> set es"
  shows "executed sending False es = List.map_filter (\<lambda>ev. case ev of Receive c ok \<Rightarrow> Some (c, ok) | _ \<Rightarrow> None) es"
  using assms
proof (induction es arbitrary: sending)
  case (Cons ev es)
  then show ?case
  proof (cases ev)
    case (StatsTick res)
    with Cons.prems have "res = None" by (cases res) auto
    with Cons StatsTick show ?thesis by (simp add: List.map_filter_simps)
  qed (auto simp: List.map_filter_simps)
qed (simp add: List.map_filter_simps)

text \<open>The hello is the first message of a stream, as the hub demands.\<close>

lemma connectOnce_hello:
  assumes "connectOnce None None None i host pid types es p = (r, l)"
  shows "take 1 (lk_out l) = [client_hello i host pid types p]"
proof -
  have "prefix [client_hello i host pid types p] (lk_out (snd (link_run es l)))"
    if "prefix [client_hello i host pid types p] (lk_out l)" for l
    using that
  proof (induction es l rule: link_run.induct)
    case (6 c ok es l)
    then show ?case by (auto simp: Let_def link_dispatch_def split: option.splits prod.splits)
  qed (auto simp: link_tick_def split: option.splits)
  from this [of "\<lparr> lk_pool = p, lk_out = [client_hello i host pid types p], lk_sender = True, lk_sendErr = None, lk_drains = 0 \<rparr>"]
  show ?thesis using assms by (auto simp: connectOnce_def Let_def prefix_def)
qed

end
