(* ===== verification/Metrics.thy ===== *)
theory Metrics
  imports Pool
begin

text \<open>
  The values of the metrics, \<^verbatim>\<open>internal/metrics/metrics.go\<close>, and what the observer of a worker's runner does to them. A
  histogram is the list of its observations; the descriptors, the registration and what is read at a
  scrape are in \<open>Meters\<close>.
\<close>

section \<open>The series\<close>

record metrics =
  mt_JobsSubmitted :: "string \<times> string \<Rightarrow> nat"
  mt_JobsCompleted :: "string \<Rightarrow> nat"
  mt_JobsFailed :: "string \<Rightarrow> nat"
  mt_JobsRetried :: "string \<Rightarrow> nat"
  mt_JobsDeadLettered :: "string \<Rightarrow> nat"
  mt_JobsCancelled :: "string \<Rightarrow> nat"
  mt_ExecDuration :: "string \<Rightarrow> duration list"
  mt_E2EDuration :: "string \<Rightarrow> duration list"
  mt_ClaimsSkipped :: nat
  mt_WritesFenced :: nat

definition metrics_New :: metrics where
  "metrics_New =
    \<lparr> mt_JobsSubmitted = \<lambda>_. 0, mt_JobsCompleted = \<lambda>_. 0, mt_JobsFailed = \<lambda>_. 0, mt_JobsRetried = \<lambda>_. 0, mt_JobsDeadLettered = \<lambda>_. 0,
      mt_JobsCancelled = \<lambda>_. 0, mt_ExecDuration = \<lambda>_. [], mt_E2EDuration = \<lambda>_. [], mt_ClaimsSkipped = 0,
      mt_WritesFenced = 0 \<rparr>"

definition inc :: "string \<Rightarrow> (string \<Rightarrow> nat) \<Rightarrow> string \<Rightarrow> nat" where
  "inc ty c = c(ty := Suc (c ty))"

text \<open>The methods of \<^verbatim>\<open>Observer\<close>.\<close>

fun observe :: "observation \<Rightarrow> metrics \<Rightarrow> metrics" where
  "observe (JobStarted ty) m = m"
| "observe (JobCompleted ty exec e2e) m =
    m\<lparr>mt_JobsCompleted := inc ty (mt_JobsCompleted m),
      mt_ExecDuration := (mt_ExecDuration m)(ty := mt_ExecDuration m ty @ [exec]),
      mt_E2EDuration := (mt_E2EDuration m)(ty := mt_E2EDuration m ty @ [e2e])\<rparr>"
| "observe (JobFailed ty) m = m\<lparr>mt_JobsFailed := inc ty (mt_JobsFailed m)\<rparr>"
| "observe (JobRetried ty) m = m\<lparr>mt_JobsRetried := inc ty (mt_JobsRetried m)\<rparr>"
| "observe (JobDeadLettered ty) m = m\<lparr>mt_JobsDeadLettered := inc ty (mt_JobsDeadLettered m)\<rparr>"
| "observe (JobCancelled ty) m = m\<lparr>mt_JobsCancelled := inc ty (mt_JobsCancelled m)\<rparr>"
| "observe ClaimSkipped m = m\<lparr>mt_ClaimsSkipped := Suc (mt_ClaimsSkipped m)\<rparr>"
| "observe WriteFenced m = m\<lparr>mt_WritesFenced := Suc (mt_WritesFenced m)\<rparr>"

section \<open>What is counted\<close>

definition outcomes_counted :: "string \<Rightarrow> metrics \<Rightarrow> nat" where
  "outcomes_counted ty m = mt_JobsCompleted m ty + mt_JobsFailed m ty + mt_JobsRetried m ty + mt_JobsDeadLettered m ty
    + mt_JobsCancelled m ty"

definition outcome_notification :: "string \<Rightarrow> observation \<Rightarrow> bool" where
  "outcome_notification ty n = ((\<exists>a b. n = JobCompleted ty a b) \<or> n \<in> {JobFailed ty, JobRetried ty, JobDeadLettered ty, JobCancelled ty})"

lemma observe_outcome:
  "outcome_notification ty n \<Longrightarrow> outcomes_counted ty (observe n m) = Suc (outcomes_counted ty m)
    \<and> mt_WritesFenced (observe n m) = mt_WritesFenced m"
  by (auto simp: outcome_notification_def outcomes_counted_def inc_def)

lemma finish_record_notification:
  "hoare P (finish_record R C q n rec x cl result herr oc att now) (\<lambda>y _. outcome_notification (e_Type (dv_Env x)) (snd y))"
proof -
  have p: "hoare Q (pass (y, m)) (\<lambda>y _. outcome_notification ty (snd y))" if "outcome_notification ty m"
    for Q :: "'a world \<Rightarrow> bool" and y :: "bool res" and m ty
    using that by (simp add: hoare_def pass_def)
  show ?thesis
    unfolding finish_record_def Let_def
    by (intro hoare_if hoare_bind [OF hoare_any] p) (auto simp: outcome_notification_def)
qed

lemma finish_observations:
  "hoare P (finish R C q n rec x cl result herr cause)
    (\<lambda>obs _. obs = [] \<or> (\<exists>m. outcome_notification (e_Type (dv_Env x)) m \<and> (obs = [m] \<or> obs = [WriteFenced, m])))"
proof -
  let ?Q = "\<lambda>obs (_ :: 'a world). obs = [] \<or> (\<exists>m. outcome_notification (e_Type (dv_Env x)) m \<and> (obs = [m] \<or> obs = [WriteFenced, m]))"
  have answer: "hoare (\<lambda>_. outcome_notification (e_Type (dv_Env x)) (snd y))
      (case y of
         (Inl _, _) \<Rightarrow> pass []
       | (Inr applied, notify) \<Rightarrow> do {
           runner_ack R q x;
           pass ((if applied then [] else [WriteFenced]) @ [notify]) }) ?Q" for y :: "bool res \<times> observation"
    by (auto simp: hoare_def pass_def split: prod.split sum.split)
  show ?thesis
    unfolding finish_def Let_def
    by (intro hoare_bind [OF hoare_any] hoare_if hoare_bind [OF finish_record_notification answer])
      (simp add: hoare_def pass_def)
qed

text \<open>
  What the metrics count. Finishing an execution advances at most one of the outcome counters of the job's
  type, by one, and no counter of another type; and whenever it counts a fenced write, it counts an
  outcome as well: the counter of completed jobs also counts completions that the fence refused.
\<close>

lemma metrics_count_outcomes:
  assumes "run_state (finish R C q n rec x cl result herr cause) w = (obs, w')"
  shows "outcomes_counted (e_Type (dv_Env x)) (fold observe obs m) \<le> Suc (outcomes_counted (e_Type (dv_Env x)) m)
    \<and> (ty \<noteq> e_Type (dv_Env x) \<longrightarrow> outcomes_counted ty (fold observe obs m) = outcomes_counted ty m)
    \<and> (mt_WritesFenced (fold observe obs m) \<noteq> mt_WritesFenced m \<longrightarrow>
        outcomes_counted (e_Type (dv_Env x)) (fold observe obs m) = Suc (outcomes_counted (e_Type (dv_Env x)) m))"
proof -
  have "obs = [] \<or> (\<exists>m. outcome_notification (e_Type (dv_Env x)) m \<and> (obs = [m] \<or> obs = [WriteFenced, m]))"
    using hoareD [OF finish_observations _ assms] by blast
  then consider "obs = []" | k where "outcome_notification (e_Type (dv_Env x)) k" "obs = [k] \<or> obs = [WriteFenced, k]" by blast
  then show ?thesis
  proof cases
    case 2
    have other: "outcomes_counted ty (observe k v) = outcomes_counted ty v" if "ty \<noteq> e_Type (dv_Env x)" for v
      using 2(1) that by (auto simp: outcome_notification_def outcomes_counted_def inc_def)
    have f: "outcomes_counted t (observe WriteFenced m) = outcomes_counted t m" for t by (simp add: outcomes_counted_def)
    show ?thesis using 2(2) observe_outcome [OF 2(1)] other f by (elim disjE) auto
  qed simp
qed

end
