(* ===== verification/Meters.thy ===== *)
theory Meters
  imports Metrics
begin

text \<open>
  The series of the metrics, \<^verbatim>\<open>internal/metrics/metrics.go\<close>: the descriptors of the counters and histograms,
  their registration in both processes, the gauges of a worker and the collector of the queue depths. A panic is
  \<open>None\<close>. The client library of Prometheus is a parameter; what is relied on is its documentation: which
  descriptors it registers, which label values it takes and what exponential buckets are.
\<close>

section \<open>The client library\<close>

record desc =
  ds_Name :: string
  ds_Help :: string
  ds_Labels :: "string list"
  ds_ConstLabels :: "(string \<times> string) list"

record 'g prometheus =
  pm_NewRegistry :: 'g
  pm_Register :: "desc list \<Rightarrow> 'g \<Rightarrow> 'g option"
  pm_GoCollector :: "desc list"
  pm_ProcessCollector :: "desc list"
  pm_ExponentialBuckets :: "rat \<Rightarrow> rat \<Rightarrow> int \<Rightarrow> rat list option"
  pm_accepts :: "desc \<Rightarrow> string list \<Rightarrow> bool"
  pm_text :: "string \<Rightarrow> bool"

text \<open>
  \<open>pm_Register\<close> takes what a collector describes, \<open>pm_accepts\<close> is whether \<^verbatim>\<open>WithLabelValues\<close> and
  \<^verbatim>\<open>MustNewConstMetric\<close> take the label values for a descriptor, \<open>pm_text\<close> is valid UTF-8.
  A descriptor is fine when its names are, as far as the source needs them.
\<close>

definition plain_name :: "string \<Rightarrow> bool" where
  "plain_name s =
    (s \<noteq> [] \<and> hd s \<in> set ''abcdefghijklmnopqrstuvwxyz''
     \<and> list_all (\<lambda>c. c \<in> set ''abcdefghijklmnopqrstuvwxyz0123456789_'') s)"

definition desc_ok :: "'g prometheus \<Rightarrow> desc \<Rightarrow> bool" where
  "desc_ok P d =
    (plain_name (ds_Name d) \<and> ds_Help d \<noteq> [] \<and> list_all plain_name (map fst (ds_ConstLabels d) @ ds_Labels d)
     \<and> distinct (map fst (ds_ConstLabels d) @ ds_Labels d) \<and> list_all (pm_text P) (map snd (ds_ConstLabels d)))"

locale prometheus_library =
  fixes P :: "'g prometheus" and registered :: "'g \<Rightarrow> string set"
  assumes new_empty: "registered (pm_NewRegistry P) = {}"
    and register_distinct: "list_all (desc_ok P) ds \<Longrightarrow> distinct (map ds_Name ds) \<Longrightarrow> registered g \<inter> ds_Name ` set ds = {} \<Longrightarrow>
      \<exists>g'. pm_Register P ds g = Some g' \<and> registered g' = registered g \<union> ds_Name ` set ds"
    and go_descs: "list_all (desc_ok P) (pm_GoCollector P)" "distinct (map ds_Name (pm_GoCollector P))"
    and go_names: "list_all (\<lambda>d. take 3 (ds_Name d) = ''go_'') (pm_GoCollector P)"
    and process_descs: "list_all (desc_ok P) (pm_ProcessCollector P)" "distinct (map ds_Name (pm_ProcessCollector P))"
    and process_names: "list_all (\<lambda>d. take 8 (ds_Name d) = ''process_'') (pm_ProcessCollector P)"
    and buckets: "0 < start \<Longrightarrow> 1 < factor \<Longrightarrow> 0 < count \<Longrightarrow>
      pm_ExponentialBuckets P start factor count = Some (map (\<lambda>i. start * factor ^ i) [0..<nat count])"
    and accepts: "desc_ok P d \<Longrightarrow> length vs = length (ds_Labels d) \<Longrightarrow> list_all (pm_text P) vs \<Longrightarrow> pm_accepts P d vs"
    and ascii_text: "list_all (\<lambda>c. of_char c < (128 :: nat)) s \<Longrightarrow> pm_text P s"

section \<open>The set of series\<close>

text \<open>An instrument and, for a histogram, the upper bounds of its buckets.\<close>

record instrument =
  in_desc :: desc
  in_Buckets :: "rat list"

record meters =
  ms_JobsSubmitted :: instrument
  ms_JobsCompleted :: instrument
  ms_JobsFailed :: instrument
  ms_JobsRetried :: instrument
  ms_JobsDeadLettered :: instrument
  ms_JobsCancelled :: instrument
  ms_ExecDuration :: instrument
  ms_E2EDuration :: instrument
  ms_ClaimsSkipped :: instrument
  ms_WritesFenced :: instrument

definition NewDesc :: "string \<Rightarrow> string \<Rightarrow> string list \<Rightarrow> (string \<times> string) list \<Rightarrow> desc" where
  "NewDesc name help labels consts = \<lparr> ds_Name = name, ds_Help = help, ds_Labels = labels, ds_ConstLabels = consts \<rparr>"

definition NewCounterVec :: "string \<Rightarrow> string \<Rightarrow> string list \<Rightarrow> instrument" where
  "NewCounterVec name help labels = \<lparr> in_desc = NewDesc name help labels [], in_Buckets = [] \<rparr>"

definition NewHistogramVec :: "string \<Rightarrow> string \<Rightarrow> rat list \<Rightarrow> string list \<Rightarrow> instrument" where
  "NewHistogramVec name help bs labels = \<lparr> in_desc = NewDesc name help labels [], in_Buckets = bs \<rparr>"

definition meters_New :: "rat list \<Rightarrow> rat list \<Rightarrow> meters" where
  "meters_New exec_buckets e2e_buckets =
    \<lparr> ms_JobsSubmitted = NewCounterVec ''calligraphy_jobs_submitted_total''
        ''Jobs accepted by the API, by type and queue.'' [''type'', ''queue''],
      ms_JobsCompleted = NewCounterVec ''calligraphy_jobs_completed_total'' ''Jobs that reached COMPLETED.'' [''type''],
      ms_JobsFailed = NewCounterVec ''calligraphy_jobs_failed_total''
        ''Attempts that ended in a permanent (non-retryable) failure.'' [''type''],
      ms_JobsRetried = NewCounterVec ''calligraphy_jobs_retried_total'' ''Attempts that ended in a retry being scheduled.'' [''type''],
      ms_JobsDeadLettered = NewCounterVec ''calligraphy_jobs_dead_lettered_total''
        ''Jobs parked in the DLQ after exhausting attempts.'' [''type''],
      ms_JobsCancelled = NewCounterVec ''calligraphy_jobs_cancelled_total'' ''Jobs cancelled cooperatively mid-run.'' [''type''],
      ms_ExecDuration = NewHistogramVec ''calligraphy_job_duration_seconds''
        ''Handler execution time (excludes queue wait).'' exec_buckets [''type''],
      ms_E2EDuration = NewHistogramVec ''calligraphy_job_e2e_duration_seconds''
        ''Enqueue-to-completion time (includes queue wait).'' e2e_buckets [''type''],
      ms_ClaimsSkipped = NewCounterVec ''calligraphy_claims_skipped_total''
        ''Deliveries that lost claim arbitration (duplicate/stale) and were acked away.'' [],
      ms_WritesFenced = NewCounterVec ''calligraphy_writes_fenced_total''
        ''Terminal writes rejected by the lease-epoch fence.'' [] \<rparr>"

definition instruments :: "meters \<Rightarrow> instrument list" where
  "instruments m =
    [ms_JobsSubmitted m, ms_JobsCompleted m, ms_JobsFailed m, ms_JobsRetried m, ms_JobsDeadLettered m, ms_JobsCancelled m,
     ms_ExecDuration m, ms_E2EDuration m, ms_ClaimsSkipped m, ms_WritesFenced m]"

text \<open>A collector is what it describes; the first one that is refused panics.\<close>

fun meters_MustRegister :: "'g prometheus \<Rightarrow> desc list list \<Rightarrow> 'g \<Rightarrow> 'g option" where
  "meters_MustRegister P [] g = Some g"
| "meters_MustRegister P (c # cs) g = (case pm_Register P c g of None \<Rightarrow> None | Some g' \<Rightarrow> meters_MustRegister P cs g')"

definition Metrics_New :: "'g prometheus \<Rightarrow> (meters \<times> 'g) option" where
  "Metrics_New P = do {
    g1 \<leftarrow> meters_MustRegister P [pm_GoCollector P] (pm_NewRegistry P);
    g2 \<leftarrow> meters_MustRegister P [pm_ProcessCollector P] g1;
    b1 \<leftarrow> pm_ExponentialBuckets P (1 / 1000) 2 18;
    b2 \<leftarrow> pm_ExponentialBuckets P (1 / 1000) 2 18;
    g3 \<leftarrow> meters_MustRegister P (map (\<lambda>i. [in_desc i]) (instruments (meters_New b1 b2))) g2;
    Some (meters_New b1 b2, g3) }"

section \<open>The gauges of a worker\<close>

text \<open>Each is read at a scrape.\<close>

definition worker_gauges :: "string \<Rightarrow> pool \<Rightarrow> (desc \<times> rat) list" where
  "worker_gauges workerID p =
    (let labels = [(''worker'', workerID)] in
     [(NewDesc ''calligraphy_worker_active_jobs'' ''Jobs executing right now.'' [] labels, of_int (pl_active p)),
      (NewDesc ''calligraphy_worker_target_concurrency'' ''Current concurrency target.'' [] labels, of_int (pl_target p)),
      (NewDesc ''calligraphy_worker_utilization'' ''active / target, 0..1.'' [] labels,
        if pl_target p = 0 then 0 else of_int (pl_active p) / of_int (pl_target p)),
      (NewDesc ''calligraphy_worker_processed_total'' ''Deliveries finished by this worker.'' [] labels,
        of_nat (unat (pl_processed p)))])"

definition RegisterWorkerGauges :: "'g prometheus \<Rightarrow> string \<Rightarrow> pool \<Rightarrow> 'g \<Rightarrow> 'g option" where
  "RegisterWorkerGauges P workerID p g = meters_MustRegister P (map (\<lambda>x. [fst x]) (worker_gauges workerID p)) g"

section \<open>The queue depths\<close>

record depth_collector =
  dc_Q :: queue
  dc_descReady :: desc
  dc_descDelayed :: desc
  dc_descInflight :: desc
  dc_descDLQ :: desc

definition NewDepthCollector :: "queue \<Rightarrow> depth_collector" where
  "NewDepthCollector q =
    (let ql = [''queue'', ''priority''] in
     \<lparr> dc_Q = q,
       dc_descReady = NewDesc ''calligraphy_queue_depth'' ''Entries ready to claim.'' ql [(''state'', ''ready'')],
       dc_descDelayed = NewDesc ''calligraphy_queue_delayed_depth'' ''Envelopes waiting on backoff/schedule.'' ql [],
       dc_descInflight = NewDesc ''calligraphy_queue_inflight'' ''Claimed, unacked entries.'' [''queue''] [],
       dc_descDLQ = NewDesc ''calligraphy_queue_dlq_depth'' ''Entries in the DLQ log stream.'' [''queue''] [] \<rparr>)"

definition Describe :: "depth_collector \<Rightarrow> desc list" where
  "Describe c = [dc_descReady c, dc_descDelayed c, dc_descInflight c, dc_descDLQ c]"

text \<open>A sample is its descriptor, value and label values.\<close>

definition MustNewConstMetric :: "'g prometheus \<Rightarrow> desc \<Rightarrow> int \<Rightarrow> string list \<Rightarrow> (desc \<times> int \<times> string list) option" where
  "MustNewConstMetric P d v vs = (if pm_accepts P d vs then Some (d, v, vs) else None)"

definition Collect :: "'g prometheus \<Rightarrow> 'r redis \<Rightarrow> depth_collector \<Rightarrow> ('r, (desc \<times> int \<times> string list) list option) prog" where
  "Collect P R c = do {
    r \<leftarrow> Depths R (dc_Q c);
    (case r of
       Inl _ \<Rightarrow> pass (Some [])
     | Inr d \<Rightarrow>
         let name = k_queue (dc_Q c) in
         pass (those
           (map (\<lambda>(p, n). MustNewConstMetric P (dc_descReady c) n [name, p]) (dp_Ready d)
            @ map (\<lambda>(p, n). MustNewConstMetric P (dc_descDelayed c) n [name, p]) (dp_Delayed d)
            @ [MustNewConstMetric P (dc_descInflight c) (dp_InFlight d) [name],
               MustNewConstMetric P (dc_descDLQ c) (dp_DLQ d) [name]]))) }"

section \<open>Both processes\<close>

text \<open>\<^verbatim>\<open>run\<close> of \<^verbatim>\<open>cmd/calligraphy-api\<close> and of \<^verbatim>\<open>cmd/calligraphy-worker\<close>.\<close>

definition api_meters :: "'g prometheus \<Rightarrow> queue \<Rightarrow> (meters \<times> 'g) option" where
  "api_meters P q = do {
    (m, g) \<leftarrow> Metrics_New P;
    g' \<leftarrow> meters_MustRegister P [Describe (NewDepthCollector q)] g;
    Some (m, g') }"

definition worker_meters :: "'g prometheus \<Rightarrow> string \<Rightarrow> pool \<Rightarrow> (meters \<times> 'g) option" where
  "worker_meters P workerID p = do {
    (m, g) \<leftarrow> Metrics_New P;
    g' \<leftarrow> RegisterWorkerGauges P workerID p g;
    Some (m, g') }"

text \<open>The label values the methods of \<^verbatim>\<open>Observer\<close> and the API's submission counter ask for, and the methods with their panics.\<close>

fun observer_labels :: "meters \<Rightarrow> observation \<Rightarrow> (instrument \<times> string list) list" where
  "observer_labels ms (JobStarted ty) = []"
| "observer_labels ms (JobCompleted ty exec e2e) = [(ms_JobsCompleted ms, [ty]), (ms_ExecDuration ms, [ty]), (ms_E2EDuration ms, [ty])]"
| "observer_labels ms (JobFailed ty) = [(ms_JobsFailed ms, [ty])]"
| "observer_labels ms (JobRetried ty) = [(ms_JobsRetried ms, [ty])]"
| "observer_labels ms (JobDeadLettered ty) = [(ms_JobsDeadLettered ms, [ty])]"
| "observer_labels ms (JobCancelled ty) = [(ms_JobsCancelled ms, [ty])]"
| "observer_labels ms ClaimSkipped = []"
| "observer_labels ms WriteFenced = []"

definition WithLabelValues :: "'g prometheus \<Rightarrow> instrument \<times> string list \<Rightarrow> string list option" where
  "WithLabelValues P x = (if pm_accepts P (in_desc (fst x)) (snd x) then Some (snd x) else None)"

definition Observer_call :: "'g prometheus \<Rightarrow> meters \<Rightarrow> observation \<Rightarrow> metrics \<Rightarrow> metrics option" where
  "Observer_call P ms n m = (case those (map (WithLabelValues P) (observer_labels ms n)) of None \<Rightarrow> None | Some _ \<Rightarrow> Some (observe n m))"

definition count_submission :: "'g prometheus \<Rightarrow> meters option \<Rightarrow> string \<Rightarrow> string \<Rightarrow> metrics \<Rightarrow> metrics option" where
  "count_submission P meters ty qn m =
    (case meters of
       None \<Rightarrow> Some m
     | Some ms \<Rightarrow>
         (case WithLabelValues P (ms_JobsSubmitted ms, [ty, qn]) of
            None \<Rightarrow> None
          | Some _ \<Rightarrow> Some (m\<lparr>mt_JobsSubmitted := (mt_JobsSubmitted m)((ty, qn) := Suc (mt_JobsSubmitted m (ty, qn)))\<rparr>)))"

text \<open>The series that the panels of \<^verbatim>\<open>deploy/compose/grafana/dashboards/calligraphy.json\<close> ask for.\<close>

definition dashboard_series :: "string list" where
  "dashboard_series =
    [''calligraphy_jobs_submitted_total'', ''calligraphy_jobs_completed_total'', ''calligraphy_queue_depth'',
     ''calligraphy_queue_delayed_depth'', ''calligraphy_queue_inflight'', ''calligraphy_queue_dlq_depth'',
     ''calligraphy_worker_active_jobs'', ''calligraphy_worker_target_concurrency'', ''calligraphy_worker_utilization'',
     ''calligraphy_job_e2e_duration_seconds_bucket'', ''calligraphy_job_duration_seconds_bucket'',
     ''calligraphy_jobs_retried_total'', ''calligraphy_jobs_failed_total'', ''calligraphy_jobs_dead_lettered_total'',
     ''calligraphy_writes_fenced_total'']"

section \<open>Registration\<close>

definition meter_names :: "string list" where
  "meter_names =
    [''calligraphy_jobs_submitted_total'', ''calligraphy_jobs_completed_total'', ''calligraphy_jobs_failed_total'',
     ''calligraphy_jobs_retried_total'', ''calligraphy_jobs_dead_lettered_total'', ''calligraphy_jobs_cancelled_total'',
     ''calligraphy_job_duration_seconds'', ''calligraphy_job_e2e_duration_seconds'', ''calligraphy_claims_skipped_total'',
     ''calligraphy_writes_fenced_total'']"

definition gauge_names :: "string list" where
  "gauge_names =
    [''calligraphy_worker_active_jobs'', ''calligraphy_worker_target_concurrency'', ''calligraphy_worker_utilization'',
     ''calligraphy_worker_processed_total'']"

definition depth_names :: "string list" where
  "depth_names =
    [''calligraphy_queue_depth'', ''calligraphy_queue_delayed_depth'', ''calligraphy_queue_inflight'', ''calligraphy_queue_dlq_depth'']"

lemma names_plain: "list_all plain_name (meter_names @ gauge_names @ depth_names)"
  by code_simp

lemma labels_plain: "plain_name ''type''" "plain_name ''queue''" "plain_name ''priority''" "plain_name ''worker''" "plain_name ''state''"
  by code_simp+

lemma names_distinct: "distinct (meter_names @ gauge_names @ depth_names)"
  by code_simp

lemma names_ours: "list_all (\<lambda>s. hd s = CHR ''c'') (meter_names @ gauge_names @ depth_names)"
  by (simp add: meter_names_def gauge_names_def depth_names_def)

lemma instruments_names: "map (ds_Name \<circ> in_desc) (instruments (meters_New b1 b2)) = meter_names"
  by (simp add: instruments_def meters_New_def NewCounterVec_def NewHistogramVec_def NewDesc_def meter_names_def)

lemma gauges_names: "map (ds_Name \<circ> fst) (worker_gauges i p) = gauge_names"
  by (simp add: worker_gauges_def Let_def NewDesc_def gauge_names_def)

lemma Describe_names: "map ds_Name (Describe (NewDepthCollector q)) = depth_names"
  by (simp add: Describe_def NewDepthCollector_def Let_def NewDesc_def depth_names_def)

lemma instruments_ok: "i \<in> set (instruments (meters_New b1 b2)) \<Longrightarrow> desc_ok P (in_desc i)"
  using names_plain labels_plain
  by (auto simp: instruments_def meters_New_def NewCounterVec_def NewHistogramVec_def NewDesc_def desc_ok_def meter_names_def)

lemma gauges_ok: "pm_text P i \<Longrightarrow> x \<in> set (worker_gauges i p) \<Longrightarrow> desc_ok P (fst x)"
  using names_plain labels_plain
  by (auto simp: worker_gauges_def Let_def NewDesc_def desc_ok_def gauge_names_def)

text \<open>The bounds of the buckets: doubling, from a millisecond to a little over two minutes.\<close>

definition duration_buckets :: "rat list" where
  "duration_buckets = map (\<lambda>i. 1 / 1000 * 2 ^ i) [0..<18]"

lemma those_all: "list_all (\<lambda>x. \<exists>y. x = Some y \<and> Q y) xs \<Longrightarrow> \<exists>ys. those xs = Some ys \<and> list_all Q ys"
  by (induction xs) auto

lemma Depths_result: "fst (run_state (Depths R q) w) = Inr d \<Longrightarrow> \<exists>s. d = read_depths R q s"
  by (cases "w_faults w 0") (auto simp: Depths_def rcmd_def on_rd_def pop_fault_def pass_def wrap_err_def)

context prometheus_library
begin

lemma MustRegister_ok:
  assumes "list_all (desc_ok P) (concat cs)" and "distinct (map ds_Name (concat cs))"
    and "registered g \<inter> ds_Name ` set (concat cs) = {}"
  shows "\<exists>g'. meters_MustRegister P cs g = Some g' \<and> registered g' = registered g \<union> ds_Name ` set (concat cs)"
  using assms
proof (induction cs arbitrary: g)
  case (Cons c cs)
  from Cons.prems register_distinct [of c g] obtain g1
    where g1: "pm_Register P c g = Some g1" "registered g1 = registered g \<union> ds_Name ` set c" by auto
  have "registered g1 \<inter> ds_Name ` set (concat cs) = {}" using Cons.prems g1(2)
    by (simp add: Int_Un_distrib Int_Un_distrib2 image_Un del: set_concat)
  with Cons.IH [of g1] Cons.prems g1 show ?case by (auto simp: image_Un simp del: set_concat)
qed simp

lemma depths_ok: "list_all (desc_ok P) (Describe (NewDepthCollector q))"
  using names_plain labels_plain ascii_text [of "''ready''"]
  by (simp add: Describe_def NewDepthCollector_def Let_def NewDesc_def desc_ok_def depth_names_def)

lemma runtime_registered:
  obtains g1 g2 where "meters_MustRegister P [pm_GoCollector P] (pm_NewRegistry P) = Some g1" "meters_MustRegister P [pm_ProcessCollector P] g1 = Some g2"
    "\<And>s. s \<in> registered g2 \<Longrightarrow> hd s \<noteq> CHR ''c''"
proof -
  have go: "hd (ds_Name d) = CHR ''g''" if "d \<in> set (pm_GoCollector P)" for d
  proof -
    have "hd (take 3 (ds_Name d)) = CHR ''g''" using go_names that by (simp add: list_all_iff)
    then show ?thesis by simp
  qed
  have process: "hd (ds_Name d) = CHR ''p''" if "d \<in> set (pm_ProcessCollector P)" for d
  proof -
    have "hd (take 8 (ds_Name d)) = CHR ''p''" using process_names that by (simp add: list_all_iff)
    then show ?thesis by simp
  qed
  from MustRegister_ok [of "[pm_GoCollector P]" "pm_NewRegistry P"] go_descs new_empty obtain g1
    where g1: "meters_MustRegister P [pm_GoCollector P] (pm_NewRegistry P) = Some g1" "registered g1 = ds_Name ` set (pm_GoCollector P)" by auto
  have "registered g1 \<inter> ds_Name ` set (pm_ProcessCollector P) = {}" using go process unfolding g1(2) by fastforce
  with MustRegister_ok [of "[pm_ProcessCollector P]" g1] process_descs obtain g2
    where g2: "meters_MustRegister P [pm_ProcessCollector P] g1 = Some g2"
      "registered g2 = ds_Name ` set (pm_GoCollector P) \<union> ds_Name ` set (pm_ProcessCollector P)" using g1(2) by auto
  have "hd s \<noteq> CHR ''c''" if "s \<in> registered g2" for s using that go process unfolding g2(2) by auto
  with that g1(1) g2(1) show thesis by blast
qed

lemma Metrics_New_ok:
  obtains g where "Metrics_New P = Some (meters_New duration_buckets duration_buckets, g)"
    "set meter_names \<subseteq> registered g" "registered g \<inter> set (gauge_names @ depth_names) = {}"
proof -
  let ?ms = "meters_New duration_buckets duration_buckets" and ?cs = "map (\<lambda>i. [in_desc i]) (instruments (meters_New duration_buckets duration_buckets))"
  obtain g1 g2 where g: "meters_MustRegister P [pm_GoCollector P] (pm_NewRegistry P) = Some g1" "meters_MustRegister P [pm_ProcessCollector P] g1 = Some g2"
    and others: "\<And>s. s \<in> registered g2 \<Longrightarrow> hd s \<noteq> CHR ''c''" by (rule runtime_registered) blast
  have b: "pm_ExponentialBuckets P (1 / 1000) 2 18 = Some duration_buckets" using buckets [of "1 / 1000" 2 18] by (simp add: duration_buckets_def)
  have ours: "hd s = CHR ''c''" if "s \<in> set (meter_names @ gauge_names @ depth_names)" for s
    using names_ours that unfolding list_all_iff by blast
  have c: "concat ?cs = map in_desc (instruments ?ms)" by (simp add: concat_map_singleton)
  have n: "map ds_Name (concat ?cs) = meter_names" unfolding c using instruments_names by simp
  then have named: "ds_Name ` set (concat ?cs) = set meter_names" by (metis set_map)
  have "list_all (desc_ok P) (concat ?cs)" unfolding c list_all_iff using instruments_ok by auto
  moreover have "distinct (map ds_Name (concat ?cs))" using names_distinct unfolding n by simp
  moreover have "registered g2 \<inter> ds_Name ` set (concat ?cs) = {}" unfolding named using others ours by fastforce
  ultimately obtain g3 where g3: "meters_MustRegister P ?cs g2 = Some g3" "registered g3 = registered g2 \<union> set meter_names"
    using MustRegister_ok [of ?cs g2] named by auto
  have "Metrics_New P = Some (?ms, g3)" unfolding Metrics_New_def g Option.bind.simps b g3(1) by simp
  moreover have "registered g3 \<inter> set (gauge_names @ depth_names) = {}"
    unfolding g3(2) using others ours names_distinct by fastforce
  ultimately show thesis using that g3(2) by blast
qed

lemma api_meters_ok:
  "\<exists>g. api_meters P q = Some (meters_New duration_buckets duration_buckets, g) \<and> set (meter_names @ depth_names) \<subseteq> registered g"
proof -
  obtain g where g: "Metrics_New P = Some (meters_New duration_buckets duration_buckets, g)" "set meter_names \<subseteq> registered g"
    "registered g \<inter> set (gauge_names @ depth_names) = {}" by (rule Metrics_New_ok)
  have named: "ds_Name ` set (Describe (NewDepthCollector q)) = set depth_names" by (metis Describe_names set_map)
  have "distinct (map ds_Name (Describe (NewDepthCollector q)))" using names_distinct unfolding Describe_names by simp
  then obtain g' where "meters_MustRegister P [Describe (NewDepthCollector q)] g = Some g'" "registered g' = registered g \<union> set depth_names"
    using MustRegister_ok [of "[Describe (NewDepthCollector q)]" g] depths_ok [of q] g(3) named by auto
  with g show ?thesis by (auto simp: api_meters_def)
qed

lemma worker_meters_ok:
  assumes "pm_text P workerID"
  shows "\<exists>g. worker_meters P workerID p = Some (meters_New duration_buckets duration_buckets, g)
    \<and> set (meter_names @ gauge_names) \<subseteq> registered g"
proof -
  let ?cs = "map (\<lambda>x. [fst x]) (worker_gauges workerID p)"
  obtain g where g: "Metrics_New P = Some (meters_New duration_buckets duration_buckets, g)" "set meter_names \<subseteq> registered g"
    "registered g \<inter> set (gauge_names @ depth_names) = {}" by (rule Metrics_New_ok)
  have c: "concat ?cs = map fst (worker_gauges workerID p)" by (simp add: concat_map_singleton)
  have n: "map ds_Name (concat ?cs) = gauge_names" unfolding c using gauges_names by simp
  then have named: "ds_Name ` set (concat ?cs) = set gauge_names" by (metis set_map)
  have "list_all (desc_ok P) (concat ?cs)" unfolding c list_all_iff using gauges_ok [OF assms] by auto
  moreover have "distinct (map ds_Name (concat ?cs))" using names_distinct unfolding n by simp
  ultimately obtain g' where "meters_MustRegister P ?cs g = Some g'" "registered g' = registered g \<union> set gauge_names"
    using MustRegister_ok [of ?cs g] g(3) named by auto
  with g show ?thesis by (auto simp: worker_meters_def RegisterWorkerGauges_def)
qed

lemma WithLabelValues_ok:
  "i \<in> set (instruments (meters_New b1 b2)) \<Longrightarrow> length vs = length (ds_Labels (in_desc i)) \<Longrightarrow> list_all (pm_text P) vs \<Longrightarrow>
    WithLabelValues P (i, vs) = Some vs"
  by (simp add: WithLabelValues_def accepts instruments_ok)

lemma Collect_ok:
  assumes "pm_text P (k_queue q)"
  shows "\<exists>xs. fst (run_state (Collect P R (NewDepthCollector q)) w) = Some xs \<and> fst ` set xs \<subseteq> set (Describe (NewDepthCollector q))"
proof -
  have prio: "pm_text P p" if "p \<in> set PriorityOrder" for p
    using that by (intro ascii_text) (auto simp: PriorityOrder_def PriorityHigh_def PriorityDefault_def PriorityLow_def)
  let ?c = "NewDepthCollector q"
  have ok: "desc_ok P d" if "d \<in> set (Describe ?c)" for d using depths_ok that by (simp add: list_all_iff)
  have labels: "length (ds_Labels (dc_descReady ?c)) = Suc (Suc 0)" "length (ds_Labels (dc_descDelayed ?c)) = Suc (Suc 0)"
    "length (ds_Labels (dc_descInflight ?c)) = Suc 0" "length (ds_Labels (dc_descDLQ ?c)) = Suc 0" "dc_Q ?c = q"
    by (simp_all add: NewDepthCollector_def Let_def NewDesc_def)
  have taken: "MustNewConstMetric P d v vs = Some (d, v, vs)"
    if "d \<in> set (Describe ?c)" "length vs = length (ds_Labels d)" "list_all (pm_text P) vs" for d v vs
    using accepts [OF ok [OF that(1)] that(2,3)] by (simp add: MustNewConstMetric_def)
  have samples: "MustNewConstMetric P (dc_descReady ?c) v [k_queue q, p] = Some (dc_descReady ?c, v, [k_queue q, p])"
    "MustNewConstMetric P (dc_descDelayed ?c) v [k_queue q, p] = Some (dc_descDelayed ?c, v, [k_queue q, p])"
    "MustNewConstMetric P (dc_descInflight ?c) v [k_queue q] = Some (dc_descInflight ?c, v, [k_queue q])"
    "MustNewConstMetric P (dc_descDLQ ?c) v [k_queue q] = Some (dc_descDLQ ?c, v, [k_queue q])"
    if "p \<in> set PriorityOrder" for v p
    by (rule taken; simp add: Describe_def labels assms prio [OF that])+
  obtain r w1 where r: "run_state (Depths R q) w = (r, w1)" by fastforce
  show ?thesis
  proof (cases r)
    case (Inl e)
    with r show ?thesis by (simp add: Collect_def labels pass_def)
  next
    case (Inr d)
    with r obtain s where "d = read_depths R q s" using Depths_result [of R q w d] by auto
    then have d: "list_all (\<lambda>x. fst x \<in> set PriorityOrder) (dp_Ready d @ dp_Delayed d)"
      by (auto simp: read_depths_def Let_def list_all_iff)
    let ?xs = "map (\<lambda>(p, n). MustNewConstMetric P (dc_descReady ?c) n [k_queue q, p]) (dp_Ready d)
            @ map (\<lambda>(p, n). MustNewConstMetric P (dc_descDelayed ?c) n [k_queue q, p]) (dp_Delayed d)
            @ [MustNewConstMetric P (dc_descInflight ?c) (dp_InFlight d) [k_queue q],
               MustNewConstMetric P (dc_descDLQ ?c) (dp_DLQ d) [k_queue q]]"
    have members: "dc_descReady ?c \<in> set (Describe ?c)" "dc_descDelayed ?c \<in> set (Describe ?c)"
      "dc_descInflight ?c \<in> set (Describe ?c)" "dc_descDLQ ?c \<in> set (Describe ?c)" by (simp_all add: Describe_def)
    have "PriorityHigh \<in> set PriorityOrder" by (simp add: PriorityOrder_def)
    note rest = samples(3,4) [OF this]
    have "list_all (\<lambda>x. \<exists>y. x = Some y \<and> fst y \<in> set (Describe ?c)) ?xs"
      using d by (auto simp: list.pred_map comp_def members rest samples elim!: list.pred_mono_strong)
    from those_all [OF this] obtain ys where "those ?xs = Some ys" "list_all (\<lambda>y. fst y \<in> set (Describe ?c)) ys" by (elim exE conjE)
    then show ?thesis using r Inr by (auto simp: Collect_def labels pass_def Let_def list_all_iff)
  qed
qed

lemma Observer_call_ok:
  assumes "list_all (pm_text P) (concat (map snd (observer_labels (meters_New b1 b2) n)))"
  shows "Observer_call P (meters_New b1 b2) n m = Some (observe n m)"
proof -
  let ?ms = "meters_New b1 b2"
  have "list_all (\<lambda>(i, vs). i \<in> set (instruments ?ms) \<and> length vs = length (ds_Labels (in_desc i))) (observer_labels ?ms n)"
    by (cases n) (simp_all add: instruments_def, simp_all add: meters_New_def NewCounterVec_def NewHistogramVec_def NewDesc_def)
  with assms have "list_all (\<lambda>x. \<exists>y. x = Some y \<and> True) (map (WithLabelValues P) (observer_labels ?ms n))"
    using WithLabelValues_ok [of _ b1 b2] by (auto simp: list_all_iff)
  then show ?thesis using those_all [of "\<lambda>_. True"] by (fastforce simp: Observer_call_def)
qed

lemma count_submission_ok:
  assumes "pm_text P ty" and "pm_text P qn"
  shows "\<exists>m'. count_submission P (Some (meters_New b1 b2)) ty qn m = Some m'
    \<and> mt_JobsSubmitted m' (ty, qn) = Suc (mt_JobsSubmitted m (ty, qn))"
proof -
  have "WithLabelValues P (ms_JobsSubmitted (meters_New b1 b2), [ty, qn]) = Some [ty, qn]"
    by (rule WithLabelValues_ok [of _ b1 b2])
      (use assms in \<open>simp_all add: instruments_def meters_New_def NewCounterVec_def NewDesc_def\<close>)
  then show ?thesis by (simp add: count_submission_def)
qed

end

text \<open>A name the dashboard asks for is a name of ours, or the buckets of a histogram.\<close>

lemma dashboard_names:
  assumes "s \<in> set dashboard_series"
  shows "s \<in> set (meter_names @ gauge_names @ depth_names)
    \<or> (\<exists>i \<in> set (instruments (meters_New duration_buckets duration_buckets)).
        in_Buckets i \<noteq> [] \<and> ds_Name (in_desc i) \<in> set meter_names \<and> s = ds_Name (in_desc i) @ ''_bucket'')"
proof -
  let ?ms = "meters_New duration_buckets duration_buckets"
  have h: "ms_ExecDuration ?ms \<in> set (instruments ?ms)" "ms_E2EDuration ?ms \<in> set (instruments ?ms)"
    "in_Buckets (ms_ExecDuration ?ms) \<noteq> []" "in_Buckets (ms_E2EDuration ?ms) \<noteq> []"
    "ds_Name (in_desc (ms_ExecDuration ?ms)) = ''calligraphy_job_duration_seconds''"
    "ds_Name (in_desc (ms_E2EDuration ?ms)) = ''calligraphy_job_e2e_duration_seconds''"
    by (simp_all add: instruments_def meters_New_def NewHistogramVec_def NewDesc_def duration_buckets_def)
  have m: "''calligraphy_job_duration_seconds'' \<in> set meter_names" "''calligraphy_job_e2e_duration_seconds'' \<in> set meter_names"
    by code_simp+
  have "list_all (\<lambda>s. s \<in> set (meter_names @ gauge_names @ depth_names) \<or> s = ''calligraphy_job_duration_seconds'' @ ''_bucket''
      \<or> s = ''calligraphy_job_e2e_duration_seconds'' @ ''_bucket'') dashboard_series" by code_simp
  with assms have "s \<in> set (meter_names @ gauge_names @ depth_names) \<or> s = ''calligraphy_job_duration_seconds'' @ ''_bucket''
      \<or> s = ''calligraphy_job_e2e_duration_seconds'' @ ''_bucket''" unfolding list_all_iff by blast
  with h m show ?thesis by metis
qed

section \<open>An implementation of the library's contract\<close>

text \<open>
  A registry as the list of its descriptors, with the documented check that two descriptors of one name agree in their help
  and label names and differ in the values of their constant labels.
\<close>

definition mem_compatible :: "desc \<Rightarrow> desc \<Rightarrow> bool" where
  "mem_compatible d e =
    (ds_Name d = ds_Name e \<longrightarrow> ds_Help d = ds_Help e \<and> ds_Labels d = ds_Labels e
       \<and> map fst (ds_ConstLabels d) = map fst (ds_ConstLabels e) \<and> map snd (ds_ConstLabels d) \<noteq> map snd (ds_ConstLabels e))"

fun mem_Register :: "desc list \<Rightarrow> desc list \<Rightarrow> desc list option" where
  "mem_Register [] g = Some g"
| "mem_Register (d # ds) g = (if list_all (mem_compatible d) g then mem_Register ds (g @ [d]) else None)"

definition ascii_only :: "string \<Rightarrow> bool" where
  "ascii_only s = list_all (\<lambda>c. of_char c < (128 :: nat)) s"

definition prometheus_mem :: "desc list prometheus" where
  "prometheus_mem =
    \<lparr> pm_NewRegistry = [], pm_Register = mem_Register,
      pm_GoCollector = [NewDesc ''go_goroutines'' ''Number of goroutines that currently exist.'' [] [],
        NewDesc ''go_info'' ''Information about the Go environment.'' [] [(''version'', ''go1'')]],
      pm_ProcessCollector = [NewDesc ''process_open_fds'' ''Number of open file descriptors.'' [] []],
      pm_ExponentialBuckets = (\<lambda>start factor count.
        if 0 < start \<and> 1 < factor \<and> 0 < count then Some (map (\<lambda>i. start * factor ^ i) [0..<nat count]) else None),
      pm_accepts = (\<lambda>d vs. length vs = length (ds_Labels d) \<and> list_all ascii_only vs),
      pm_text = ascii_only \<rparr>"

lemma mem_Register_distinct:
  "distinct (map ds_Name ds) \<Longrightarrow> ds_Name ` set g \<inter> ds_Name ` set ds = {} \<Longrightarrow> mem_Register ds g = Some (g @ ds)"
proof (induction ds arbitrary: g)
  case (Cons d ds)
  then have "list_all (mem_compatible d) g" by (force simp: list_all_iff mem_compatible_def)
  with Cons show ?case by auto
qed simp

interpretation prom: prometheus_library prometheus_mem "\<lambda>g. ds_Name ` set g"
proof unfold_locales
  fix ds g :: "desc list"
  assume "distinct (map ds_Name ds)" and "ds_Name ` set g \<inter> ds_Name ` set ds = {}"
  from mem_Register_distinct [OF this]
  show "\<exists>g'. pm_Register prometheus_mem ds g = Some g' \<and> ds_Name ` set g' = ds_Name ` set g \<union> ds_Name ` set ds"
    by (auto simp: prometheus_mem_def)
next
  show "list_all (desc_ok prometheus_mem) (pm_GoCollector prometheus_mem)" by code_simp
  show "list_all (desc_ok prometheus_mem) (pm_ProcessCollector prometheus_mem)" by code_simp
qed (auto simp: prometheus_mem_def NewDesc_def ascii_only_def)

section \<open>The metrics never take a process down\<close>

text \<open>
  C39. No metric panics. With the documented behaviour of the client library and a worker identifier and queue name in valid UTF-8, the start of
  the API and of a worker register every series without a panic; each notification of the runner
  whose job type is valid text and each accepted submission only advances its counters; a scrape of
  the queue depths sends only samples of described series, or none when Redis does not answer. The dashboard
  asks for no name that neither process has: each is the name of a series one of them registers, or the
  buckets of a histogram that it registers (a counter or histogram with labels shows up in a scrape only once
  label values have been used). The durations are counted in the
  same eighteen buckets, so that the gap between execution and end-to-end time can be read off.
\<close>

theorem metrics_never_panic:
  assumes "prometheus_library P registered" and "pm_text P workerID" and "pm_text P (k_queue q)"
  shows "\<exists>ms ga gw. api_meters P q = Some (ms, ga) \<and> worker_meters P workerID p = Some (ms, gw)
    \<and> (\<forall>s \<in> set dashboard_series. s \<in> registered ga \<union> registered gw
        \<or> (\<exists>i \<in> set (instruments ms). in_Buckets i \<noteq> [] \<and> ds_Name (in_desc i) \<in> registered ga \<and> ds_Name (in_desc i) \<in> registered gw
             \<and> s = ds_Name (in_desc i) @ ''_bucket''))
    \<and> in_Buckets (ms_ExecDuration ms) = duration_buckets \<and> in_Buckets (ms_E2EDuration ms) = duration_buckets
    \<and> (\<forall>n m. list_all (pm_text P) (concat (map snd (observer_labels ms n))) \<longrightarrow> Observer_call P ms n m = Some (observe n m))
    \<and> (\<forall>ty qn m. pm_text P ty \<and> pm_text P qn \<longrightarrow>
        (\<exists>m'. count_submission P (Some ms) ty qn m = Some m' \<and> mt_JobsSubmitted m' (ty, qn) = Suc (mt_JobsSubmitted m (ty, qn))))
    \<and> (\<forall>w. \<exists>xs. fst (run_state (Collect P R (NewDepthCollector q)) w) = Some xs
        \<and> fst ` set xs \<subseteq> set (Describe (NewDepthCollector q)))"
proof -
  let ?ms = "meters_New duration_buckets duration_buckets"
  note lib = prometheus_library.api_meters_ok [OF assms(1), of q] prometheus_library.worker_meters_ok [OF assms(1,2), of p]
  from lib obtain ga gw where g: "api_meters P q = Some (?ms, ga)" "set (meter_names @ depth_names) \<subseteq> registered ga"
    "worker_meters P workerID p = Some (?ms, gw)" "set (meter_names @ gauge_names) \<subseteq> registered gw" by blast
  have "set (meter_names @ gauge_names @ depth_names) \<subseteq> registered ga \<union> registered gw"
    "set meter_names \<subseteq> registered ga" "set meter_names \<subseteq> registered gw" using g(2,4) by auto
  then have dashboard: "\<forall>s \<in> set dashboard_series. s \<in> registered ga \<union> registered gw
        \<or> (\<exists>i \<in> set (instruments ?ms). in_Buckets i \<noteq> [] \<and> ds_Name (in_desc i) \<in> registered ga \<and> ds_Name (in_desc i) \<in> registered gw
             \<and> s = ds_Name (in_desc i) @ ''_bucket'')"
    using dashboard_names by blast
  have buckets: "in_Buckets (ms_ExecDuration ?ms) = duration_buckets" "in_Buckets (ms_E2EDuration ?ms) = duration_buckets"
    by (simp_all add: meters_New_def NewHistogramVec_def)
  have observer: "\<forall>n m. list_all (pm_text P) (concat (map snd (observer_labels ?ms n))) \<longrightarrow> Observer_call P ?ms n m = Some (observe n m)"
    using prometheus_library.Observer_call_ok [OF assms(1)] by blast
  have submissions: "\<forall>ty qn m. pm_text P ty \<and> pm_text P qn \<longrightarrow>
      (\<exists>m'. count_submission P (Some ?ms) ty qn m = Some m' \<and> mt_JobsSubmitted m' (ty, qn) = Suc (mt_JobsSubmitted m (ty, qn)))"
    using prometheus_library.count_submission_ok [OF assms(1)] by blast
  show ?thesis
    by (intro exI conjI; (rule g(1) g(3) dashboard buckets observer submissions allI [OF prometheus_library.Collect_ok [OF assms(1,3)]])?)
qed

theorem metrics_never_panic_witness:
  "\<exists>ms ga gw. api_meters prometheus_mem demo_queue = Some (ms, ga) \<and> worker_meters prometheus_mem ''w1'' (NewPool 4 8) = Some (ms, gw)
    \<and> Observer_call prometheus_mem ms (JobFailed ''mail'') metrics_New = Some (observe (JobFailed ''mail'') metrics_New)"
proof -
  have "pm_text prometheus_mem ''w1''" "pm_text prometheus_mem (k_queue demo_queue)"
    by (simp_all add: prometheus_mem_def ascii_only_def demo_queue_def queue_New_def DefaultQueue_def)
  from metrics_never_panic [OF prom.prometheus_library_axioms this, of "NewPool 4 8" redis_mem] obtain ms ga gw
    where m: "api_meters prometheus_mem demo_queue = Some (ms, ga)" "worker_meters prometheus_mem ''w1'' (NewPool 4 8) = Some (ms, gw)"
      and n: "\<And>n m. list_all (pm_text prometheus_mem) (concat (map snd (observer_labels ms n))) \<Longrightarrow>
        Observer_call prometheus_mem ms n m = Some (observe n m)" by blast
  have "Observer_call prometheus_mem ms (JobFailed ''mail'') metrics_New = Some (observe (JobFailed ''mail'') metrics_New)"
    by (rule n) (simp add: prometheus_mem_def ascii_only_def)
  with m show ?thesis by blast
qed

end
