(* ===== verification/Middleware.thy ===== *)
theory Middleware
  imports Router Meters
begin

text \<open>
  What is wrapped around the routes of the API, \<^verbatim>\<open>Handler\<close>, \<^verbatim>\<open>recoverMW\<close>, \<^verbatim>\<open>logMW\<close> and \<^verbatim>\<open>statusRecorder\<close> of \<^verbatim>\<open>internal/api/server.go\<close>,
  and the counter of submissions. A handler writes to the response in order and may panic; the first
  header is the one the client gets.
\<close>

section \<open>Responses\<close>

datatype rw_event = WriteHeader int | WriteBody reply

datatype log_line = ApiLine string "string list" int int | PanicLine "string list" string

record exchange =
  ex_Writes :: "rw_event list"
  ex_Panic :: "string option"
  ex_Log :: "log_line list"

text \<open>The site and the values of its metrics.\<close>

type_synonym 'r metered = "'r site \<times> metrics"

fun client_status :: "rw_event list \<Rightarrow> int" where
  "client_status [] = 200"
| "client_status (WriteHeader n # ws) = n"
| "client_status (WriteBody _ # ws) = 200"

text \<open>\<^verbatim>\<open>statusRecorder\<close>: every header is noted and passed on.\<close>

fun recorded_status :: "int \<Rightarrow> rw_event list \<Rightarrow> int" where
  "recorded_status st [] = st"
| "recorded_status st (WriteHeader n # ws) = recorded_status n ws"
| "recorded_status st (WriteBody _ # ws) = recorded_status st ws"

definition write_reply :: "reply \<Rightarrow> rw_event list" where
  "write_reply x = [WriteHeader (reply_status x), WriteBody x]"

definition internal_error :: reply where
  "internal_error = ErrReply 500 ''internal_error'' ''Something went wrong.''"

section \<open>The middleware\<close>

definition recoverMW :: "request \<Rightarrow> ('r metered \<Rightarrow> exchange \<times> 'r metered) \<Rightarrow> 'r metered \<Rightarrow> exchange \<times> 'r metered" where
  "recoverMW rq next s =
    (case next s of (ex, s') \<Rightarrow>
       (case ex_Panic ex of
          None \<Rightarrow> (ex, s')
        | Some p \<Rightarrow>
            (ex\<lparr>ex_Writes := ex_Writes ex @ write_reply internal_error, ex_Panic := None,
                ex_Log := ex_Log ex @ [PanicLine (rq_Path rq) p]\<rparr>, s')))"

definition clock_now :: "'r metered \<Rightarrow> time \<times> 'r metered" where
  "clock_now s = (case run_state time_Now (st_world (fst s)) of (t, w) \<Rightarrow> (t, ((fst s)\<lparr>st_world := w\<rparr>, snd s)))"

text \<open>The line is written after the handler returns: a panic passes it by.\<close>

definition logMW :: "request \<Rightarrow> ('r metered \<Rightarrow> exchange \<times> 'r metered) \<Rightarrow> 'r metered \<Rightarrow> exchange \<times> 'r metered" where
  "logMW rq next s =
    (if rq_Path rq \<in> {[''healthz''], [''readyz''], [''metrics'']} then next s
     else
       case clock_now s of (start, s1) \<Rightarrow>
       case next s1 of (ex, s2) \<Rightarrow>
         (case ex_Panic ex of
            Some _ \<Rightarrow> (ex, s2)
          | None \<Rightarrow>
              (case clock_now s2 of (stop, s3) \<Rightarrow>
                 (ex\<lparr>ex_Log := ex_Log ex @ [ApiLine (rq_Method rq) (rq_Path rq) (recorded_status 200 (ex_Writes ex))
                      ((stop - start) div millisecond)]\<rparr>, s3))))"

text \<open>
  The routes, with the counter that \<^verbatim>\<open>handleSubmit\<close> advances for a created job just before it answers 201. No
  other answer to a submission has that status.
\<close>

definition submit_path :: "request \<Rightarrow> bool" where
  "submit_path rq = (rq_Method rq = ''POST'' \<and> rq_Path rq = [''api'', ''v1'', ''jobs''])"

fun created_job :: "reply \<Rightarrow> job option" where
  "created_job (Reply r) = (if rs_Status r = 201 then case rs_Body r of JobBody j \<Rightarrow> Some j | _ \<Rightarrow> None else None)"
| "created_job _ = None"

definition mux :: "'g prometheus \<Rightarrow> meters option \<Rightarrow> 'r deployment \<Rightarrow> string \<Rightarrow> request \<Rightarrow> 'r metered \<Rightarrow> exchange \<times> 'r metered" where
  "mux P ms u uuid rq s =
    (case run_state (serve_http (u\<lparr>se_meters := ms \<noteq> None\<rparr>) uuid rq) (fst s) of (x, s') \<Rightarrow>
     let done_with = (\<lambda>m. (\<lparr> ex_Writes = write_reply x, ex_Panic = None, ex_Log = [] \<rparr>, (s', m))) in
       (case (if submit_path rq then created_job x else None) of
          None \<Rightarrow> done_with (snd s)
        | Some j \<Rightarrow>
            (case count_submission P ms (j_Type j) (j_Queue j) (snd s) of
               None \<Rightarrow> (\<lparr> ex_Writes = [], ex_Panic = Some ''inconsistent labels'', ex_Log = [] \<rparr>, (s', snd s))
             | Some m \<Rightarrow> done_with m)))"

definition Handler :: "'g prometheus \<Rightarrow> meters option \<Rightarrow> 'r deployment \<Rightarrow> string \<Rightarrow> request \<Rightarrow> 'r metered \<Rightarrow> exchange \<times> 'r metered" where
  "Handler P ms u uuid rq = recoverMW rq (logMW rq (mux P ms u uuid rq))"

section \<open>What the middleware guarantees\<close>

text \<open>
  No panic leaves the handler. A handler that panics before it has written anything is answered 500, and
  the log has the panic but no line for the request; one that does not panic is answered as it wrote.
\<close>

lemma recoverMW_catches: "ex_Panic (fst (recoverMW rq next s)) = None"
  by (auto simp: recoverMW_def split: prod.split option.split)

lemma recoverMW_answer:
  assumes "next s = (ex, s')"
  shows "client_status (ex_Writes (fst (recoverMW rq next s)))
    = (if ex_Panic ex \<noteq> None \<and> ex_Writes ex = [] then 500 else client_status (ex_Writes ex))"
  using assms
  by (cases "ex_Writes ex" rule: client_status.cases)
    (auto simp: recoverMW_def write_reply_def internal_error_def split: option.split)

text \<open>The status of the log line is the client's when one header was written.\<close>

lemma recorded_write_reply: "recorded_status st (write_reply x) = client_status (write_reply x)"
  by (simp add: write_reply_def)

lemma mux_writes:
  "ex_Panic (fst (mux P ms u uuid rq s)) = None \<Longrightarrow> \<exists>x. ex_Writes (fst (mux P ms u uuid rq s)) = write_reply x \<and> ex_Log (fst (mux P ms u uuid rq s)) = []"
  by (auto simp: mux_def Let_def split: prod.splits option.splits if_splits)

lemma mux_panics:
  "ex_Panic (fst (mux P ms u uuid rq s)) \<noteq> None \<Longrightarrow> ex_Writes (fst (mux P ms u uuid rq s)) = [] \<and> ex_Log (fst (mux P ms u uuid rq s)) = []"
  by (auto simp: mux_def Let_def split: prod.splits option.splits if_splits)

text \<open>The whole handler: every request is answered, and it is logged with the status the client gets, or as a panic, exactly once.\<close>

lemma request_logged_once:
  assumes "rq_Path rq \<notin> {[''healthz''], [''readyz''], [''metrics'']}"
  shows "\<exists>line. ex_Log (fst (Handler P ms u uuid rq s)) = [line]
    \<and> (case line of
         ApiLine meth path st _ \<Rightarrow> meth = rq_Method rq \<and> path = rq_Path rq \<and> st = client_status (ex_Writes (fst (Handler P ms u uuid rq s)))
       | PanicLine path _ \<Rightarrow> path = rq_Path rq \<and> client_status (ex_Writes (fst (Handler P ms u uuid rq s))) = 500)"
proof -
  obtain start s1 where c: "clock_now s = (start, s1)" using prod.exhaust by blast
  obtain ex s2 where m: "mux P ms u uuid rq s1 = (ex, s2)" using prod.exhaust by blast
  obtain stop s3 where c2: "clock_now s2 = (stop, s3)" using prod.exhaust by blast
  show ?thesis
  proof (cases "ex_Panic ex")
    case None
    with mux_writes [of P ms u uuid rq s1] m obtain x where "ex_Writes ex = write_reply x" "ex_Log ex = []" by auto
    with None assms c m c2 show ?thesis by (simp add: Handler_def recoverMW_def logMW_def recorded_write_reply)
  next
    case (Some p)
    with mux_panics [of P ms u uuid rq s1] m have "ex_Writes ex = []" "ex_Log ex = []" by auto
    with Some assms c m show ?thesis by (simp add: Handler_def recoverMW_def logMW_def write_reply_def internal_error_def)
  qed
qed

end
