(* ===== verification/Analyzer.thy ===== *)
theory Analyzer
  imports Builtins "HOL-Library.Product_Lexorder" "HOL-Library.List_Lexorder" "HOL-Library.Sublist" Complex_Main
begin

text \<open>
  The text analysis of \<^verbatim>\<open>internal/handlers/articleanalysis\<close>. Text is a list of runes (code points): the
  payload comes out of a JSON decoder and is valid UTF-8. The tables of the package \<^verbatim>\<open>unicode\<close> are a
  parameter. Scores are exact: numbers of an ordered field, the rationals where the code only divides,
  the reals where it takes logarithms.
\<close>

section \<open>Runes\<close>

type_synonym rune = nat

record unicode =
  u_IsLetter :: "rune \<Rightarrow> bool"
  u_IsDigit :: "rune \<Rightarrow> bool"
  u_IsUpper :: "rune \<Rightarrow> bool"
  u_IsSpace :: "rune \<Rightarrow> bool"
  u_ToLower :: "rune \<Rightarrow> rune"

definition runes :: "string \<Rightarrow> rune list" where
  "runes s = map of_char s"

text \<open>The number of bytes of a rune in UTF-8, and the bytes.\<close>

definition utf8 :: "rune \<Rightarrow> nat list" where
  "utf8 r =
    (if r < 128 then [r]
     else if r < 2048 then [192 + r div 64, 128 + r mod 64]
     else if r < 65536 then [224 + r div 4096, 128 + r div 64 mod 64, 128 + r mod 64]
     else [240 + r div 262144, 128 + r div 4096 mod 64, 128 + r div 64 mod 64, 128 + r mod 64])"

definition bytes :: "rune list \<Rightarrow> nat list" where
  "bytes s = concat (map utf8 s)"

definition trim_right :: "(rune \<Rightarrow> bool) \<Rightarrow> rune list \<Rightarrow> rune list" where
  "trim_right p s = rev (dropWhile p (rev s))"

definition trim_space :: "unicode \<Rightarrow> rune list \<Rightarrow> rune list" where
  "trim_space U s = trim_right (u_IsSpace U) (dropWhile (u_IsSpace U) s)"

section \<open>Paragraphs and sentences\<close>

text \<open>The class \<^verbatim>\<open>\s\<close> of the regular expression, and the split at \<^verbatim>\<open>\n\s*\n\<close>.\<close>

definition re_space :: "rune \<Rightarrow> bool" where
  "re_space r = (r \<in> {9, 10, 12, 13, 32})"

function split_paragraphs :: "rune list \<Rightarrow> rune list \<Rightarrow> rune list list" where
  "split_paragraphs cur [] = [cur]"
| "split_paragraphs cur (r # rs) =
    (if r = 10 \<and> 10 \<in> set (takeWhile re_space rs)
     then cur # split_paragraphs [] (drop (length (trim_right (\<lambda>x. x \<noteq> 10) (takeWhile re_space rs))) rs)
     else split_paragraphs (cur @ [r]) rs)"
  by pat_completeness auto
termination by (relation "measure (\<lambda>(cur, rs). length rs)") auto

definition splitParagraphs :: "unicode \<Rightarrow> rune list \<Rightarrow> rune list list" where
  "splitParagraphs U s = filter (\<lambda>p. trim_space U p \<noteq> []) (split_paragraphs [] s)"

definition abbreviations :: "rune list list" where
  "abbreviations = map runes [''mr'', ''mrs'', ''ms'', ''dr'', ''prof'', ''sr'', ''jr'', ''st'', ''vs'', ''etc'', ''e.g'',
    ''i.e'', ''fig'', ''no'', ''vol'']"

definition terminator :: "rune \<Rightarrow> bool" where
  "terminator r = (r \<in> {46, 33, 63})"

definition blank :: "rune \<Rightarrow> bool" where
  "blank r = (r \<in> {32, 10, 9, 13})"

definition lastWord :: "rune list \<Rightarrow> rune list" where
  "lastWord s = rev (takeWhile (\<lambda>r. r \<notin> {32, 10, 9}) (rev (trim_right (\<lambda>r. r \<in> {46, 32}) s)))"

text \<open>\<^verbatim>\<open>flush\<close>, as the list of the sentences it appends.\<close>

definition flush_sentence :: "unicode \<Rightarrow> rune list \<Rightarrow> rune list list" where
  "flush_sentence U cur = (let s = trim_space U cur in if s = [] then [] else [s])"

text \<open>Is the period that ends \<open>cur\<close>, before \<open>rest\<close>, inside a word? \<^verbatim>\<open>TrimSuffix\<close> finds no period to cut.\<close>

definition inner_period :: "unicode \<Rightarrow> rune list \<Rightarrow> rune list \<Rightarrow> bool" where
  "inner_period U cur rest =
    (map (u_ToLower U) (lastWord cur) \<in> set abbreviations \<or> (rest \<noteq> [] \<and> u_IsDigit U (hd rest)))"

text \<open>Does a sentence end before \<open>rest\<close>? 8220 is the left double quotation mark.\<close>

definition sentence_follows :: "unicode \<Rightarrow> rune list \<Rightarrow> bool" where
  "sentence_follows U rest =
    (let after = dropWhile blank rest in
     after = [] \<or> (length after < length rest
       \<and> (u_IsUpper U (hd after) \<or> u_IsDigit U (hd after) \<or> hd after = 34 \<or> hd after = 8220)))"

function sentence_loop :: "unicode \<Rightarrow> rune list \<Rightarrow> rune list \<Rightarrow> rune list list" where
  "sentence_loop U cur [] = flush_sentence U cur"
| "sentence_loop U cur (r # rs) =
    (if \<not> terminator r then sentence_loop U (cur @ [r]) rs
     else let cur' = cur @ r # takeWhile terminator rs; rest = dropWhile terminator rs in
       if r = 46 \<and> inner_period U cur' rest then sentence_loop U cur' rest
       else if sentence_follows U rest then flush_sentence U cur' @ sentence_loop U [] rest
       else sentence_loop U cur' rest)"
  by pat_completeness auto
termination by (relation "measure (\<lambda>(U, cur, rs). length rs)") (auto simp: less_Suc_eq_le length_dropWhile_le)

definition splitSentences :: "unicode \<Rightarrow> rune list \<Rightarrow> rune list list" where
  "splitSentences U s = sentence_loop U [] s"

section \<open>Words\<close>

definition word_inner :: "rune \<Rightarrow> bool" where
  "word_inner r = (r = 39 \<or> r = 45)"

fun tokenize_loop :: "unicode \<Rightarrow> rune list \<Rightarrow> rune list \<Rightarrow> rune list list" where
  "tokenize_loop U cur [] = (if cur \<noteq> [] then [trim_right word_inner cur] else [])"
| "tokenize_loop U cur (r # rs) =
    (if u_IsLetter U r \<or> u_IsDigit U r then tokenize_loop U (cur @ [u_ToLower U r]) rs
     else if word_inner r \<and> cur \<noteq> [] then tokenize_loop U (cur @ [r]) rs
     else (if cur \<noteq> [] then [trim_right word_inner cur] else []) @ tokenize_loop U [] rs)"

definition tokenize :: "unicode \<Rightarrow> rune list \<Rightarrow> rune list list" where
  "tokenize U s = tokenize_loop U [] s"

definition is_vowel :: "nat \<Rightarrow> bool" where
  "is_vowel b = (b \<in> set (map of_char ''aeiouy''))"

fun vowel_groups :: "bool \<Rightarrow> nat list \<Rightarrow> nat" where
  "vowel_groups prev [] = 0"
| "vowel_groups prev (b # bs) = (if is_vowel b \<and> \<not> prev then 1 else 0) + vowel_groups (is_vowel b) bs"

definition has_suffix :: "nat list \<Rightarrow> string \<Rightarrow> bool" where
  "has_suffix w s = (length s \<le> length w \<and> drop (length w - length s) w = map of_char s)"

definition countSyllables :: "unicode \<Rightarrow> rune list \<Rightarrow> nat" where
  "countSyllables U word =
    (let w = bytes (map (u_ToLower U) word) in
     if length w \<le> 2 then 1
     else let count = vowel_groups False w;
              count = (if has_suffix w ''e'' \<and> \<not> has_suffix w ''le'' \<and> count > 1 then count - 1 else count)
          in if count = 0 then 1 else count)"

definition isNumeric :: "unicode \<Rightarrow> rune list \<Rightarrow> bool" where
  "isNumeric U s = (list_all (u_IsDigit U) s \<and> s \<noteq> [])"

text \<open>\<^verbatim>\<open>math.Round\<close> rounds halves away from zero.\<close>

definition round_away :: "'a :: floor_ceiling \<Rightarrow> 'a" where
  "round_away x = (if x < 0 then - of_int \<lfloor>- x + 1 / 2\<rfloor> else of_int \<lfloor>x + 1 / 2\<rfloor>)"

definition round1 :: "rat \<Rightarrow> rat" where
  "round1 f = round_away (f * 10) / 10"

section \<open>Language\<close>

text \<open>\<^verbatim>\<open>strings.Fields\<close> of a text without other white space than blanks.\<close>

definition wordSet :: "string \<Rightarrow> rune list list" where
  "wordSet s = map runes (filter (\<lambda>w. w \<noteq> []) (split_at CHR '' '' s))"

definition stopwordsEN :: "rune list list" where
  "stopwordsEN = wordSet
    (''the a an and or but if then else when while of to in on at by for with about as into from ''
    @ ''up down out off over under around again is are was were be been being have has had do ''
    @ ''does did will would can cannot could should must not no nor this that these those it its ''
    @ ''i you he she we they them his her their my your our me him us what which who whom where ''
    @ ''why how all any both each few more most other some such only own same so than too very ''
    @ ''just there here once during rather before after above below within without s t don now'')"

definition stopwordsES :: "rune list list" where
  "stopwordsES = wordSet
    (''el la los las un una unos unas y o pero si de del en a al por para con sobre como desde ''
    @ ''hasta es son era eran ser est'' @ [CHR 0xE1] @ '' est'' @ [CHR 0xE1] @ ''n fue fueron hay que no ni este esta estos estas ese ''
    @ ''esa eso aquellos yo t'' @ [CHR 0xFA] @ '' '' @ [CHR 0xE9] @ ''l ella nosotros ellos ellas su sus mi mis tu tus lo le les se me ''
    @ ''te nos os cuando donde porque qu'' @ [CHR 0xE9] @ '' c'' @ [CHR 0xF3] @ ''mo todo toda todos todas m'' @ [CHR 0xE1] @ ''s menos muy ya tambi'' @ [CHR 0xE9] @ ''n ''
    @ ''entre sin'')"

definition stopwordsFR :: "rune list list" where
  "stopwordsFR = wordSet
    (''le la les un une des et ou mais si de du en '' @ [CHR 0xE0] @ '' au aux par pour avec sur comme depuis est ''
    @ ''sont '' @ [CHR 0xE9] @ ''tait '' @ [CHR 0xE9] @ ''taient '' @ [CHR 0xEA] @ ''tre '' @ [CHR 0xE9] @ ''t'' @ [CHR 0xE9] @ '' a ont il elle nous vous ils elles son sa ses mon ma mes ton ''
    @ ''ta tes ce cette ces cela qui que quoi o'' @ [CHR 0xF9] @ '' quand pourquoi comment tout toute tous toutes ''
    @ ''plus moins tr'' @ [CHR 0xE8] @ ''s d'' @ [CHR 0xE9] @ ''j'' @ [CHR 0xE0] @ '' aussi entre sans dans ne pas'')"

definition stopwordsDE :: "rune list list" where
  "stopwordsDE = wordSet
    (''der die das ein eine einer eines dem den und oder aber wenn dann von zu in auf an bei f'' @ [CHR 0xFC] @ ''r ''
    @ ''mit '' @ [CHR 0xFC] @ ''ber unter als aus nach vor ist sind war waren sein gewesen hat haben hatte werden ''
    @ ''wird nicht kein keine dieser diese dieses jener ich du er sie wir ihr mein dein sein ihre ''
    @ ''was welche wer wo warum wie alle jeder mehr sehr auch zwischen ohne durch noch schon'')"

definition stopwords :: "string \<Rightarrow> rune list list" where
  "stopwords lang =
    (if lang = ''en'' then stopwordsEN else if lang = ''es'' then stopwordsES
     else if lang = ''fr'' then stopwordsFR else stopwordsDE)"

definition languages :: "string list" where
  "languages = [''en'', ''es'', ''fr'', ''de'']"

definition language_score :: "rune list list \<Rightarrow> string \<Rightarrow> nat" where
  "language_score words lang = length (filter (\<lambda>w. w \<in> set (stopwords lang)) words)"

text \<open>
  The vote. The map \<^verbatim>\<open>scores\<close> has the languages with a vote; \<open>order\<close> is the order in which Go happens to
  iterate over it.
\<close>

fun best_language :: "(string \<Rightarrow> nat) \<Rightarrow> string list \<Rightarrow> string \<times> nat \<Rightarrow> string \<times> nat" where
  "best_language score [] best = best"
| "best_language score (l # ls) best = best_language score ls (if score l > snd best then (l, score l) else best)"

definition detectLanguage :: "string list \<Rightarrow> rune list list \<Rightarrow> string" where
  "detectLanguage order words =
    (if length words < 10 then ''unknown''
     else let (best, n) = best_language (language_score words) order (''unknown'', 0)
          in if n * 100 < length words * 8 then ''unknown'' else best)"

definition iteration_order :: "rune list list \<Rightarrow> string list \<Rightarrow> bool" where
  "iteration_order words order = (distinct order \<and> set order = {l \<in> set languages. language_score words l > 0})"

section \<open>PageRank\<close>

definition damping :: "'a :: linordered_field" where "damping = 85 / 100"
definition iterations :: nat where "iterations = 30"
definition coocWindow :: nat where "coocWindow = 4"
definition maxGraphSentences :: nat where "maxGraphSentences = 600"
definition wordsPerMinute :: nat where "wordsPerMinute = 200"

text \<open>
  The adjacency of \<open>n\<close> nodes as a function; a pair without an edge has weight zero. One round computes every
  new rank from the old ones.
\<close>

definition outSum :: "nat \<Rightarrow> (nat \<Rightarrow> nat \<Rightarrow> 'a :: linordered_field) \<Rightarrow> nat \<Rightarrow> 'a" where
  "outSum n adj i = sum_list (map (adj i) [0 ..< n])"

definition pagerank_round :: "nat \<Rightarrow> (nat \<Rightarrow> nat \<Rightarrow> 'a :: linordered_field) \<Rightarrow> 'a list \<Rightarrow> 'a list" where
  "pagerank_round n adj rank =
    map (\<lambda>i. (1 - damping) / of_nat n
      + sum_list (map (\<lambda>j. if outSum n adj j = 0 then 0 else damping * rank ! j / outSum n adj j * adj j i) [0 ..< n]))
      [0 ..< n]"

definition pagerank :: "nat \<Rightarrow> (nat \<Rightarrow> nat \<Rightarrow> 'a :: linordered_field) \<Rightarrow> nat \<Rightarrow> 'a list" where
  "pagerank n adj iters = (pagerank_round n adj ^^ iters) (replicate n (1 / of_nat n))"

section \<open>Keywords\<close>

record keyword =
  kw_Term :: "rune list"
  kw_Score :: rat

definition keyword_candidate :: "unicode \<Rightarrow> rune list \<Rightarrow> bool" where
  "keyword_candidate U w = (\<not> (length (bytes w) < 3 \<or> w \<in> set stopwordsEN \<or> isNumeric U w))"

text \<open>The vocabulary, in order of first appearance, and the sequence of positions in it.\<close>

fun vocabulary :: "rune list list \<Rightarrow> rune list list \<Rightarrow> rune list list" where
  "vocabulary vocab [] = vocab"
| "vocabulary vocab (w # ws) = vocabulary (if w \<in> set vocab then vocab else vocab @ [w]) ws"

definition index_of :: "'a list \<Rightarrow> 'a \<Rightarrow> nat" where
  "index_of xs x = length (takeWhile (\<lambda>y. y \<noteq> x) xs)"

definition word_sequence :: "unicode \<Rightarrow> rune list list \<Rightarrow> rune list list \<Rightarrow> nat option list" where
  "word_sequence U vocab words = map (\<lambda>w. if keyword_candidate U w then Some (index_of vocab w) else None) words"

text \<open>
  The weight of an edge: the pairs of positions, at most the window apart, that hold its two words in either
  order.
\<close>

definition window_pairs :: "nat \<Rightarrow> (nat \<times> nat) list" where
  "window_pairs n = concat (map (\<lambda>i. map (Pair i) (filter (\<lambda>j. j \<le> i + coocWindow) [Suc i ..< n])) [0 ..< n])"

definition cooccurrence :: "nat option list \<Rightarrow> nat \<Rightarrow> nat \<Rightarrow> rat" where
  "cooccurrence seq a b =
    (if a = b then 0
     else of_nat (length (filter (\<lambda>(i, j). seq ! i = Some a \<and> seq ! j = Some b \<or> seq ! i = Some b \<and> seq ! j = Some a)
       (window_pairs (length seq)))))"

definition round4 :: "rat \<Rightarrow> rat" where
  "round4 x = round_away (x * 10000) / 10000"

definition keywordTextRank :: "unicode \<Rightarrow> rune list list \<Rightarrow> int \<Rightarrow> keyword list" where
  "keywordTextRank U words topK =
    (let k = (if topK \<le> 0 then 10 else topK);
         vocab = vocabulary [] (filter (keyword_candidate U) words);
         seq = word_sequence U vocab words;
         rank = pagerank (length vocab) (cooccurrence seq) iterations;
         kws = sort_key (\<lambda>w. (- kw_Score w, kw_Term w))
           (map (\<lambda>i. \<lparr> kw_Term = vocab ! i, kw_Score = rank ! i \<rparr>) [0 ..< length vocab])
     in map (\<lambda>w. w\<lparr>kw_Score := round4 (kw_Score w)\<rparr>) (take (nat k) kws))"

section \<open>Summary\<close>

definition sentence_set :: "unicode \<Rightarrow> rune list \<Rightarrow> rune list list" where
  "sentence_set U s = remdups (filter (\<lambda>w. length (bytes w) \<ge> 3 \<and> w \<notin> set stopwordsEN) (tokenize U s))"

definition similarity :: "rune list list list \<Rightarrow> nat \<Rightarrow> nat \<Rightarrow> real" where
  "similarity sets i j =
    (let overlap = length (filter (\<lambda>w. w \<in> set (sets ! j)) (sets ! i)) in
     if i = j \<or> overlap = 0 then 0
     else of_nat overlap / (ln (of_nat (length (sets ! i)) + 1) + ln (of_nat (length (sets ! j)) + 1)))"

text \<open>The indices picked by rank, in reading order; \<open>None\<close> when the slice is out of range, a panic in Go.\<close>

definition summary_picks :: "nat \<Rightarrow> real list \<Rightarrow> nat \<Rightarrow> nat list option" where
  "summary_picks n rank len =
    (if len > n then None else Some (sort (take len (sort_key (\<lambda>i. (- (rank ! i), i)) [0 ..< n]))))"

definition summaryTextRank :: "unicode \<Rightarrow> rune list list \<Rightarrow> int \<Rightarrow> rune list list option" where
  "summaryTextRank U sentences summaryLen =
    (let len = nat (if summaryLen \<le> 0 then 3 else summaryLen) in
     if sentences = [] then Some []
     else if length sentences \<le> len then Some sentences
     else let n = min (length sentences) maxGraphSentences;
              sets = map (sentence_set U) (take n sentences);
              rank = pagerank n (similarity sets) iterations
          in map_option (map ((!) sentences)) (summary_picks n rank len))"

section \<open>The analysis\<close>

record analysis =
  an_ArticleID :: "rune list"
  an_Language :: string
  an_Words :: nat
  an_Sentences :: nat
  an_Paragraphs :: nat
  an_ReadingTimeMinutes :: nat
  an_FleschReadingEase :: rat
  an_FleschKincaidGrade :: rat
  an_Keywords :: "keyword list"
  an_Summary :: "rune list list"

definition Analyze :: "unicode \<Rightarrow> string list \<Rightarrow> rune list \<Rightarrow> int \<Rightarrow> int \<Rightarrow> analysis option" where
  "Analyze U order s topKeywords summaryLen =
    (let paragraphs = splitParagraphs U s; sentences = splitSentences U s; words = tokenize U s;
         nw = length words; ns = length sentences;
         syl = sum_list (map (countSyllables U) words);
         wps = (of_nat nw :: rat) / of_nat ns; spw = of_nat syl / of_nat nw;
         scored = (nw > 0 \<and> ns > 0)
     in map_option (\<lambda>sm.
          \<lparr> an_ArticleID = [], an_Language = detectLanguage order words, an_Words = nw, an_Sentences = ns,
            an_Paragraphs = length paragraphs, an_ReadingTimeMinutes = (nw + wordsPerMinute - 1) div wordsPerMinute,
            an_FleschReadingEase = (if scored then round1 (206835 / 1000 - 1015 / 1000 * wps - 846 / 10 * spw) else 0),
            an_FleschKincaidGrade = (if scored then round1 (39 / 100 * wps + 118 / 10 * spw - 1559 / 100) else 0),
            an_Keywords = keywordTextRank U words topKeywords, an_Summary = sm \<rparr>)
        (summaryTextRank U sentences summaryLen))"

record article_payload =
  ap_ArticleID :: "rune list"
  ap_Text :: "rune list"
  ap_TopKeywords :: int
  ap_SummarySentences :: int

definition clamp_default :: "int \<Rightarrow> int \<Rightarrow> int \<Rightarrow> int" where
  "clamp_default d cap n = (let n = (if n \<le> 0 then d else n) in if n > cap then cap else n)"

text \<open>
  The handler. A panic of the analysis would be recovered by the runner; \<open>stopped\<close> is the context's error when
  it is looked at.
\<close>

definition article_handle ::
  "unicode \<Rightarrow> string list \<Rightarrow> (analysis \<Rightarrow> go_error + string) \<Rightarrow> go_error + article_payload \<Rightarrow> error \<Rightarrow> handler_exit"
where
  "article_handle U order encode_result payload stopped =
    (case payload of
       Inl e \<Rightarrow> Returned [] (Some (NonRetryableError (ErrorfW ''articleanalysis: bad payload: '' e)))
     | Inr p \<Rightarrow>
         if ap_Text p = [] then Returned [] (Some (permanent ''articleanalysis: payload.text is required''))
         else if stopped \<noteq> None then Returned [] stopped
         else case Analyze U order (ap_Text p) (clamp_default 10 50 (ap_TopKeywords p)) (clamp_default 3 10 (ap_SummarySentences p)) of
           None \<Rightarrow> Panicked ''slice bounds out of range''
         | Some a \<Rightarrow>
             (case encode_result (a\<lparr>an_ArticleID := ap_ArticleID p\<rparr>) of
                Inl e \<Rightarrow> Returned [] (Some (ErrorfW ''articleanalysis: encoding result: '' e))
              | Inr out \<Rightarrow> Returned out None))"

end
