(* ===== verification/Analyzer_Props.thy ===== *)
theory Analyzer_Props
  imports Analyzer "HOL-Library.Multiset"
begin

text \<open>
  What the analysis guarantees: no text is lost between sentences, ranks are a sub-probability, keywords and
  summary keep their limits and order; and where the result depends on the iteration order of a Go map.
\<close>

section \<open>Sentences\<close>

lemma filter_dropWhile: "(\<And>x. p x \<Longrightarrow> \<not> q x) \<Longrightarrow> filter q (dropWhile p xs) = filter q xs"
  by (induction xs) auto

lemma filter_trim_right: "(\<And>x. p x \<Longrightarrow> \<not> q x) \<Longrightarrow> filter q (trim_right p xs) = filter q xs"
  by (simp add: trim_right_def rev_filter [symmetric] filter_dropWhile)

lemma filter_trim_space: "filter (\<lambda>r. \<not> u_IsSpace U r) (trim_space U s) = filter (\<lambda>r. \<not> u_IsSpace U r) s"
  by (simp add: trim_space_def filter_trim_right filter_dropWhile)

lemma flush_sentence_text:
  "filter (\<lambda>r. \<not> u_IsSpace U r) (concat (flush_sentence U cur)) = filter (\<lambda>r. \<not> u_IsSpace U r) cur"
proof (cases "trim_space U cur = []")
  case True
  with filter_trim_space [of U cur] show ?thesis by (simp add: flush_sentence_def)
qed (simp add: flush_sentence_def filter_trim_space)

lemma sentence_loop_text:
  "filter (\<lambda>r. \<not> u_IsSpace U r) (concat (sentence_loop U cur rs)) = filter (\<lambda>r. \<not> u_IsSpace U r) (cur @ rs)"
proof (induction U cur rs rule: sentence_loop.induct)
  case (2 U cur r rs)
  have "filter (\<lambda>r. \<not> u_IsSpace U r) rs =
    filter (\<lambda>r. \<not> u_IsSpace U r) (takeWhile terminator rs) @ filter (\<lambda>r. \<not> u_IsSpace U r) (dropWhile terminator rs)"
    by (metis filter_append takeWhile_dropWhile_id)
  with 2 show ?case by (auto simp: Let_def flush_sentence_text)
qed (simp add: flush_sentence_text)

lemma flush_sentence_nonempty [simp]: "[] \<notin> set (flush_sentence U cur)"
  by (simp add: flush_sentence_def Let_def)

lemma sentence_loop_nonempty: "[] \<notin> set (sentence_loop U cur rs)"
  by (induction U cur rs rule: sentence_loop.induct) (auto simp: Let_def)

text \<open>
  Splitting into sentences loses no text: apart from white space, the sentences put together are the text,
  character by character and in order; and no sentence is empty.
\<close>

lemma sentences_keep_text:
  "filter (\<lambda>r. \<not> u_IsSpace U r) (concat (splitSentences U s)) = filter (\<lambda>r. \<not> u_IsSpace U r) s
    \<and> [] \<notin> set (splitSentences U s)"
  using sentence_loop_text [of U "[]" s] sentence_loop_nonempty [of U "[]" s] by (simp add: splitSentences_def)

section \<open>Ranks\<close>

lemma damping_range: "0 < (damping :: 'a :: linordered_field)" "(damping :: 'a :: linordered_field) < 1"
  by (simp_all add: damping_def)

lemma outSum_nonneg:
  assumes "\<And>i j. 0 \<le> adj i j"
  shows "0 \<le> outSum n adj i"
  unfolding outSum_def by (rule sum_list_nonneg) (use assms in auto)

lemma length_pagerank_round [simp]: "length (pagerank_round n adj rank) = n"
  by (simp add: pagerank_round_def)

definition rank_ok :: "nat \<Rightarrow> 'a :: linordered_field list \<Rightarrow> bool" where
  "rank_ok n rank = (length rank = n \<and> (\<forall>x \<in> set rank. 0 < x) \<and> sum_list rank \<le> 1)"

lemma rank_ok_round:
  fixes adj :: "nat \<Rightarrow> nat \<Rightarrow> 'a :: linordered_field"
  assumes "\<And>i j. 0 \<le> adj i j" and "0 < n" and "rank_ok n rank"
  shows "rank_ok n (pagerank_round n adj rank)"
proof -
  define share where "share j = (if outSum n adj j = 0 then 0 else damping * rank ! j / outSum n adj j)" for j
  have r: "0 < rank ! j" if "j < n" for j using assms(3) that by (simp add: rank_ok_def)
  have share: "0 \<le> share j" if "j < n" for j
    using outSum_nonneg [of adj n j] assms(1) less_imp_le [OF r [OF that]] less_imp_le [OF damping_range(1) [where 'a = 'a]]
    by (simp add: share_def)
  have e: "pagerank_round n adj rank = map (\<lambda>i. (1 - damping) / of_nat n + sum_list (map (\<lambda>j. share j * adj j i) [0 ..< n])) [0 ..< n]"
    unfolding pagerank_round_def share_def by (intro map_cong refl arg_cong2 [where f = "(+)"] arg_cong [where f = sum_list]) simp
  have base: "0 < (1 - damping) / (of_nat n :: 'a)" using assms(2) damping_range [where 'a = 'a] by (intro divide_pos_pos) simp_all
  have pos: "0 < (1 - damping) / of_nat n + sum_list (map (\<lambda>j. share j * adj j i) [0 ..< n])" for i
    using base share assms(1) by (intro add_pos_nonneg sum_list_nonneg) auto
  have inner: "(\<Sum>i = 0 ..< n. share j * adj j i) \<le> damping * rank ! j" if "j < n" for j
  proof -
    have "(\<Sum>i = 0 ..< n. share j * adj j i) = share j * outSum n adj j"
      by (simp add: outSum_def sum_list_distinct_conv_sum_set sum_distrib_left)
    also have "\<dots> \<le> damping * rank ! j"
      using r [OF that] damping_range [where 'a = 'a] by (simp add: share_def)
    finally show ?thesis .
  qed
  have "sum_list (pagerank_round n adj rank) = (\<Sum>i = 0 ..< n. (1 - damping) / of_nat n) + (\<Sum>i = 0 ..< n. \<Sum>j = 0 ..< n. share j * adj j i)"
    by (simp add: e sum_list_distinct_conv_sum_set sum.distrib)
  also have "(\<Sum>i = 0 ..< n. \<Sum>j = 0 ..< n. share j * adj j i) = (\<Sum>j = 0 ..< n. \<Sum>i = 0 ..< n. share j * adj j i)"
    by (rule sum.swap)
  also have "\<dots> \<le> (\<Sum>j = 0 ..< n. damping * rank ! j)" using inner by (intro sum_mono) simp
  also have "\<dots> = damping * sum_list rank"
    using assms(3) by (simp add: rank_ok_def sum_list_sum_nth sum_distrib_left)
  also have "\<dots> \<le> damping * 1" using assms(3) damping_range by (intro mult_left_mono) (auto simp: rank_ok_def intro: less_imp_le)
  finally have "sum_list (pagerank_round n adj rank) \<le> 1" using assms(2) by simp
  moreover have "\<forall>x \<in> set (pagerank_round n adj rank). 0 < x" using pos by (auto simp: e)
  ultimately show ?thesis by (simp add: rank_ok_def)
qed

lemma rank_ok_pagerank:
  fixes adj :: "nat \<Rightarrow> nat \<Rightarrow> 'a :: linordered_field"
  assumes "\<And>i j. 0 \<le> adj i j" and "0 < n"
  shows "rank_ok n (pagerank n adj iters)"
  unfolding pagerank_def
proof (induction iters)
  case 0
  show ?case using assms(2) by (simp add: rank_ok_def sum_list_replicate)
qed (simp add: rank_ok_round [OF assms])

lemma rank_ok_le_1:
  assumes "rank_ok n rank" and "x \<in> set rank"
  shows "x \<le> 1"
proof -
  have "x \<le> sum_list rank" using assms by (intro member_le_sum_list) (auto simp: rank_ok_def intro: less_imp_le)
  with assms show ?thesis by (simp add: rank_ok_def)
qed

section \<open>Keywords\<close>

lemma vocabulary_set:
  "distinct vocab \<Longrightarrow> distinct (vocabulary vocab ws) \<and> set (vocabulary vocab ws) = set vocab \<union> set ws"
proof (induction ws arbitrary: vocab)
  case (Cons w ws)
  from Cons.IH [of "if w \<in> set vocab then vocab else vocab @ [w]"] Cons.prems show ?case by (auto split: if_splits)
qed simp

lemma cooccurrence_nonneg: "0 \<le> cooccurrence seq a b"
  by (simp add: cooccurrence_def)

lemma round_away_mono: "0 \<le> x \<Longrightarrow> x \<le> y \<Longrightarrow> round_away x \<le> round_away y"
  by (simp add: round_away_def floor_mono)

lemma round4_range: "0 \<le> x \<Longrightarrow> x \<le> 1 \<Longrightarrow> 0 \<le> round4 x \<and> round4 x \<le> 1"
proof -
  assume x: "0 \<le> x" "x \<le> 1"
  have "round_away (x * 10000) \<le> round_away (10000 :: rat)" "round_away 0 \<le> round_away (x * 10000)"
    using x by (intro round_away_mono; simp)+
  moreover have "\<lfloor>1 / 2 :: rat\<rfloor> = 0" "\<lfloor>20001 / 2 :: rat\<rfloor> = 10000" by (simp_all add: floor_eq_iff)
  ultimately show ?thesis by (simp add: round4_def round_away_def [of 0] round_away_def [of 10000])
qed

lemma round4_mono: "0 \<le> x \<Longrightarrow> x \<le> y \<Longrightarrow> round4 x \<le> round4 y"
  using round_away_mono [of "x * 10000" "y * 10000"] by (simp add: round4_def divide_right_mono)

text \<open>The list before it is cut: scores in order, terms distinct.\<close>

lemma sorted_keywords:
  assumes "distinct vocab" and "length rank = length vocab"
  defines "kws \<equiv> sort_key (\<lambda>w. (- kw_Score w, kw_Term w)) (map (\<lambda>i. \<lparr> kw_Term = vocab ! i, kw_Score = (rank ! i :: rat) \<rparr>) [0 ..< length vocab])"
  shows "length kws = length vocab" "distinct (map kw_Term kws)" "set (map kw_Term kws) = set vocab"
    "set (map kw_Score kws) \<subseteq> set rank" "sorted_wrt (\<lambda>a b. kw_Score b \<le> kw_Score a) kws"
proof -
  let ?us = "map (\<lambda>i. \<lparr> kw_Term = vocab ! i, kw_Score = (rank ! i :: rat) \<rparr>) [0 ..< length vocab]"
  have m: "mset (map kw_Term kws) = mset vocab"
  proof -
    have "mset (map kw_Term kws) = mset (map kw_Term ?us)" by (simp only: kws_def mset_map mset_sort)
    also have "map kw_Term ?us = vocab" by (simp add: comp_def map_nth)
    finally show ?thesis .
  qed
  show "length kws = length vocab" by (simp add: kws_def)
  show "distinct (map kw_Term kws)" using m assms(1) by (metis mset_eq_imp_distinct_iff)
  show "set (map kw_Term kws) = set vocab" using m by (metis set_mset_mset)
  show "set (map kw_Score kws) \<subseteq> set rank" using assms(2) by (auto simp: kws_def)
  have "sorted (map (\<lambda>w. (- kw_Score w, kw_Term w)) kws)" by (simp add: kws_def)
  then have "sorted_wrt (\<lambda>a b. (- kw_Score a, kw_Term a) \<le> (- kw_Score b, kw_Term b)) kws" by (simp add: sorted_map)
  then show "sorted_wrt (\<lambda>a b. kw_Score b \<le> kw_Score a) kws" by (rule sorted_wrt_mono_rel [rotated]) auto
qed

lemma sorted_wrt_take: "sorted_wrt P xs \<Longrightarrow> sorted_wrt P (take n xs)"
  by (metis append_take_drop_id sorted_wrt_append)

text \<open>
  C33. Keywords. The list has the requested number of terms, or all there are; the terms are distinct words of the
  text that are long enough, no stop words and no numbers; their scores lie between zero and one and
  never increase along the list.
\<close>

theorem keywords_ranked:
  "length (keywordTextRank U words topK) =
      min (nat (if topK \<le> 0 then 10 else topK)) (card {w \<in> set words. keyword_candidate U w})
    \<and> distinct (map kw_Term (keywordTextRank U words topK))
    \<and> (\<forall>k \<in> set (keywordTextRank U words topK). kw_Term k \<in> set words \<and> keyword_candidate U (kw_Term k)
        \<and> 0 \<le> kw_Score k \<and> kw_Score k \<le> 1)
    \<and> sorted_wrt (\<lambda>a b. kw_Score b \<le> kw_Score a) (keywordTextRank U words topK)"
proof -
  define vocab where "vocab = vocabulary [] (filter (keyword_candidate U) words)"
  define rank where "rank = pagerank (length vocab) (cooccurrence (word_sequence U vocab words)) iterations"
  define kws where "kws = sort_key (\<lambda>w. (- kw_Score w, kw_Term w)) (map (\<lambda>i. \<lparr> kw_Term = vocab ! i, kw_Score = rank ! i \<rparr>) [0 ..< length vocab])"
  define k where "k = nat (if topK \<le> 0 then 10 else topK)"
  have e: "keywordTextRank U words topK = map (\<lambda>w. w\<lparr>kw_Score := round4 (kw_Score w)\<rparr>) (take k kws)"
    by (simp add: keywordTextRank_def Let_def vocab_def rank_def kws_def k_def)
  have v: "distinct vocab" "set vocab = {w \<in> set words. keyword_candidate U w}"
    using vocabulary_set [of "[]" "filter (keyword_candidate U) words"] by (auto simp: vocab_def)
  have len: "length rank = length vocab" and score: "\<forall>x \<in> set rank. 0 \<le> x \<and> x \<le> 1"
  proof -
    have "vocab = [] \<or> rank_ok (length vocab) rank"
      using rank_ok_pagerank [of "cooccurrence (word_sequence U vocab words)" "length vocab" iterations] cooccurrence_nonneg
      by (auto simp: rank_def)
    moreover have "rank = []" if "vocab = []"
    proof -
      have "(pagerank_round 0 adj ^^ m) [] = []" for adj :: "nat \<Rightarrow> nat \<Rightarrow> rat" and m
        by (induction m) (simp_all add: pagerank_round_def)
      with that show ?thesis by (simp add: rank_def pagerank_def)
    qed
    ultimately show "length rank = length vocab" "\<forall>x \<in> set rank. 0 \<le> x \<and> x \<le> 1"
      using rank_ok_le_1 by (auto simp: rank_ok_def intro: less_imp_le)
  qed
  note kw = sorted_keywords [OF v(1) len, folded kws_def]
  have sub: "set (take k kws) \<subseteq> set kws" by (rule set_take_subset)
  have range: "0 \<le> kw_Score w \<and> kw_Score w \<le> 1" if "w \<in> set (take k kws)" for w using that sub kw(4) score by auto
  have "length vocab = card {w \<in> set words. keyword_candidate U w}" using v by (metis distinct_card)
  then have "length (keywordTextRank U words topK) = min k (card {w \<in> set words. keyword_candidate U w})"
    by (simp add: e kw(1) min.commute)
  moreover have "distinct (map kw_Term (keywordTextRank U words topK))"
    using kw(2) by (simp add: e comp_def take_map [symmetric] distinct_take)
  moreover have "kw_Term w \<in> set words \<and> keyword_candidate U (kw_Term w)" if "w \<in> set (take k kws)" for w
    using that sub kw(3) v(2) by auto
  moreover have "sorted_wrt (\<lambda>a b. round4 (kw_Score b) \<le> round4 (kw_Score a)) (take k kws)"
    by (rule sorted_wrt_mono_rel [OF _ sorted_wrt_take [OF kw(5), of k]]) (use range round4_mono in blast)
  ultimately show ?thesis using range round4_range by (auto simp: e k_def sorted_wrt_map)
qed

section \<open>The summary\<close>

lemma sorted_subseq_upt:
  assumes "sorted is" and "distinct is" and "set is \<subseteq> {0 ..< n}"
  shows "subseq is [0 ..< n]"
proof -
  have "set (filter (\<lambda>i. i \<in> set is) [0 ..< n]) = set is" using assms(3) by auto
  then have "is = filter (\<lambda>i. i \<in> set is) [0 ..< n]"
    using assms(1,2) by (intro sorted_distinct_set_unique) (simp_all add: sorted_wrt_filter)
  then show ?thesis by (metis subseq_filter_left)
qed

lemma summary_picks_Some:
  assumes "summary_picks n rank len = Some is"
  shows "length is = len" "sorted is" "distinct is" "set is \<subseteq> {0 ..< n}"
proof -
  have l: "len \<le> n" and i: "is = sort (take len (sort_key (\<lambda>i. (- (rank ! i), i)) [0 ..< n]))"
    using assms by (auto simp: summary_picks_def split: if_splits)
  show "length is = len" using l by (simp add: i)
  show "sorted is" by (simp add: i)
  show "distinct is" by (simp add: i distinct_take distinct_sort)
  have "set is = set (take len (sort_key (\<lambda>i. (- (rank ! i), i)) [0 ..< n]))" by (simp add: i)
  also have "\<dots> \<subseteq> {0 ..< n}" using set_take_subset by fastforce
  finally show "set is \<subseteq> {0 ..< n}" .
qed

lemma summary_reading_order:
  assumes "summaryLen \<le> 600"
  shows "\<exists>out. summaryTextRank U sentences summaryLen = Some out \<and> subseq out sentences
    \<and> length out = min (nat (if summaryLen \<le> 0 then 3 else summaryLen)) (length sentences)"
proof -
  define len where "len = nat (if summaryLen \<le> 0 then 3 else summaryLen)"
  show ?thesis
  proof (cases "length sentences \<le> len")
    case True
    then show ?thesis by (auto simp: summaryTextRank_def Let_def len_def)
  next
    case False
    define n where "n = min (length sentences) maxGraphSentences"
    define rank where "rank = pagerank n (similarity (map (sentence_set U) (take n sentences))) iterations"
    have "len \<le> n" using False assms by (auto simp: n_def maxGraphSentences_def len_def)
    then obtain "is" where i: "summary_picks n rank len = Some is" by (simp add: summary_picks_def)
    note p = summary_picks_Some [OF i]
    have "subseq is [0 ..< length sentences]" using p(2-4) by (intro sorted_subseq_upt) (auto simp: n_def)
    then have "subseq (map ((!) sentences) is) sentences"
      using subseq_map [of "is" "[0 ..< length sentences]" "(!) sentences"] by (simp add: map_nth)
    moreover have "summaryTextRank U sentences summaryLen = Some (map ((!) sentences) is)"
      using False i by (auto simp: summaryTextRank_def Let_def len_def n_def rank_def)
    ultimately show ?thesis using p(1) False by (auto simp: len_def)
  qed
qed

lemma clamp_default_range: "1 \<le> d \<Longrightarrow> d \<le> cap \<Longrightarrow> 1 \<le> clamp_default d cap n \<and> clamp_default d cap n \<le> cap"
  by (simp add: clamp_default_def Let_def)

text \<open>
  C32. The handler never panics and keeps its limits. For every text and every requested size the analysis succeeds:
  at most 50 keywords; a summary of one to ten sentences (all of them if there are no more), which are
  sentences of the text in reading order; and a reading time that is the number of words at 200 a
  minute, rounded up.
\<close>

theorem article_limits:
  "\<exists>a. Analyze U order s (clamp_default 10 50 k) (clamp_default 3 10 m) = Some a
    \<and> length (an_Keywords a) \<le> 50
    \<and> subseq (an_Summary a) (splitSentences U s)
    \<and> length (an_Summary a) = min (nat (clamp_default 3 10 m)) (length (splitSentences U s))
    \<and> 1 \<le> clamp_default 3 10 m \<and> clamp_default 3 10 m \<le> 10
    \<and> an_Words a \<le> 200 * an_ReadingTimeMinutes a \<and> 200 * an_ReadingTimeMinutes a < an_Words a + 200
    \<and> (\<forall>v. article_handle U order encode_result (Inr \<lparr> ap_ArticleID = i, ap_Text = s, ap_TopKeywords = k,
          ap_SummarySentences = m \<rparr>) stopped \<noteq> Panicked v)"
proof -
  have c: "1 \<le> clamp_default 10 50 k" "clamp_default 10 50 k \<le> 50" "1 \<le> clamp_default 3 10 m" "clamp_default 3 10 m \<le> 10"
    using clamp_default_range [of 10 50 k] clamp_default_range [of 3 10 m] by simp_all
  obtain out where o: "summaryTextRank U (splitSentences U s) (clamp_default 3 10 m) = Some out" "subseq out (splitSentences U s)"
    "length out = min (nat (clamp_default 3 10 m)) (length (splitSentences U s))"
    using summary_reading_order [of "clamp_default 3 10 m" U "splitSentences U s"] c by auto
  obtain a where a: "Analyze U order s (clamp_default 10 50 k) (clamp_default 3 10 m) = Some a"
    "an_Keywords a = keywordTextRank U (tokenize U s) (clamp_default 10 50 k)" "an_Summary a = out" "an_Words a = length (tokenize U s)"
    "an_ReadingTimeMinutes a = (an_Words a + 199) div 200"
    using o(1) by (simp add: Analyze_def Let_def wordsPerMinute_def)
  have "length (an_Keywords a) \<le> 50"
    using c a(2) by (simp add: keywordTextRank_def Let_def)
  moreover have "an_Words a \<le> 200 * an_ReadingTimeMinutes a" "200 * an_ReadingTimeMinutes a < an_Words a + 200"
    using a(5) by linarith+
  moreover have "article_handle U order encode_result (Inr \<lparr> ap_ArticleID = i, ap_Text = s, ap_TopKeywords = k,
      ap_SummarySentences = m \<rparr>) stopped \<noteq> Panicked v" for v
    using a(1) by (auto simp: article_handle_def split: sum.split)
  ultimately show ?thesis using a(1,3) o(2,3) c by blast
qed

section \<open>Language\<close>

definition ascii :: unicode where
  "ascii = \<lparr> u_IsLetter = \<lambda>r. 97 \<le> r \<and> r \<le> 122 \<or> 65 \<le> r \<and> r \<le> 90, u_IsDigit = \<lambda>r. 48 \<le> r \<and> r \<le> 57,
     u_IsUpper = \<lambda>r. 65 \<le> r \<and> r \<le> 90, u_IsSpace = \<lambda>r. r \<in> {9, 10, 11, 12, 13, 32},
     u_ToLower = \<lambda>r. if 65 \<le> r \<and> r \<le> 90 then r + 32 else r \<rparr>"

lemma a_in_stopwords: "[97] \<in> set stopwordsEN" "[97] \<in> set stopwordsES" "[97] \<in> set stopwordsFR" "[97] \<notin> set stopwordsDE"
  by code_simp+

lemma a_scores: "language_score (replicate 10 [97]) l = (if l \<in> {''en'', ''es'', ''fr''} then 10 else 0)"
  using a_in_stopwords by (simp add: language_score_def stopwords_def)

lemma a_tokens: "tokenize ascii (concat (replicate 10 [97, 32])) = replicate 10 [97]"
  by code_simp

text \<open>
  The language is not a function of the text. The words \<open>a\<close>, ten times, are stop words of English, Spanish and
  French alike; the detected language is whichever of the three the iteration over the map of scores
  meets first, so two runs on the same text can store different results.
\<close>

lemma language_depends_on_order:
  "iteration_order (replicate 10 [97]) [''en'', ''es'', ''fr''] \<and> iteration_order (replicate 10 [97]) [''fr'', ''es'', ''en'']
    \<and> detectLanguage [''en'', ''es'', ''fr''] (replicate 10 [97]) = ''en''
    \<and> detectLanguage [''fr'', ''es'', ''en''] (replicate 10 [97]) = ''fr''
    \<and> tokenize ascii (concat (replicate 10 [97, 32])) = replicate 10 [97]"
  using a_tokens by (auto simp: iteration_order_def languages_def a_scores detectLanguage_def)

lemma queue_candidate: "keyword_candidate ascii (runes ''queue'')" "\<not> keyword_candidate ascii (runes ''the'')"
  by code_simp+

theorem keywords_ranked_witness:
  "length (keywordTextRank ascii [runes ''queue'', runes ''queue'', runes ''the''] 5) = 1
    \<and> distinct (map kw_Term (keywordTextRank ascii [runes ''queue'', runes ''queue'', runes ''the''] 5))"
proof -
  have "{w \<in> set [runes ''queue'', runes ''queue'', runes ''the'']. keyword_candidate ascii w} = {runes ''queue''}"
    using queue_candidate by auto
  with keywords_ranked [of ascii "[runes ''queue'', runes ''queue'', runes ''the'']" 5] show ?thesis by simp
qed

end
