(* ===== verification/Spec2Isabelle.thy ===== *)
theory Spec2Isabelle
  imports Refine Bench Shutdown Lifecycle Link Config Middleware Analyzer_Props Queue_Props
begin

text \<open>
  \<^bold>\<open>Calligraphy\<close> is a distributed job queue in Go. Postgres is the record of every job, Redis the transport. An API
  process (\<^verbatim>\<open>cmd/calligraphy-api\<close>) takes submissions, cancellations and requeues, runs the leader-elected recovery
  duties and commands workers over a control plane. Worker processes (\<^verbatim>\<open>cmd/calligraphy-worker\<close>) fetch envelopes
  from the Redis streams, claim the row under a lease with a fencing epoch, execute a handler, record the outcome
  (at once or in batches) and acknowledge the entry. Two clients use the API from outside: \<^verbatim>\<open>calligraphyctl\<close> and
  \<^verbatim>\<open>calligraphy-bench\<close>. All paths below are under \<^verbatim>\<open>src/internal\<close> unless they begin with \<^verbatim>\<open>cmd\<close>.

  \<^bold>\<open>Theories and sources.\<close>

  \<^item> \<open>Prelude\<close>, \<open>Golib\<close>: collections, lemmas on tables (lists with a key) and on words, and what the source uses of Go's
    library: \<^verbatim>\<open>Atoi\<close>, \<^verbatim>\<open>ParseBool\<close>, \<^verbatim>\<open>ParseDuration\<close>, decimal printing, splitting and trimming. A remote call
    has a fault: it happens (\<open>Good\<close>), is lost (\<open>Drop\<close>), or happens and its answer is lost (\<open>Late\<close>).
  \<^item> \<open>Errors\<close>, \<open>Job\<close>, \<open>Retry\<close>: \<^verbatim>\<open>job/errors.go\<close>, \<^verbatim>\<open>job/job.go\<close>, \<^verbatim>\<open>job/statemachine.go\<close>, \<^verbatim>\<open>retry/backoff.go\<close>. Error chains with
    \<^verbatim>\<open>errors.Is\<close> and \<^verbatim>\<open>errors.As\<close>, the classification of a handler's error, validation, envelopes, the transition
    table, the backoff with its 64-bit doubling.
  \<^item> \<open>Store\<close>, \<open>Batch\<close>, \<open>Store_Props\<close>, \<open>Batch_Props\<close>, \<open>Summary\<close>: \<^verbatim>\<open>store/store.go\<close>, \<^verbatim>\<open>store/batch.go\<close>. The state is the record
    \<open>db\<close> of tables; each Go method is one function that takes the outcome of its statements and returns its
    answer and the next database. \<open>row_step\<close> lists what the SQL can do to a row, \<open>store_step\<close> is one method call of any
    process, \<open>store_run\<close> any interleaving of calls. Fencing, finality, exclusive claims, idempotent
    submission, legal lifecycles; a batch transaction of operations for distinct jobs refines the sequence of single records,
    and under any fault does all of it or nothing; the batcher, from the sizes for which its channel can be made, loses and
    doubles nothing until its loop has returned. The locale \<open>recorder\<close> is the interface \<^verbatim>\<open>Recorder\<close>, interpreted on the
    immediate recorder and, through \<open>interference\<close>, on the batch.
  \<^item> \<open>Migrate\<close>: \<^verbatim>\<open>store/migrate.go\<close>. The locale \<open>migrator\<close> is interpreted on the code's own loop.
  \<^item> \<open>Redis\<close>, \<open>World\<close>, \<open>Queue\<close>, \<open>Queue_Props\<close>: \<open>redis\<close> is the record of the commands the source uses and \<open>redis_service\<close> the locale of their
    documented laws, interpreted on an in-memory server (\<open>redis_mem\<close>). \<open>World\<close> has the state monad in which
    effectful code runs, over a world of database, Redis, faults, clock readings and random draws, and a Hoare
    logic for it. \<open>Queue\<close> is \<^verbatim>\<open>queue/queue.go\<close>, Lua scripts included;
    among its properties is the leader lock with its expiry.
  \<^item> \<open>Runner\<close>, \<open>Recovery\<close>, \<open>Api\<close>, \<open>Router\<close>, \<open>Middleware\<close>: \<^verbatim>\<open>worker/runner.go\<close> and \<^verbatim>\<open>handler/handler.go\<close>, \<^verbatim>\<open>recovery/recovery.go\<close>, \<^verbatim>\<open>api/server.go\<close>; each handler
    whole, as a program of \<open>World\<close>. \<open>Runner_Props\<close>: the record comes before the acknowledgement, every
    outcome is routed. \<open>Middleware\<close> has what is wrapped around the routes: no panic leaves the handler, and every request but a
    probe is logged once, with the status its client gets.
  \<^item> \<open>Coverage\<close>, \<open>Handlers\<close>, \<open>Fleet\<close>, \<open>Calls\<close>, \<open>Budget\<close>, \<open>Refine\<close>, \<open>Demo\<close>: the running system. \<open>fleet_step\<close> is one handler of some process, with any outcome of every
    call, or the death of one; \<open>fleet_run\<close> any interleaving. \<open>transport\<close> extends the laws of Redis by those of the
    envelope codec, and every handler is shown to keep the coverage of obliged jobs there, which gives
    that no job is lost. \<open>Calls\<close> breaks every run up into single statements of the store, each authorised by the claims
    under way; \<open>Budget\<close> shows for all interleavings of such statements that no job is executed more often than
    allowed, which no statement checks. \<open>Refine\<close> has the abstract machine of a job, \<open>queue_step\<close>, and the proof that the
    system implements it. This theory adds the typing of what flows between the components.
  \<^item> \<open>Pool\<close>, \<open>Scale\<close>, \<open>Control\<close>, \<open>Link\<close>: \<^verbatim>\<open>worker/pool.go\<close>, \<^verbatim>\<open>scale/autoscaler.go\<close>, \<^verbatim>\<open>control/server.go\<close>, \<^verbatim>\<open>control/client.go\<close>; interleaved steps for the pool's loop and
    for the hub's streams, the failing write of a command included, and one connection of a worker to the hub from its hello to its end. The interfaces \<^verbatim>\<open>scale.Pool\<close> and \<^verbatim>\<open>PoolControls\<close> are locales, interpreted on the pool.
  \<^item> \<open>Metrics\<close>, \<open>Meters\<close>: \<^verbatim>\<open>metrics/metrics.go\<close>. What is counted, and the series with their registration in both processes; the locale
    \<open>prometheus_library\<close> has the documented laws of the client library, interpreted on a registry in memory.
  \<^item> \<open>Config\<close>, \<open>Boot\<close>, \<open>Lifecycle\<close>, \<open>Shutdown\<close>: \<^verbatim>\<open>config/config.go\<close>, \<^verbatim>\<open>worker/worker.go\<close>, \<^verbatim>\<open>cmd/calligraphy-worker\<close>, \<^verbatim>\<open>cmd/calligraphy-api\<close>: loading, the
    start of both processes with the connections they open; \<^verbatim>\<open>Worker.Run\<close> as a transition system of its goroutines,
    with the drain's safety and its end (\<open>Lifecycle\<close>); and \<^verbatim>\<open>run\<close> of the API process, from its \<^verbatim>\<open>select\<close> to the last closed
    connection, as one of the main goroutine, the leader, the requests and the streams of workers (\<open>Shutdown\<close>).
  \<^item> \<open>Builtins\<close>, \<open>Analyzer\<close>, \<open>Analyzer_Props\<close>: the handlers under \<^verbatim>\<open>handlers\<close>: signed callbacks, benchmark jobs, the analysis of articles.
  \<^item> \<open>Ctl\<close>, \<open>Bench\<close>: \<^verbatim>\<open>cmd/calligraphyctl\<close> and \<^verbatim>\<open>cmd/calligraphy-bench\<close>, as clients of the router.

  \<^bold>\<open>Parameters.\<close> Code that is not in the repository is an argument: the Redis server (laws in \<open>redis_service\<close>), the JSON codec of
  envelopes (\<open>envelope_codec\<close>: decoding gives back what was encoded), the cast to \<^verbatim>\<open>jsonb\<close>, SHA-256 (where a theorem needs it,
  no second preimage of a token), HMAC, URL parsing and the HTTP client of callbacks, the tables of the package
  \<^verbatim>\<open>unicode\<close>, the JSON decoding of request bodies, the execution of a migration script, the database and Redis drivers at start-up, the largest channel that the Go runtime makes,
  the client library of Prometheus (\<open>prometheus_library\<close>).

  \<^bold>\<open>Choices.\<close> Times and durations are integers of nanoseconds; where the source's 64 or 32 bits matter they are written out
  (\<open>wrap64\<close>, \<open>to_int32\<close>). Floating-point numbers are exact: rationals, so the rounding of a last bit is not modelled.
  \<open>ParseDuration\<close> keeps the fraction exactly. Postgres evaluates a statement atomically; \<open>now()\<close> is the
  clock \<open>db_now\<close>. In the running system a handler is one step: other processes act between handlers, not inside
  one. The bound on attempts and the refinement of the abstract machine do not rest on it: they are shown for every
  interleaving of single statements (\<open>calls_run\<close>), as are fencing, finality and exclusive claims (\<open>store_run\<close>). The
  coverage of jobs by the queue does; the one place where it matters, the late mark of a promotion, is stated as
  a theorem of its own in \<open>Fleet\<close>.
  All loops are structural or have a termination proof, except that trimming counts down the length of its
  text, which is always enough; there is no other fuel. Waits with a deadline may end either way; a wait without one, as for
  the end of the workers' streams, ends only when what it waits for has happened.

  \<^bold>\<open>What is not modelled.\<close> Logging other than the API's request log, and printing; the gRPC and HTTP transports; the text format of
  Prometheus; the generated messages of \<^verbatim>\<open>control/pb\<close>, whose content is in the datatypes of \<open>Control\<close>; host information
  and the git revision in benchmark results; the helpers that only tests call. What remains of the Go files besides
  these is imports, comments and the text of SQL statements that the functions of \<open>Store\<close> translate.
\<close>

section \<open>What flows between the components\<close>

text \<open>A delivery in the hands of a worker names a stream of the queue, the one its envelope belongs to.\<close>

definition delivery_typed :: "delivery \<Rightarrow> bool" where
  "delivery_typed x = (Priority_Valid (dv_Priority x) \<and> e_Priority (dv_Env x) = dv_Priority x)"

lemma held_typed:
  assumes "covered R C q issued T D K d s" and "held C D x"
  shows "delivery_typed x"
proof -
  from assms(2) obtain m where m: "(dv_Priority x, m) \<in> D" "DecodeEnvelope C (field ''j'' (snd m)) = Inr (dv_Env x)"
    by (auto simp: held_def)
  with assms(1) have "message_ok R C q issued s (dv_Priority x) m" by (auto simp: covered_def)
  with m(2) show ?thesis
    by (auto simp: message_ok_def delivery_typed_def PriorityOrder_def Priority_Valid_def)
qed

text \<open>
  C28. Every component meets data of the shape it expects. In every state that the system reaches from an empty
  one, the rows of the database are well formed (identifiers and keys unique, each status with exactly the
  columns that belong to it); every entry of a stream and every member of a delayed set that decodes is an
  envelope of that stream's priority; and every delivery that a worker holds, fetched or executing, names a
  priority of the queue, the one of its envelope, so that acknowledgements and heartbeats go to
  the stream the entry came from and a retry to the delayed set behind it.
\<close>

theorem system_well_typed:
  assumes "redis_service R issued" and "envelope_codec C"
    and "fleet_empty R q f0" and "fleet_run R issued C q W f0 f" and "quiet_workers W"
  shows "db_wf (w_db (f_world f)) \<and> queue_ok R C q (w_rd (f_world f))
    \<and> list_all delivery_typed (f_inbox f @ map fst (f_tasks f))"
proof -
  from reachable_fleet_ok [OF assms] obtain D
    where c: "covered R C q issued (executing f) D {} (w_db (f_world f)) (w_rd (f_world f))"
      and h: "\<And>x. x \<in> set (f_inbox f) \<union> fst ` set (f_tasks f) \<Longrightarrow> held C D x"
    unfolding fleet_ok_def by blast
  have "delivery_typed x" if "x \<in> set (f_inbox f @ map fst (f_tasks f))" for x
    using held_typed [OF c h] that by simp
  with c show ?thesis by (auto simp: covered_def list_all_iff simp del: set_append)
qed

theorem system_well_typed_witness:
  "db_wf (w_db demo_submitted) \<and> queue_ok redis_mem frame_codec demo_queue (w_rd demo_submitted)"
  using system_well_typed [OF mem.redis_service_axioms frames.envelope_codec_axioms demo_fleet_empty demo_fleet_submitted
      sync_workers_quiet] by simp

end
